(* ===== verification/Prelude.thy ===== *)
theory Prelude
  imports Main "HOL-Library.Word"
begin

text \<open>
  Shared vocabulary of the development: the machine types of the C sources, the
  outcomes a C function can have besides returning, byte buffers, and the lemmas
  on lists and words that the component theories rely on.

  \<^item> \<open>size_t\<close>, \<open>uint64_t\<close> and pointers are 64 bits wide (an LP64 target).
  \<^item> A region of memory is the list of its bytes; \<open>mem_read\<close> is a read of
    \<open>n\<close> bytes at an offset, \<open>mem_store\<close> a write, and both fault when the region
    ends before; \<open>mem_write\<close> is the write itself.
  \<^item> \<open>c_fault\<close> lists the ways a function of the sources ends without returning: undefined
    behaviour, a failed assertion, a loop that never ends, a call of \<^verbatim>\<open>exit\<close>.
\<close>

unbundle bit_operations_syntax

type_synonym byte = "8 word"
type_synonym u16 = "16 word"
type_synonym u32 = "32 word"
type_synonym u64 = "64 word"

datatype c_fault =
    OutOfBounds
  | NullDeref
  | AssertFailed
  | NonTermination
  | DivByZero
  | Exited

type_synonym 'a c_result = "c_fault + 'a"

definition c_bind :: "'a c_result \<Rightarrow> ('a \<Rightarrow> 'b c_result) \<Rightarrow> 'b c_result" where
  "c_bind m f = (case m of Inl e \<Rightarrow> Inl e | Inr x \<Rightarrow> f x)"

definition mem_read :: "'a list \<Rightarrow> nat \<Rightarrow> nat \<Rightarrow> 'a list c_result" where
  "mem_read buf off n =
     (if off + n \<le> length buf then Inr (take n (drop off buf)) else Inl OutOfBounds)"

definition mem_at :: "'a list \<Rightarrow> nat \<Rightarrow> 'a c_result" where
  "mem_at buf i = (if i < length buf then Inr (buf ! i) else Inl OutOfBounds)"

definition mem_write :: "'a list \<Rightarrow> nat \<Rightarrow> 'a list \<Rightarrow> 'a list" where
  "mem_write buf off xs = take off buf @ xs @ drop (off + length xs) buf"

definition mem_store :: "'a list \<Rightarrow> nat \<Rightarrow> 'a list \<Rightarrow> 'a list c_result" where
  "mem_store buf off xs =
     (if off + length xs \<le> length buf then Inr (mem_write buf off xs) else Inl OutOfBounds)"

definition xor_bytes :: "byte list \<Rightarrow> byte list \<Rightarrow> byte list" where
  "xor_bytes xs ys = map2 (XOR) xs ys"

definition strnlen :: "byte list \<Rightarrow> nat \<Rightarrow> nat" where
  "strnlen s n = length (takeWhile (\<lambda>c. c \<noteq> 0) (take n s))"

definition strlen :: "byte list \<Rightarrow> nat" where
  "strlen s = length (takeWhile (\<lambda>c. c \<noteq> 0) s)"

definition ascii :: "string \<Rightarrow> byte list" where
  "ascii s = map of_char s"

primrec le_pack :: "byte list \<Rightarrow> 'a::len word" where
  "le_pack [] = 0"
| "le_pack (b # bs) = ucast b OR push_bit 8 (le_pack bs)"

definition le_unpack :: "nat \<Rightarrow> 'a::len word \<Rightarrow> byte list" where
  "le_unpack n x = map (\<lambda>i. ucast (drop_bit (8 * i) x)) [0..<n]"

primrec le_value :: "byte list \<Rightarrow> nat" where
  "le_value [] = 0"
| "le_value (b # bs) = unat b + 256 * le_value bs"

named_theorems layout \<open>lengths and field positions of the packed structures\<close>

subsection \<open>Faults\<close>

lemma c_bind_simps [simp]:
  "c_bind (Inl e) f = Inl e"
  "c_bind (Inr x) f = f x"
  by (simp_all add: c_bind_def)

lemma c_bind_InrE: "c_bind m f = Inr y \<Longrightarrow> (\<And>x. m = Inr x \<Longrightarrow> f x = Inr y \<Longrightarrow> P) \<Longrightarrow> P"
  by (cases m) auto

lemma c_bind_assoc: "c_bind (c_bind m f) g = c_bind m (\<lambda>x. c_bind (f x) g)"
  by (cases m) simp_all

lemma c_bind_eq_Inr:
  "c_bind m f = Inr y \<longleftrightarrow> (\<exists>x. m = Inr x \<and> f x = Inr y)"
  by (cases m) (simp_all add: c_bind_def)

lemma mem_read_Inr [simp]:
  "off + n \<le> length buf \<Longrightarrow> mem_read buf off n = Inr (take n (drop off buf))"
  by (simp add: mem_read_def)

lemma mem_read_Inl [simp]:
  "length buf < off + n \<Longrightarrow> mem_read buf off n = Inl OutOfBounds"
  by (simp add: mem_read_def)

lemma mem_at_simps [simp]:
  "i < length buf \<Longrightarrow> mem_at buf i = Inr (buf ! i)"
  "length buf \<le> i \<Longrightarrow> mem_at buf i = Inl OutOfBounds"
  by (simp_all add: mem_at_def)

lemma length_mem_write [simp]:
  "off + length xs \<le> length buf \<Longrightarrow> length (mem_write buf off xs) = length buf"
  by (simp add: mem_write_def)

lemma mem_read_write_same:
  "off + length xs \<le> length buf \<Longrightarrow>
     mem_read (mem_write buf off xs) off (length xs) = Inr xs"
  by (simp add: mem_read_def) (simp add: mem_write_def)

lemma mem_store_simps [simp]:
  "off + length xs \<le> length buf \<Longrightarrow> mem_store buf off xs = Inr (mem_write buf off xs)"
  "length buf < off + length xs \<Longrightarrow> mem_store buf off xs = Inl OutOfBounds"
  by (simp_all add: mem_store_def)

lemma take_drop_chain: "take n (drop m xs) @ drop (n + m) xs = drop m xs"
  by (metis append_take_drop_id drop_drop)

subsection \<open>Bytewise exclusive or\<close>

lemma length_xor_bytes [simp]: "length (xor_bytes xs ys) = min (length xs) (length ys)"
  by (simp add: xor_bytes_def)

lemma nth_xor_bytes [simp]:
  "i < length xs \<Longrightarrow> i < length ys \<Longrightarrow> xor_bytes xs ys ! i = xs ! i XOR ys ! i"
  by (simp add: xor_bytes_def)

lemma xor_bytes_Cons [simp]: "xor_bytes (x # xs) (y # ys) = (x XOR y) # xor_bytes xs ys"
  by (simp add: xor_bytes_def)

lemma xor_bytes_Nil [simp]: "xor_bytes [] ys = []" "xor_bytes xs [] = []"
  by (simp_all add: xor_bytes_def)

lemma xor_word_cancel [simp]:
  fixes a b :: "'a::len word"
  shows "(a XOR b) XOR b = a" "b XOR (b XOR a) = a" "b XOR (a XOR b) = a"
proof -
  show "(a XOR b) XOR b = a" by (simp add: xor.assoc)
  then show "b XOR (a XOR b) = a" by (simp add: xor.commute)
  show "b XOR (b XOR a) = a" by (simp flip: xor.assoc)
qed

lemma xor_bytes_cancel [simp]:
  "length xs \<le> length ys \<Longrightarrow> xor_bytes (xor_bytes xs ys) ys = xs"
  by (rule nth_equalityI) (simp_all)

lemma xor_bytes_commute: "xor_bytes a b = xor_bytes b a"
  by (rule nth_equalityI) (simp_all add: xor.commute)

subsection \<open>Strings\<close>

lemma strnlen_le: "strnlen s n \<le> n" "strnlen s n \<le> length s"
  using length_takeWhile_le[of "\<lambda>c. c \<noteq> 0" "take n s"]
  by (auto simp: strnlen_def)

lemma take_strnlen: "take (strnlen s n) s = takeWhile (\<lambda>c. c \<noteq> 0) (take n s)"
proof (induction s arbitrary: n)
  case Nil
  then show ?case by simp
next
  case (Cons c s)
  show ?case
  proof (cases n)
    case 0
    then show ?thesis by (simp add: strnlen_def)
  next
    case (Suc m)
    with Cons.IH[of m] show ?thesis by (simp add: strnlen_def)
  qed
qed

lemma strnlen_zero_free:
  "0 \<notin> set s \<Longrightarrow> strnlen (s @ 0 # t) n = min n (length s)"
proof -
  assume *: "0 \<notin> set s"
  have **: "takeWhile (\<lambda>c. c \<noteq> 0) (take n s @ xs) = take n s @ takeWhile (\<lambda>c. c \<noteq> 0) xs" for xs
    using * by (intro takeWhile_append2) (metis in_set_takeD)
  show ?thesis
    using **[of "[]", simplified append_Nil2] **
    by (cases "n \<le> length s") (simp_all only: strnlen_def take_append, simp_all add: take_Cons')
qed

lemma length_ascii [simp]: "length (ascii s) = length s"
  by (simp add: ascii_def)

subsection \<open>Bits of words\<close>

lemma bit_push_bit_1:
  fixes w :: "'a::len word"
  shows "bit (push_bit 1 w) n \<longleftrightarrow> n < LENGTH('a) \<and> 0 < n \<and> bit w (n - 1)"
  using bit_push_bit_iff[of 1 w n] by auto

lemma unat_less_pow2I:
  fixes w :: "'a::len word"
  assumes "\<And>n. k \<le> n \<Longrightarrow> \<not> bit w n"
  shows "unat w < 2 ^ k"
proof -
  have "w = take_bit k w"
    by (rule bit_word_eqI) (metis assms bit_take_bit_iff not_less)
  then show ?thesis by (metis take_bit_nat_less_exp unsigned_take_bit_eq)
qed

lemma if_xor:
  fixes c :: "'a::len word"
  shows "(if p \<noteq> q then c else 0) = (if p then c else 0) XOR (if q then c else 0)"
  by simp

lemma byte_cases:
  assumes "list_all P (map word_of_nat [0..<256])"
  shows "P (x :: byte)"
proof -
  have "x = word_of_nat (unat x)" "unat x < 256" using unsigned_less[of x] by simp_all
  then have "x \<in> set (map word_of_nat [0..<256])"
    by (metis atLeastLessThan_iff image_eqI list.set_map set_upt zero_le)
  with assms show ?thesis by (simp only: list_all_iff)
qed

subsection \<open>Little-endian words\<close>

lemma length_le_unpack [simp]: "length (le_unpack n x) = n"
  by (simp add: le_unpack_def)

lemma bit_le_pack:
  "bit (le_pack bs :: 'a::len word) n \<longleftrightarrow>
     n < LENGTH('a) \<and> n div 8 < length bs \<and> bit (bs ! (n div 8)) (n mod 8)"
proof (induction bs arbitrary: n)
  case Nil
  then show ?case by simp
next
  case (Cons b bs)
  show ?case
  proof (cases "n < 8")
    case True
    then show ?thesis by (auto simp: bit_simps)
  next
    case False
    then obtain m where m: "n = m + 8" by (metis add.commute le_Suc_ex not_less)
    then have "n div 8 = Suc (m div 8)" by simp
    with m show ?thesis using Cons.IH[of m]
      by (auto simp: bit_simps dest: bit_imp_le_length)
  qed
qed

lemma le_pack_unpack:
  "8 * n = LENGTH('a::len) \<Longrightarrow> le_pack (le_unpack n (x :: 'a word)) = x"
  by (rule bit_word_eqI)
    (simp add: bit_le_pack le_unpack_def bit_simps less_mult_imp_div_less mult.commute)

lemma le_unpack_pack:
  "8 * length bs = LENGTH('a::len) \<Longrightarrow> le_unpack (length bs) (le_pack bs :: 'a word) = bs"
  by (rule nth_equalityI)
    (auto simp: bit_le_pack le_unpack_def bit_simps intro!: bit_word_eqI)

lemma le_value_less: "le_value bs < 256 ^ length bs"
proof (induction bs)
  case Nil
  then show ?case by simp
next
  case (Cons b bs)
  have "unat b < 256" using unsigned_less[of b] by simp
  moreover have "256 * Suc (le_value bs) \<le> 256 * 256 ^ length bs"
    using Cons.IH by (simp only: mult_le_mono2 Suc_leI)
  ultimately show ?case by simp
qed

lemma le_pack_value: "le_pack bs = (of_nat (le_value bs) :: 'a::len word)"
proof (induction bs)
  case Nil
  then show ?case by simp
next
  case (Cons b bs)
  have "(ucast b :: 'a word) AND push_bit 8 (le_pack bs) = 0"
    by (rule bit_word_eqI) (auto simp: bit_simps dest: bit_imp_le_length)
  then have "(ucast b :: 'a word) OR push_bit 8 (le_pack bs) = ucast b + push_bit 8 (le_pack bs)"
    by (simp add: disjunctive_add_eq_or)
  also have "\<dots> = of_nat (unat b) + 256 * of_nat (le_value bs)"
    by (simp add: Cons.IH push_bit_eq_mult mult.commute)
  finally show ?case by simp
qed

lemma unat_le_pack:
  "8 * length bs \<le> LENGTH('a::len) \<Longrightarrow> unat (le_pack bs :: 'a word) = le_value bs"
proof -
  assume "8 * length bs \<le> LENGTH('a)"
  then have "(256::nat) ^ length bs \<le> 2 ^ LENGTH('a)"
    using power_increasing[of "8 * length bs" "LENGTH('a)" "2::nat"] by (simp add: power_mult)
  then show ?thesis
    using le_value_less[of bs] by (simp add: le_pack_value unat_of_nat take_bit_nat_eq_self)
qed

end
