(* ===== verification/Wire_Util.thy ===== *)
theory Wire_Util
  imports Prelude
begin

text \<open>
  The integer codecs of \<^verbatim>\<open>common/wire-util.c\<close>: every length, count and
  identifier of the wire format is stored as a little-endian byte array through
  these functions. The locale \<open>byte_codec\<close> is the contract the message layouts
  use; it is interpreted on the four widths.
\<close>

definition wire_pack64 :: "byte list \<Rightarrow> u64" where
  "wire_pack64 src =
     push_bit 0x00 (ucast (src ! 0)) OR
     push_bit 0x08 (ucast (src ! 1)) OR
     push_bit 0x10 (ucast (src ! 2)) OR
     push_bit 0x18 (ucast (src ! 3)) OR
     push_bit 0x20 (ucast (src ! 4)) OR
     push_bit 0x28 (ucast (src ! 5)) OR
     push_bit 0x30 (ucast (src ! 6)) OR
     push_bit 0x38 (ucast (src ! 7))"

definition wire_pack32 :: "byte list \<Rightarrow> u32" where
  "wire_pack32 src =
     push_bit 0x00 (ucast (src ! 0)) OR
     push_bit 0x08 (ucast (src ! 1)) OR
     push_bit 0x10 (ucast (src ! 2)) OR
     push_bit 0x18 (ucast (src ! 3))"

definition wire_pack16 :: "byte list \<Rightarrow> u16" where
  "wire_pack16 src =
     push_bit 0x00 (ucast (src ! 0)) OR
     push_bit 0x08 (ucast (src ! 1))"

definition wire_pack8 :: "byte list \<Rightarrow> byte" where
  "wire_pack8 src = src ! 0"

definition wire_unpack64 :: "u64 \<Rightarrow> byte list" where
  "wire_unpack64 src =
     [ucast (drop_bit 0x00 src), ucast (drop_bit 0x08 src),
      ucast (drop_bit 0x10 src), ucast (drop_bit 0x18 src),
      ucast (drop_bit 0x20 src), ucast (drop_bit 0x28 src),
      ucast (drop_bit 0x30 src), ucast (drop_bit 0x38 src)]"

definition wire_unpack32 :: "u32 \<Rightarrow> byte list" where
  "wire_unpack32 src =
     [ucast (drop_bit 0x00 src), ucast (drop_bit 0x08 src),
      ucast (drop_bit 0x10 src), ucast (drop_bit 0x18 src)]"

definition wire_unpack16 :: "u16 \<Rightarrow> byte list" where
  "wire_unpack16 src = [ucast (drop_bit 0x00 src), ucast (drop_bit 0x08 src)]"

definition wire_unpack8 :: "byte \<Rightarrow> byte list" where
  "wire_unpack8 src = [src]"

subsection \<open>The codec contract\<close>

locale byte_codec =
  fixes pack :: "byte list \<Rightarrow> 'a"
    and unpack :: "'a \<Rightarrow> byte list"
    and width :: nat
  assumes length_unpack: "length (unpack x) = width"
    and pack_unpack: "pack (unpack x) = x"
    and unpack_pack: "length bs = width \<Longrightarrow> unpack (pack bs) = bs"
begin

lemma unpack_inject: "unpack x = unpack y \<longleftrightarrow> x = y"
  by (metis pack_unpack)

lemma pack_inject:
  "length xs = width \<Longrightarrow> length ys = width \<Longrightarrow> pack xs = pack ys \<longleftrightarrow> xs = ys"
  by (metis unpack_pack)

lemma load_stored_field:
  "length xs = off \<Longrightarrow> pack (take width (drop off (xs @ unpack v @ ys))) = v"
  by (simp add: length_unpack pack_unpack)

end

subsection \<open>The four widths\<close>

lemma wire_pack64_le: "length bs = 8 \<Longrightarrow> wire_pack64 bs = le_pack bs"
proof -
  assume "length bs = 8"
  then have "bs = [bs!0, bs!1, bs!2, bs!3, bs!4, bs!5, bs!6, bs!7]"
    by (simp add: list_eq_iff_nth_eq less_Suc_eq numeral_eq_Suc)
  then obtain a b c d e f g h where "bs = [a, b, c, d, e, f, g, h]" by blast
  then show ?thesis by (simp add: wire_pack64_def push_bit_or or.assoc)
qed

lemma wire_pack32_le: "length bs = 4 \<Longrightarrow> wire_pack32 bs = le_pack bs"
proof -
  assume "length bs = 4"
  then have "bs = [bs!0, bs!1, bs!2, bs!3]"
    by (simp add: list_eq_iff_nth_eq less_Suc_eq numeral_eq_Suc)
  then obtain a b c d where "bs = [a, b, c, d]" by blast
  then show ?thesis by (simp add: wire_pack32_def push_bit_or or.assoc)
qed

lemma wire_pack16_le: "length bs = 2 \<Longrightarrow> wire_pack16 bs = le_pack bs"
proof -
  assume "length bs = 2"
  then have "bs = [bs!0, bs!1]"
    by (simp add: list_eq_iff_nth_eq less_Suc_eq numeral_eq_Suc)
  then obtain a b where "bs = [a, b]" by blast
  then show ?thesis by (simp add: wire_pack16_def)
qed

lemma wire_unpack64_le: "wire_unpack64 x = le_unpack 8 x"
  by (simp add: wire_unpack64_def le_unpack_def upt_conv_Cons)

lemma wire_unpack32_le: "wire_unpack32 x = le_unpack 4 x"
  by (simp add: wire_unpack32_def le_unpack_def upt_conv_Cons)

lemma wire_unpack16_le: "wire_unpack16 x = le_unpack 2 x"
  by (simp add: wire_unpack16_def le_unpack_def upt_conv_Cons)

interpretation le64: byte_codec wire_pack64 wire_unpack64 8
proof unfold_locales
  fix x :: u64 and bs :: "byte list"
  show "length (wire_unpack64 x) = 8" by (simp add: wire_unpack64_def)
  show "wire_pack64 (wire_unpack64 x) = x"
    by (simp add: wire_unpack64_le wire_pack64_le le_pack_unpack)
  show "wire_unpack64 (wire_pack64 bs) = bs" if "length bs = 8"
    using le_unpack_pack[of bs, where 'a = 64] that
    by (simp add: wire_unpack64_le wire_pack64_le)
qed

interpretation le32: byte_codec wire_pack32 wire_unpack32 4
proof unfold_locales
  fix x :: u32 and bs :: "byte list"
  show "length (wire_unpack32 x) = 4" by (simp add: wire_unpack32_def)
  show "wire_pack32 (wire_unpack32 x) = x"
    by (simp add: wire_unpack32_le wire_pack32_le le_pack_unpack)
  show "wire_unpack32 (wire_pack32 bs) = bs" if "length bs = 4"
    using le_unpack_pack[of bs, where 'a = 32] that
    by (simp add: wire_unpack32_le wire_pack32_le)
qed

interpretation le16: byte_codec wire_pack16 wire_unpack16 2
proof unfold_locales
  fix x :: u16 and bs :: "byte list"
  show "length (wire_unpack16 x) = 2" by (simp add: wire_unpack16_def)
  show "wire_pack16 (wire_unpack16 x) = x"
    by (simp add: wire_unpack16_le wire_pack16_le le_pack_unpack)
  show "wire_unpack16 (wire_pack16 bs) = bs" if "length bs = 2"
    using le_unpack_pack[of bs, where 'a = 16] that
    by (simp add: wire_unpack16_le wire_pack16_le)
qed

interpretation le8: byte_codec wire_pack8 wire_unpack8 1
proof unfold_locales
  fix x :: byte and bs :: "byte list"
  show "length (wire_unpack8 x) = 1" by (simp add: wire_unpack8_def)
  show "wire_pack8 (wire_unpack8 x) = x" by (simp add: wire_pack8_def wire_unpack8_def)
  show "wire_unpack8 (wire_pack8 bs) = bs" if "length bs = 1"
    using that by (cases bs) (simp_all add: wire_pack8_def wire_unpack8_def)
qed

lemmas codec_lengths [simp, layout] =
  le64.length_unpack le32.length_unpack le16.length_unpack le8.length_unpack

lemmas codec_inverses [simp] =
  le64.pack_unpack le32.pack_unpack le16.pack_unpack le8.pack_unpack

lemma unat_wire_pack64: "length bs = 8 \<Longrightarrow> unat (wire_pack64 bs) = le_value bs"
  using unat_le_pack[of bs, where 'a = 64] by (simp add: wire_pack64_le)


text \<open>the wire integers. Packing what was unpacked gives the value back at every width,
  and the unpacked bytes are its little-endian base-256 digits.\<close>

lemma wire_unpack_little_endian:
  "(length (wire_unpack64 a) = 8 \<and> wire_pack64 (wire_unpack64 a) = a \<and> le_value (wire_unpack64 a) = unat a) \<and>
   (length (wire_unpack32 b) = 4 \<and> wire_pack32 (wire_unpack32 b) = b \<and> le_value (wire_unpack32 b) = unat b) \<and>
   (length (wire_unpack16 c) = 2 \<and> wire_pack16 (wire_unpack16 c) = c \<and> le_value (wire_unpack16 c) = unat c) \<and>
   (length (wire_unpack8 d) = 1 \<and> wire_pack8 (wire_unpack8 d) = d \<and> le_value (wire_unpack8 d) = unat d)"
  using unat_le_pack[of "wire_unpack64 a", where 'a = 64] unat_le_pack[of "wire_unpack32 b", where 'a = 32]
    unat_le_pack[of "wire_unpack16 c", where 'a = 16]
  by (simp add: wire_pack64_le[symmetric] wire_pack32_le[symmetric] wire_pack16_le[symmetric])
    (simp add: wire_unpack8_def)

end
