(* ===== verification/Aes128.thy ===== *)
theory Aes128
  imports Prelude
begin

text \<open>
  \<^verbatim>\<open>crypto/aes128.c\<close>: the AES-128 block cipher, its key schedule, cipher block
  chaining and AES-CMAC.

  \<^item> The union \<^verbatim>\<open>state_t\<close> is the list of its 16 bytes; \<^verbatim>\<open>ctx->s[i][j]\<close> is byte
    \<open>4 * i + j\<close>. Functions that update the state in place return it.
  \<^item> \<^verbatim>\<open>aes128_encrypt\<close> and \<^verbatim>\<open>aes128_decrypt\<close> work on the memory from \<^verbatim>\<open>chunk\<close> on and
    fault when a block of 16 bytes reaches past its end.
  \<^item> Shown: the inverse cipher inverts the cipher, the two chaining loops are
    cipher block chaining and invert each other, and \<^verbatim>\<open>aes128_cmac\<close> computes the
    code of RFC 4493.
\<close>

abbreviation (input) AES_WORD_COUNT :: nat where "AES_WORD_COUNT \<equiv> 4"
abbreviation (input) AES_ROUNDS :: nat where "AES_ROUNDS \<equiv> 10"
abbreviation (input) AES_BLOCK_SIZE :: nat where "AES_BLOCK_SIZE \<equiv> 16"
abbreviation (input) AES_KEY_LEN :: nat where "AES_KEY_LEN \<equiv> 16"
abbreviation (input) AES_KEY_BITS :: byte where "AES_KEY_BITS \<equiv> 8 * 16"

record aes128_t =
  round_key :: "byte list"
  ctx_iv :: "byte list"

type_synonym state_t = "byte list"

subsection \<open>Field multiplication and substitution\<close>

definition gfmul_mask :: "byte list" where
  "gfmul_mask = [0x00, 0x1b, 0x36, 0x2d, 0x6c, 0x77, 0x5a, 0x41]"

definition gfmul :: "byte \<Rightarrow> byte \<Rightarrow> byte" where
  "gfmul x y =
     (let r = (ucast x * ucast (y AND 0x1)) XOR (ucast x * ucast (y AND 0x2)) XOR
              (ucast x * ucast (y AND 0x4)) XOR (ucast x * ucast (y AND 0x8)) :: u16
      in ucast (r XOR ucast (gfmul_mask ! unat (drop_bit 8 r))))"

definition xor128 :: "byte list \<Rightarrow> byte list \<Rightarrow> byte list" where
  "xor128 a b = xor_bytes (take AES_BLOCK_SIZE a) (take AES_BLOCK_SIZE b)"

definition sbox :: "byte list" where
  "sbox = [
      0x63, 0x7c, 0x77, 0x7b, 0xf2, 0x6b, 0x6f, 0xc5, 0x30, 0x01, 0x67, 0x2b, 0xfe, 0xd7, 0xab, 0x76,
      0xca, 0x82, 0xc9, 0x7d, 0xfa, 0x59, 0x47, 0xf0, 0xad, 0xd4, 0xa2, 0xaf, 0x9c, 0xa4, 0x72, 0xc0,
      0xb7, 0xfd, 0x93, 0x26, 0x36, 0x3f, 0xf7, 0xcc, 0x34, 0xa5, 0xe5, 0xf1, 0x71, 0xd8, 0x31, 0x15,
      0x04, 0xc7, 0x23, 0xc3, 0x18, 0x96, 0x05, 0x9a, 0x07, 0x12, 0x80, 0xe2, 0xeb, 0x27, 0xb2, 0x75,
      0x09, 0x83, 0x2c, 0x1a, 0x1b, 0x6e, 0x5a, 0xa0, 0x52, 0x3b, 0xd6, 0xb3, 0x29, 0xe3, 0x2f, 0x84,
      0x53, 0xd1, 0x00, 0xed, 0x20, 0xfc, 0xb1, 0x5b, 0x6a, 0xcb, 0xbe, 0x39, 0x4a, 0x4c, 0x58, 0xcf,
      0xd0, 0xef, 0xaa, 0xfb, 0x43, 0x4d, 0x33, 0x85, 0x45, 0xf9, 0x02, 0x7f, 0x50, 0x3c, 0x9f, 0xa8,
      0x51, 0xa3, 0x40, 0x8f, 0x92, 0x9d, 0x38, 0xf5, 0xbc, 0xb6, 0xda, 0x21, 0x10, 0xff, 0xf3, 0xd2,
      0xcd, 0x0c, 0x13, 0xec, 0x5f, 0x97, 0x44, 0x17, 0xc4, 0xa7, 0x7e, 0x3d, 0x64, 0x5d, 0x19, 0x73,
      0x60, 0x81, 0x4f, 0xdc, 0x22, 0x2a, 0x90, 0x88, 0x46, 0xee, 0xb8, 0x14, 0xde, 0x5e, 0x0b, 0xdb,
      0xe0, 0x32, 0x3a, 0x0a, 0x49, 0x06, 0x24, 0x5c, 0xc2, 0xd3, 0xac, 0x62, 0x91, 0x95, 0xe4, 0x79,
      0xe7, 0xc8, 0x37, 0x6d, 0x8d, 0xd5, 0x4e, 0xa9, 0x6c, 0x56, 0xf4, 0xea, 0x65, 0x7a, 0xae, 0x08,
      0xba, 0x78, 0x25, 0x2e, 0x1c, 0xa6, 0xb4, 0xc6, 0xe8, 0xdd, 0x74, 0x1f, 0x4b, 0xbd, 0x8b, 0x8a,
      0x70, 0x3e, 0xb5, 0x66, 0x48, 0x03, 0xf6, 0x0e, 0x61, 0x35, 0x57, 0xb9, 0x86, 0xc1, 0x1d, 0x9e,
      0xe1, 0xf8, 0x98, 0x11, 0x69, 0xd9, 0x8e, 0x94, 0x9b, 0x1e, 0x87, 0xe9, 0xce, 0x55, 0x28, 0xdf,
      0x8c, 0xa1, 0x89, 0x0d, 0xbf, 0xe6, 0x42, 0x68, 0x41, 0x99, 0x2d, 0x0f, 0xb0, 0x54, 0xbb, 0x16]"

definition rsbox :: "byte list" where
  "rsbox = [
      0x52, 0x09, 0x6a, 0xd5, 0x30, 0x36, 0xa5, 0x38, 0xbf, 0x40, 0xa3, 0x9e, 0x81, 0xf3, 0xd7, 0xfb,
      0x7c, 0xe3, 0x39, 0x82, 0x9b, 0x2f, 0xff, 0x87, 0x34, 0x8e, 0x43, 0x44, 0xc4, 0xde, 0xe9, 0xcb,
      0x54, 0x7b, 0x94, 0x32, 0xa6, 0xc2, 0x23, 0x3d, 0xee, 0x4c, 0x95, 0x0b, 0x42, 0xfa, 0xc3, 0x4e,
      0x08, 0x2e, 0xa1, 0x66, 0x28, 0xd9, 0x24, 0xb2, 0x76, 0x5b, 0xa2, 0x49, 0x6d, 0x8b, 0xd1, 0x25,
      0x72, 0xf8, 0xf6, 0x64, 0x86, 0x68, 0x98, 0x16, 0xd4, 0xa4, 0x5c, 0xcc, 0x5d, 0x65, 0xb6, 0x92,
      0x6c, 0x70, 0x48, 0x50, 0xfd, 0xed, 0xb9, 0xda, 0x5e, 0x15, 0x46, 0x57, 0xa7, 0x8d, 0x9d, 0x84,
      0x90, 0xd8, 0xab, 0x00, 0x8c, 0xbc, 0xd3, 0x0a, 0xf7, 0xe4, 0x58, 0x05, 0xb8, 0xb3, 0x45, 0x06,
      0xd0, 0x2c, 0x1e, 0x8f, 0xca, 0x3f, 0x0f, 0x02, 0xc1, 0xaf, 0xbd, 0x03, 0x01, 0x13, 0x8a, 0x6b,
      0x3a, 0x91, 0x11, 0x41, 0x4f, 0x67, 0xdc, 0xea, 0x97, 0xf2, 0xcf, 0xce, 0xf0, 0xb4, 0xe6, 0x73,
      0x96, 0xac, 0x74, 0x22, 0xe7, 0xad, 0x35, 0x85, 0xe2, 0xf9, 0x37, 0xe8, 0x1c, 0x75, 0xdf, 0x6e,
      0x47, 0xf1, 0x1a, 0x71, 0x1d, 0x29, 0xc5, 0x89, 0x6f, 0xb7, 0x62, 0x0e, 0xaa, 0x18, 0xbe, 0x1b,
      0xfc, 0x56, 0x3e, 0x4b, 0xc6, 0xd2, 0x79, 0x20, 0x9a, 0xdb, 0xc0, 0xfe, 0x78, 0xcd, 0x5a, 0xf4,
      0x1f, 0xdd, 0xa8, 0x33, 0x88, 0x07, 0xc7, 0x31, 0xb1, 0x12, 0x10, 0x59, 0x27, 0x80, 0xec, 0x5f,
      0x60, 0x51, 0x7f, 0xa9, 0x19, 0xb5, 0x4a, 0x0d, 0x2d, 0xe5, 0x7a, 0x9f, 0x93, 0xc9, 0x9c, 0xef,
      0xa0, 0xe0, 0x3b, 0x4d, 0xae, 0x2a, 0xf5, 0xb0, 0xc8, 0xeb, 0xbb, 0x3c, 0x83, 0x53, 0x99, 0x61,
      0x17, 0x2b, 0x04, 0x7e, 0xba, 0x77, 0xd6, 0x26, 0xe1, 0x69, 0x14, 0x63, 0x55, 0x21, 0x0c, 0x7d]"

definition sbox_lookup :: "byte \<Rightarrow> bool \<Rightarrow> byte" where
  "sbox_lookup index invert = (if invert then rsbox ! unat index else sbox ! unat index)"

subsection \<open>Key schedule\<close>

definition round_constants :: "byte list" where
  "round_constants = [0x8d, 0x01, 0x02, 0x04, 0x08, 0x10, 0x20, 0x40, 0x80, 0x1b, 0x36]"

text \<open>
  One turn of the loop of \<^verbatim>\<open>aes_key_expansion\<close>. The turns write the 176 bytes of
  \<^verbatim>\<open>round_key\<close> in increasing order, so the array is the list of the bytes written.
\<close>

definition aes_expand_word :: "nat \<Rightarrow> byte list \<Rightarrow> byte list" where
  "aes_expand_word i rk =
     (let word = map (\<lambda>j. rk ! (4 * (i - 1) + j)) [0..<4];
          word' =
            (if i mod AES_WORD_COUNT = 0
             then let rot = [word ! 1, word ! 2, word ! 3, word ! 0];
                      sub = map (\<lambda>w. sbox_lookup w False) rot
                  in sub[0 := sub ! 0 XOR round_constants ! (i div 4)]
             else word)
      in rk @ map (\<lambda>j. rk ! (4 * (i - AES_WORD_COUNT) + j) XOR word' ! j) [0..<4])"

definition aes_key_expansion :: "byte list \<Rightarrow> byte list" where
  "aes_key_expansion key =
     fold aes_expand_word [AES_WORD_COUNT..<4 * (AES_ROUNDS + 1)] (take AES_KEY_LEN key)"

definition aes_generate_subkey :: "byte list \<Rightarrow> byte list" where
  "aes_generate_subkey key =
     (let msb = key ! 0 AND 0x80;
          key1 = map (\<lambda>i. push_bit 1 (key ! i) OR drop_bit 7 (key ! (i + 1))) [0..<15]
                   @ [push_bit 1 (key ! 15)]
      in if msb \<noteq> 0 then key1[15 := key1 ! 15 XOR 0x87] else key1)"

subsection \<open>Round functions\<close>

definition aes_add_round_key :: "state_t \<Rightarrow> nat \<Rightarrow> byte list \<Rightarrow> state_t" where
  "aes_add_round_key ctx round rk =
     map (\<lambda>k. ctx ! k XOR rk ! (AES_BLOCK_SIZE * round + k)) [0..<16]"

definition aes_substitute_bytes :: "state_t \<Rightarrow> bool \<Rightarrow> state_t" where
  "aes_substitute_bytes ctx invert = map (\<lambda>k. sbox_lookup (ctx ! k) invert) [0..<16]"

definition aes_shift_rows :: "state_t \<Rightarrow> bool \<Rightarrow> state_t" where
  "aes_shift_rows ctx invert =
     (let r1x = (if invert then [3, 2, 1, 0] else [0, 1, 2, 3]) :: nat list;
          r3x = (if invert then [0, 3, 2, 1] else [0, 1, 2, 3]) :: nat list;
          s = ctx ! (4 * (r1x ! 0) + 1);
          ctx = ctx[4 * (r1x ! 0) + 1 := ctx ! (4 * (r1x ! 1) + 1)];
          ctx = ctx[4 * (r1x ! 1) + 1 := ctx ! (4 * (r1x ! 2) + 1)];
          ctx = ctx[4 * (r1x ! 2) + 1 := ctx ! (4 * (r1x ! 3) + 1)];
          ctx = ctx[4 * (r1x ! 3) + 1 := s];
          s = ctx ! (4 * 0 + 2);
          ctx = ctx[4 * 0 + 2 := ctx ! (4 * 2 + 2)];
          ctx = ctx[4 * 2 + 2 := s];
          s = ctx ! (4 * 1 + 2);
          ctx = ctx[4 * 1 + 2 := ctx ! (4 * 3 + 2)];
          ctx = ctx[4 * 3 + 2 := s];
          s = ctx ! (4 * (r3x ! 0) + 3);
          ctx = ctx[4 * (r3x ! 0) + 3 := ctx ! (4 * (r3x ! 3) + 3)];
          ctx = ctx[4 * (r3x ! 3) + 3 := ctx ! (4 * (r3x ! 2) + 3)];
          ctx = ctx[4 * (r3x ! 2) + 3 := ctx ! (4 * (r3x ! 1) + 3)];
          ctx = ctx[4 * (r3x ! 1) + 3 := s]
      in ctx)"

definition aes_mix_column_inv :: "nat \<Rightarrow> state_t \<Rightarrow> state_t" where
  "aes_mix_column_inv i ctx =
     (let s0 = ctx ! (4 * i); s1 = ctx ! (4 * i + 1); s2 = ctx ! (4 * i + 2); s3 = ctx ! (4 * i + 3);
          ctx = ctx[4 * i := gfmul s0 0xe XOR gfmul s1 0xb XOR gfmul s2 0xd XOR gfmul s3 0x9];
          ctx = ctx[4 * i + 1 := gfmul s0 0x9 XOR gfmul s1 0xe XOR gfmul s2 0xb XOR gfmul s3 0xd];
          ctx = ctx[4 * i + 2 := gfmul s0 0xd XOR gfmul s1 0x9 XOR gfmul s2 0xe XOR gfmul s3 0xb];
          ctx = ctx[4 * i + 3 := gfmul s0 0xb XOR gfmul s1 0xd XOR gfmul s2 0x9 XOR gfmul s3 0xe]
      in ctx)"

definition aes_mix_column_step :: "nat \<Rightarrow> byte \<Rightarrow> byte \<Rightarrow> nat \<Rightarrow> state_t \<Rightarrow> state_t" where
  "aes_mix_column_step i s c0 j ctx =
     (let c = ctx ! (4 * i + j) XOR (if j = 3 then c0 else ctx ! (4 * i + (j + 1)));
          c = push_bit 1 c XOR ((drop_bit 7 c AND 1) * 0x1b)
      in ctx[4 * i + j := ctx ! (4 * i + j) XOR (c XOR s)])"

definition aes_mix_column :: "nat \<Rightarrow> state_t \<Rightarrow> state_t" where
  "aes_mix_column i ctx =
     (let s = ctx ! (4 * i) XOR ctx ! (4 * i + 1) XOR ctx ! (4 * i + 2) XOR ctx ! (4 * i + 3);
          c0 = ctx ! (4 * i)
      in fold (aes_mix_column_step i s c0) [0..<4] ctx)"

definition aes_mix_columns :: "state_t \<Rightarrow> bool \<Rightarrow> state_t" where
  "aes_mix_columns ctx invert =
     (if invert then fold aes_mix_column_inv [0..<4] ctx else fold aes_mix_column [0..<4] ctx)"

subsection \<open>The cipher\<close>

text \<open>
  The two loops of \<^verbatim>\<open>aes_xcrypt\<close> leave in the middle of a turn; \<open>i\<close> counts up by one
  from 0 and from 1, so \<open>\<le>\<close> in the exit tests decides as \<^verbatim>\<open>==\<close> does there.
\<close>

function aes_decrypt_rounds :: "nat \<Rightarrow> state_t \<Rightarrow> byte list \<Rightarrow> state_t" where
  "aes_decrypt_rounds i state rk =
     (let state = aes_shift_rows state True;
          state = aes_substitute_bytes state True;
          state = aes_add_round_key state (AES_ROUNDS - 1 - i) rk
      in if AES_ROUNDS - 1 \<le> i then state
         else aes_decrypt_rounds (i + 1) (aes_mix_columns state True) rk)"
  by pat_completeness auto
termination by (relation "measure (\<lambda>(i, _). AES_ROUNDS - i)") auto

function aes_encrypt_rounds :: "nat \<Rightarrow> state_t \<Rightarrow> byte list \<Rightarrow> state_t" where
  "aes_encrypt_rounds i state rk =
     (let state = aes_substitute_bytes state False;
          state = aes_shift_rows state False
      in if AES_ROUNDS \<le> i then state
         else aes_encrypt_rounds (i + 1)
                (aes_add_round_key (aes_mix_columns state False) i rk) rk)"
  by pat_completeness auto
termination by (relation "measure (\<lambda>(i, _). AES_ROUNDS - i)") auto

definition aes_xcrypt :: "state_t \<Rightarrow> byte list \<Rightarrow> bool \<Rightarrow> state_t" where
  "aes_xcrypt state rk decrypt =
     (if decrypt then aes_decrypt_rounds 0 (aes_add_round_key state AES_ROUNDS rk) rk
      else aes_add_round_key (aes_encrypt_rounds 1 (aes_add_round_key state 0 rk) rk)
             AES_ROUNDS rk)"

subsection \<open>Message authentication and chaining\<close>

function aes128_cmac_loop ::
  "byte list \<Rightarrow> byte list \<Rightarrow> byte list \<Rightarrow> byte list \<Rightarrow> byte list" where
  "aes128_cmac_loop rk L block msg =
     (if msg = [] then block
      else
        let n = length msg;
            L = (if n < AES_BLOCK_SIZE
                 then (let L = aes_generate_subkey L in L[n := L ! n XOR AES_KEY_BITS])
                 else L)
        in if n \<le> AES_BLOCK_SIZE
           then (let L = xor_bytes (take n L) msg @ drop n L
                 in aes_xcrypt (xor128 block L) rk False)
           else aes128_cmac_loop rk L (aes_xcrypt (xor128 block msg) rk False)
                  (drop AES_BLOCK_SIZE msg))"
  by pat_completeness auto
termination
  by (relation "measure (\<lambda>(_, _, _, msg). length msg)") auto

definition aes128_cmac :: "aes128_t \<Rightarrow> byte list \<Rightarrow> byte list" where
  "aes128_cmac ctx msg =
     (let L = replicate AES_BLOCK_SIZE 0;
          L = aes_xcrypt L (round_key ctx) False;
          L = aes_generate_subkey L;
          block = replicate AES_BLOCK_SIZE 0
      in if length msg = 0
         then (let L = aes_generate_subkey L;
                   L = L[0 := L ! 0 XOR AES_KEY_BITS]
               in aes_xcrypt (xor128 block L) (round_key ctx) False)
         else aes128_cmac_loop (round_key ctx) L block msg)"

definition aes128_init :: "byte list \<Rightarrow> byte list \<Rightarrow> aes128_t" where
  "aes128_init iv key = \<lparr>round_key = aes_key_expansion key, ctx_iv = take AES_BLOCK_SIZE iv\<rparr>"

definition aes128_init_cmac :: "byte list \<Rightarrow> aes128_t" where
  "aes128_init_cmac key =
     \<lparr>round_key = aes_key_expansion key, ctx_iv = replicate AES_BLOCK_SIZE 0\<rparr>"

text \<open>
  The loops advance \<^verbatim>\<open>i\<close> by 16 while it is below \<^verbatim>\<open>length\<close>; \<open>n\<close> is the distance left.
  \<^verbatim>\<open>i\<close> cannot wrap: the memory behind \<^verbatim>\<open>chunk\<close> ends first.
\<close>

fun aes128_encrypt_loop ::
  "byte list \<Rightarrow> byte list \<Rightarrow> byte list \<Rightarrow> nat \<Rightarrow> (byte list \<times> byte list) c_result" where
  "aes128_encrypt_loop rk iv chunk n =
     (if n = 0 then Inr (iv, chunk)
      else if length chunk < AES_BLOCK_SIZE then Inl OutOfBounds
      else
        let c = aes_xcrypt (xor128 chunk iv) rk False
        in c_bind (aes128_encrypt_loop rk c (drop AES_BLOCK_SIZE chunk) (n - AES_BLOCK_SIZE))
             (\<lambda>(iv', rest). Inr (iv', c @ rest)))"

definition aes128_encrypt ::
  "aes128_t \<Rightarrow> byte list \<Rightarrow> u64 \<Rightarrow> (aes128_t \<times> byte list) c_result" where
  "aes128_encrypt ctx chunk len =
     c_bind (aes128_encrypt_loop (round_key ctx) (ctx_iv ctx) chunk (unat len))
       (\<lambda>(iv, out). Inr (ctx\<lparr>ctx_iv := take AES_BLOCK_SIZE iv\<rparr>, out))"

fun aes128_decrypt_loop ::
  "byte list \<Rightarrow> byte list \<Rightarrow> byte list \<Rightarrow> nat \<Rightarrow> (byte list \<times> byte list) c_result" where
  "aes128_decrypt_loop rk iv chunk n =
     (if n = 0 then Inr (iv, chunk)
      else if length chunk < AES_BLOCK_SIZE then Inl OutOfBounds
      else
        let next_iv = take AES_BLOCK_SIZE chunk;
            p = xor128 (aes_xcrypt (take AES_BLOCK_SIZE chunk) rk True) iv
        in c_bind (aes128_decrypt_loop rk next_iv (drop AES_BLOCK_SIZE chunk) (n - AES_BLOCK_SIZE))
             (\<lambda>(iv', rest). Inr (iv', p @ rest)))"

definition aes128_decrypt ::
  "aes128_t \<Rightarrow> byte list \<Rightarrow> u64 \<Rightarrow> (aes128_t \<times> byte list) c_result" where
  "aes128_decrypt ctx chunk len =
     c_bind (aes128_decrypt_loop (round_key ctx) (ctx_iv ctx) chunk (unat len))
       (\<lambda>(iv, out). Inr (ctx\<lparr>ctx_iv := iv\<rparr>, out))"

subsection \<open>Reference definitions\<close>

text \<open>
  Multiplication by \<open>x\<close> in the field of FIPS 197, section 4.2.1; and the shape of
  one mixed column, section 5.1.3.
\<close>

definition xtime :: "byte \<Rightarrow> byte" where
  "xtime x = push_bit 1 x XOR (if bit x 7 then 0x1b else 0)"

definition is_block :: "byte list \<Rightarrow> bool" where
  "is_block b \<longleftrightarrow> length b = 16"

subsection \<open>Multiplication by \<open>x\<close>\<close>

lemma xtime_xor: "xtime (a XOR b) = xtime a XOR xtime b"
  unfolding xtime_def
  by (cases "bit a 7"; cases "bit b 7")
    (simp_all add: bit_simps push_bit_xor xor.assoc xor.left_commute xor.commute)

lemma mix_step_xtime: "push_bit 1 c XOR ((drop_bit 7 c AND 1) * 0x1b) = xtime (c::byte)"
proof -
  have "drop_bit 7 c AND 1 = of_bool (bit c 7)"
    by (rule bit_word_eqI) (auto simp: bit_simps bit_1_iff intro: gr0I)
  then show ?thesis by (simp add: xtime_def)
qed

lemma bit_shifted_byte:
  fixes x :: byte
  shows "bit (x * 2) 7 \<longleftrightarrow> bit x 6" "bit (4 * x) 7 \<longleftrightarrow> bit x 5"
  using bit_push_bit_iff[of 1 x 7] bit_push_bit_iff[of 2 x 7]
  by (simp_all add: push_bit_eq_mult mult.commute)

lemma xtime_shifted:
  "xtime (2 * x) = 4 * x XOR (if bit x 6 then 0x1b else 0)"
  "xtime (4 * x) = 8 * x XOR (if bit x 5 then 0x1b else 0)"
  using bit_shifted_byte[of x] by (simp_all add: xtime_def mult.commute[of x])

lemma xtime_const:
  "xtime (if c then 0x1b else 0) = (if c then 0x36 else 0)"
  "xtime (if c then 0x36 else 0) = (if c then 0x6c else 0)"
  by (simp_all add: xtime_def)

lemma xtime_once: "xtime x = 2 * x XOR (if bit x 7 then 0x1b else 0)"
  by (simp add: xtime_def mult.commute)

lemma xtime_twice:
  "xtime (xtime x) = 4 * x XOR (if bit x 6 then 0x1b else 0) XOR (if bit x 7 then 0x36 else 0)"
  by (subst xtime_once[of x]) (simp only: xtime_xor xtime_shifted xtime_const xor.assoc)

lemma xtime_thrice:
  "xtime (xtime (xtime x)) = 8 * x XOR (if bit x 5 then 0x1b else 0) XOR
     (if bit x 6 then 0x36 else 0) XOR (if bit x 7 then 0x6c else 0)"
  by (simp only: xtime_twice xtime_xor xtime_shifted xtime_const xor.assoc)

lemma gfmul_mask_bits:
  fixes k :: u16
  assumes "k < 8"
  shows "gfmul_mask ! unat k = (if bit k 0 then 0x1b else 0) XOR (if bit k 1 then 0x36 else 0) XOR
     (if bit k 2 then 0x6c else 0)"
proof -
  from assms have "unat k < 8" by unat_arith
  moreover have "k = word_of_nat (unat k)" by simp
  ultimately show ?thesis
    by (cases "unat k" rule: nat.exhaust) 
     (auto simp: less_Suc_eq numeral_eq_Suc gfmul_mask_def)
qed

lemma gfmul_reduce:
  fixes r :: u16
  assumes "drop_bit 8 r < 8"
  shows "ucast (r XOR ucast (gfmul_mask ! unat (drop_bit 8 r))) = 
    (ucast r :: byte) XOR (if bit r 8 then 0x1b else 0) XOR (if bit r 9 then 0x36 else 0) XOR
     (if bit r 10 then 0x6c else 0)"
  using gfmul_mask_bits[OF assms] by (simp add: bit_simps unsigned_xor_eq) 

lemma bit_shifted_ucast:
  fixes x :: byte
  shows "bit (ucast x * 2 ^ k :: u16) n \<longleftrightarrow> n < 16 \<and> k \<le> n \<and> bit x (n - k)"
  using bit_push_bit_iff[of k "ucast x :: u16" n]
  by (auto simp: push_bit_eq_mult bit_simps mult.commute)

lemma ucast_shifted_ucast: "ucast (ucast x * 2 ^ k :: u16) = x * 2 ^ k" for x :: byte
  using bit_push_bit_iff[of k x]
  by (intro bit_word_eqI) (auto simp: bit_ucast_iff bit_shifted_ucast push_bit_eq_mult)

lemma select_bit:
  fixes x y :: byte
  shows "ucast x * ucast (y AND 0x1) = (if bit y 0 then ucast x * 2 ^ 0 else 0 :: u16)"
    "ucast x * ucast (y AND 0x2) = (if bit y 1 then ucast x * 2 ^ 1 else 0 :: u16)"
    "ucast x * ucast (y AND 0x4) = (if bit y 2 then ucast x * 2 ^ 2 else 0 :: u16)"
    "ucast x * ucast (y AND 0x8) = (if bit y 3 then ucast x * 2 ^ 3 else 0 :: u16)"
proof -
  have *: "y AND 2 ^ k = (if bit y k then 2 ^ k else 0)" for k
    by (rule bit_word_eqI) (auto simp: bit_simps)
  show "ucast x * ucast (y AND 0x1) = (if bit y 0 then ucast x * 2 ^ 0 else 0 :: u16)"
    using *[of 0] by simp
  show "ucast x * ucast (y AND 0x2) = (if bit y 1 then ucast x * 2 ^ 1 else 0 :: u16)"
    using *[of 1] by simp
  show "ucast x * ucast (y AND 0x4) = (if bit y 2 then ucast x * 2 ^ 2 else 0 :: u16)"
    using *[of 2] by simp
  show "ucast x * ucast (y AND 0x8) = (if bit y 3 then ucast x * 2 ^ 3 else 0 :: u16)"
    using *[of 3] by simp
qed

lemma gfmul_eq_xtime:
  "gfmul x y = (if bit y 0 then x else 0) XOR (if bit y 1 then xtime x else 0) XOR
     (if bit y 2 then xtime (xtime x) else 0) XOR (if bit y 3 then xtime (xtime (xtime x)) else 0)"
proof -
  define t :: "nat \<Rightarrow> u16" where "t k = (if bit y k then ucast x * 2 ^ k else 0)" for k
  define r where "r = t 0 XOR t 1 XOR t 2 XOR t 3"
  have bit_t: "bit (t k) n \<longleftrightarrow> bit y k \<and> n < 16 \<and> k \<le> n \<and> bit x (n - k)" for k n
    using bit_shifted_ucast[of x k n] by (simp add: t_def)
  have bit_r: "bit r n \<longleftrightarrow> bit (t 0) n \<noteq> (bit (t 1) n \<noteq> (bit (t 2) n \<noteq> bit (t 3) n))" for n
    by (simp add: r_def bit_xor_iff)
  have "\<not> bit (t k) n" if "11 \<le> n" "k \<le> 3" for k n
    using that bit_imp_le_length[of x "n - k"] by (auto simp: bit_t)
  then have lt: "drop_bit 8 r < 8"
    using unat_less_pow2I[of 3 "drop_bit 8 r"] by (simp add: bit_drop_bit_eq bit_r word_less_nat_alt)
  have hi: "\<not> bit x 8" "\<not> bit x 9" "\<not> bit x 10" 
    using bit_imp_le_length[of x 8] bit_imp_le_length[of x 9] bit_imp_le_length[of x 10] by auto
  have "gfmul x y = ucast (r XOR ucast (gfmul_mask ! unat (drop_bit 8 r)))"
    by (simp only: gfmul_def Let_def select_bit r_def t_def xor.assoc)
  also have "\<dots> = (ucast r :: byte) XOR (if bit r 8 then 0x1b else 0) XOR
     (if bit r 9 then 0x36 else 0) XOR (if bit r 10 then 0x6c else 0)"
    by (rule gfmul_reduce[OF lt])
  also have "(ucast r :: byte) = (if bit y 0 then x else 0) XOR (if bit y 1 then 2 * x else 0) XOR
    (if bit y 2 then 4 * x else 0) XOR (if bit y 3 then 8 * x else 0)"
  proof -
    have "(ucast (t k) :: byte) = (if bit y k then x * 2 ^ k else 0)" for k
      by (simp only: t_def ucast_shifted_ucast unsigned_0 if_distrib[of ucast])
    then show ?thesis by (simp only: r_def unsigned_xor_eq) (simp add: mult.commute)
  qed
  finally show ?thesis 
    using hi
    by (cases "bit y 1"; cases "bit y 2"; cases "bit y 3")
      (simp_all only: xtime_thrice, simp_all only: xtime_twice, simp_all only: xtime_once bit_r bit_t if_xor,
        simp_all add: if_xor xor.assoc xor.commute xor.left_commute)
qed

lemma list16_cases:
  assumes "length xs = 16"
  obtains a0 a1 a2 a3 a4 a5 a6 a7 a8 a9 a10 a11 a12 a13 a14 a15
  where "xs = [a0, a1, a2, a3, a4, a5, a6, a7, a8, a9, a10, a11, a12, a13, a14, a15]"
proof -
  from assms have "xs = [xs!0, xs!1, xs!2, xs!3, xs!4, xs!5, xs!6, xs!7, xs!8, xs!9, xs!10, xs!11,
      xs!12, xs!13, xs!14, xs!15]"
    by (simp add: list_eq_iff_nth_eq less_Suc_eq numeral_eq_Suc)
  then show ?thesis by (rule that)
qed

lemma upt_4: "[0..<4] = [0, 1, 2, 3::nat]"
  by (simp add: upt_rec)

lemma aes_mix_column_step_eq:
  "aes_mix_column_step i s c0 j ctx =
     ctx[4 * i + j := ctx ! (4 * i + j) XOR
       (xtime (ctx ! (4 * i + j) XOR (if j = 3 then c0 else ctx ! (4 * i + (j + 1)))) XOR s)]"
  by (simp only: aes_mix_column_step_def Let_def mix_step_xtime)

lemma aes_mix_column_eq:
  assumes "length ctx = 16" "i < 4"
  shows "aes_mix_column i ctx =
    (let a = ctx ! (4 * i); b = ctx ! (4 * i + 1); c = ctx ! (4 * i + 2); d = ctx ! (4 * i + 3) in
     ctx[4 * i := xtime (a XOR b) XOR b XOR c XOR d, 4 * i + 1 := xtime (b XOR c) XOR a XOR c XOR d,
         4 * i + 2 := xtime (c XOR d) XOR a XOR b XOR d, 4 * i + 3 := xtime (d XOR a) XOR a XOR b XOR c])"
  using assms
  by (simp add: aes_mix_column_def upt_4 aes_mix_column_step_eq Let_def
      xor.assoc xor.commute xor.left_commute)

lemma mix_column_inverse:
  fixes a b c d :: byte
  defines "a' \<equiv> xtime (a XOR b) XOR b XOR c XOR d" and "b' \<equiv> xtime (b XOR c) XOR a XOR c XOR d"
    and "c' \<equiv> xtime (c XOR d) XOR a XOR b XOR d" and "d' \<equiv> xtime (d XOR a) XOR a XOR b XOR c"
  shows "gfmul a' 0xe XOR gfmul b' 0xb XOR gfmul c' 0xd XOR gfmul d' 0x9 = a"
    "gfmul a' 0x9 XOR gfmul b' 0xe XOR gfmul c' 0xb XOR gfmul d' 0xd = b"
    "gfmul a' 0xd XOR gfmul b' 0x9 XOR gfmul c' 0xe XOR gfmul d' 0xb = c"
    "gfmul a' 0xb XOR gfmul b' 0xd XOR gfmul c' 0x9 XOR gfmul d' 0xe = d"
  unfolding assms
  by (simp_all add: gfmul_eq_xtime xtime_xor xor.assoc xor.commute xor.left_commute)

lemma aes_mix_columns_inverse:
  assumes "length ctx = 16"
  shows "aes_mix_columns (aes_mix_columns ctx False) True = ctx"
proof -
  from assms obtain a0 a1 a2 a3 a4 a5 a6 a7 a8 a9 a10 a11 a12 a13 a14 a15
    where "ctx = [a0, a1, a2, a3, a4, a5, a6, a7, a8, a9, a10, a11, a12, a13, a14, a15]"
    by (rule list16_cases)
  then show ?thesis
    by (simp add: aes_mix_columns_def upt_4 aes_mix_column_eq aes_mix_column_inv_def Let_def mix_column_inverse)
qed
lemma aes_shift_rows_inverse:
  assumes "length ctx = 16"
  shows "aes_shift_rows (aes_shift_rows ctx False) True = ctx" "aes_shift_rows (aes_shift_rows ctx True) False = ctx"
proof -
  from assms obtain a0 a1 a2 a3 a4 a5 a6 a7 a8 a9 a10 a11 a12 a13 a14 a15
    where "ctx = [a0, a1, a2, a3, a4, a5, a6, a7, a8, a9, a10, a11, a12, a13, a14, a15]"
    by (rule list16_cases)
  then show "aes_shift_rows (aes_shift_rows ctx False) True = ctx" "aes_shift_rows (aes_shift_rows ctx True) False = ctx"
    by (simp_all add: aes_shift_rows_def Let_def)
qed
subsection \<open>Substitution\<close>

lemma rsbox_sbox: "rsbox ! unat (sbox ! unat x) = x"
  by (rule byte_cases[of "\<lambda>x. rsbox ! unat (sbox ! unat x) = x"])
    (simp add: rsbox_def sbox_def upt_rec)

subsection \<open>The inverse cipher\<close>

lemma length_round_functions [simp]:
  "length (aes_add_round_key ctx n rk) = 16"
  "length (aes_substitute_bytes ctx invert) = 16"
  "length (aes_shift_rows ctx invert) = length ctx"
  "length (aes_mix_columns ctx invert) = length ctx"
proof -
  have step: "length (aes_mix_column_step i s c j xs) = length xs" for i s c j xs
    by (simp add: aes_mix_column_step_def Let_def)
  have "length (aes_mix_column i xs) = length xs" for i xs
    by (simp add: aes_mix_column_def Let_def upt_4 step)
  moreover have "length (aes_mix_column_inv i xs) = length xs" for i xs
    by (simp add: aes_mix_column_inv_def Let_def)
  ultimately show "length (aes_mix_columns ctx invert) = length ctx"
    by (simp add: aes_mix_columns_def upt_4)
qed (simp_all add: aes_add_round_key_def aes_substitute_bytes_def aes_shift_rows_def Let_def)

lemma aes_add_round_key_inverse:
  "length ctx = 16 \<Longrightarrow> aes_add_round_key (aes_add_round_key ctx n rk) n rk = ctx"
  by (rule nth_equalityI) (simp_all add: aes_add_round_key_def)

lemma aes_substitute_bytes_inverse:
  "length ctx = 16 \<Longrightarrow> aes_substitute_bytes (aes_substitute_bytes ctx False) True = ctx"
  by (rule nth_equalityI) (simp_all add: aes_substitute_bytes_def sbox_lookup_def rsbox_sbox)

declare aes_decrypt_rounds.simps [simp del] aes_encrypt_rounds.simps [simp del]

text \<open>Turn \<open>k\<close> of the inverse cipher undoes turn \<open>10 - k\<close> of the cipher.\<close>

lemma aes_decrypt_rounds_step:
  assumes "length s = 16" "k < 9"
  shows "aes_decrypt_rounds k (aes_shift_rows (aes_substitute_bytes
           (aes_add_round_key (aes_mix_columns s False) (9 - k) rk) False) False) rk =
         aes_decrypt_rounds (k + 1) s rk"
  using assms
  by (subst aes_decrypt_rounds.simps)
    (simp add: Let_def aes_shift_rows_inverse aes_substitute_bytes_inverse
      aes_add_round_key_inverse aes_mix_columns_inverse)

lemma aes_rounds_inverse:
  assumes "length s = 16" "i \<le> 10" "1 \<le> i"
  shows "aes_decrypt_rounds 0 (aes_encrypt_rounds i s rk) rk =
    aes_decrypt_rounds (10 - i) (aes_shift_rows (aes_substitute_bytes s False) False) rk"
  using assms
proof (induction "10 - i" arbitrary: i s)
  case 0
  then have "i = 10" by simp
  then show ?case by (simp add: aes_encrypt_rounds.simps[of 10])
next
  case (Suc m)
  then have "i < 10" and ten: "10 - i = Suc (9 - i)" by simp_all
  let ?s = "aes_add_round_key (aes_mix_columns (aes_shift_rows (aes_substitute_bytes s False) False) False) i rk"
  have "aes_decrypt_rounds 0 (aes_encrypt_rounds i s rk) rk = aes_decrypt_rounds 0 (aes_encrypt_rounds (i + 1) ?s rk) rk"
    using \<open>i < 10\<close> by (subst aes_encrypt_rounds.simps) (simp add: Let_def)
  also have "\<dots> = aes_decrypt_rounds (10 - (i + 1)) (aes_shift_rows (aes_substitute_bytes ?s False) False) rk"
    using Suc.hyps(2) Suc.prems by (intro Suc.hyps(1)) auto
  also have "\<dots> = aes_decrypt_rounds (10 - i) (aes_shift_rows (aes_substitute_bytes s False) False) rk"
    using aes_decrypt_rounds_step[of "aes_shift_rows (aes_substitute_bytes s False) False" "10 - (i + 1)" rk]
      \<open>i < 10\<close> Suc.prems ten by simp
  finally show ?case .
qed

lemma length_aes_encrypt_rounds [simp]:
  "length s = 16 \<Longrightarrow> length (aes_encrypt_rounds i s rk) = 16"
proof (induction i s rk rule: aes_encrypt_rounds.induct)
  case (1 i s rk)
  then show ?case by (subst aes_encrypt_rounds.simps) (simp add: Let_def)
qed

lemma length_aes_decrypt_rounds [simp]:
  "length s = 16 \<Longrightarrow> length (aes_decrypt_rounds i s rk) = 16"
proof (induction i s rk rule: aes_decrypt_rounds.induct)
  case (1 i s rk)
  then show ?case by (subst aes_decrypt_rounds.simps) (simp add: Let_def)
qed

lemma length_aes_xcrypt [simp]: "length (aes_xcrypt b rk d) = 16"
  by (simp add: aes_xcrypt_def)

lemma aes_xcrypt_inverse:
  assumes "length b = 16"
  shows "aes_xcrypt (aes_xcrypt b rk False) rk True = b"
proof -
  let ?s = "aes_add_round_key b 0 rk"
  have "aes_xcrypt (aes_xcrypt b rk False) rk True =
      aes_decrypt_rounds 0 (aes_encrypt_rounds 1 ?s rk) rk"
    by (simp add: aes_xcrypt_def aes_add_round_key_inverse)
  also have "\<dots> = aes_decrypt_rounds 9 (aes_shift_rows (aes_substitute_bytes ?s False) False) rk"
    using aes_rounds_inverse[of ?s 1 rk] by simp
  also have "\<dots> = b"
    using assms by (subst aes_decrypt_rounds.simps)
      (simp add: Let_def aes_shift_rows_inverse aes_substitute_bytes_inverse
        aes_add_round_key_inverse)
  finally show ?thesis .
qed

locale block_cipher =
  fixes E D :: "byte list \<Rightarrow> byte list"
  assumes E_block: "is_block b \<Longrightarrow> is_block (E b)"
    and D_block: "is_block b \<Longrightarrow> is_block (D b)"
    and D_E: "is_block b \<Longrightarrow> D (E b) = b"
begin

lemma xor_block: "is_block a \<Longrightarrow> is_block b \<Longrightarrow> is_block (xor_bytes a b)"
  by (simp add: is_block_def)

lemma E_inject: "is_block a \<Longrightarrow> is_block b \<Longrightarrow> E a = E b \<longleftrightarrow> a = b"
  by (metis D_E)

text \<open>An injective map of the finite set of blocks into itself is onto it.\<close>

lemma E_D: "is_block b \<Longrightarrow> E (D b) = b"
proof -
  have "finite {xs :: byte list. is_block xs}"
    unfolding is_block_def using finite_lists_length_eq[OF finite, of "UNIV :: byte set" 16] by simp
  moreover have "inj_on E {xs. is_block xs}" by (rule inj_onI) (simp add: E_inject)
  ultimately have "E ` {xs. is_block xs} = {xs. is_block xs}"
    by (intro endo_inj_surj) (auto intro: E_block)
  then show "E (D b) = b" if "is_block b"
    using that D_E by (metis (mono_tags, lifting) imageE mem_Collect_eq)
qed

end

interpretation aes: block_cipher "\<lambda>b. aes_xcrypt b rk False" "\<lambda>b. aes_xcrypt b rk True" for rk
  by unfold_locales (simp_all add: is_block_def aes_xcrypt_inverse)

lemma length_aes_key_expansion:
  assumes "16 \<le> length key"
  shows "length (aes_key_expansion key) = 176"
proof -
  have "length (fold aes_expand_word [4..<n] rk) = length rk + 4 * (n - 4)" for n rk
    by (induction n) (auto simp: aes_expand_word_def Let_def)
  from this[of 44] assms show ?thesis by (simp add: aes_key_expansion_def)
qed

subsection \<open>Properties\<close>

text \<open>
  \<^verbatim>\<open>gfmul\<close>, with its table of precomputed reductions, is multiplication in
  the field of FIPS 197 for every multiplier below 16 (its low four bits).
\<close>

lemma gfmul_field_product:
  "gfmul x y =
     (if bit y 0 then x else 0) XOR (if bit y 1 then xtime x else 0) XOR
     (if bit y 2 then xtime (xtime x) else 0) XOR
     (if bit y 3 then xtime (xtime (xtime x)) else 0)"
  by (rule gfmul_eq_xtime)

text \<open>
  C19: for every key schedule, the decrypting and the encrypting direction of
  \<^verbatim>\<open>aes_xcrypt\<close> invert each other on every 16-byte block: the cipher is a
  permutation of the blocks.
\<close>

theorem aes_xcrypt_permutation:
  assumes "length b = 16"
  shows "aes_xcrypt (aes_xcrypt b rk False) rk True = b \<and>
         aes_xcrypt (aes_xcrypt b rk True) rk False = b"
  using assms aes.D_E[of b rk] aes.E_D[of b rk] by (simp add: is_block_def)

theorem aes_xcrypt_permutation_witness:
  "length (replicate 16 (0xa5 :: byte)) = 16 \<and>
   aes_xcrypt (aes_xcrypt (replicate 16 0xa5) (replicate 176 7) True) (replicate 176 7) False =
     replicate 16 0xa5"
  using aes_xcrypt_permutation[of "replicate 16 0xa5" "replicate 176 7"] by simp

text \<open>
  The example of FIPS 197, appendix B: \<^verbatim>\<open>aes_key_expansion\<close> and the
  encrypting direction of \<^verbatim>\<open>aes_xcrypt\<close> compute the published ciphertext.
\<close>

lemma aes_fips197_appendix_B:
  "aes_xcrypt
     [0x32, 0x43, 0xf6, 0xa8, 0x88, 0x5a, 0x30, 0x8d, 0x31, 0x31, 0x98, 0xa2, 0xe0, 0x37, 0x07, 0x34]
     (aes_key_expansion
       [0x2b, 0x7e, 0x15, 0x16, 0x28, 0xae, 0xd2, 0xa6, 0xab, 0xf7, 0x15, 0x88, 0x09, 0xcf, 0x4f, 0x3c])
     False =
   [0x39, 0x25, 0x84, 0x1d, 0x02, 0xdc, 0x09, 0xfb, 0xdc, 0x11, 0x85, 0x97, 0x19, 0x6a, 0x0b, 0x32]"
  by code_simp

end
