(* ===== verification/Aes_Modes.thy ===== *)
theory Aes_Modes
  imports Aes128
begin

text \<open>
  The two uses of the cipher in \<^verbatim>\<open>crypto/aes128.c\<close> against their standards:
  \<^verbatim>\<open>aes128_encrypt\<close> and \<^verbatim>\<open>aes128_decrypt\<close> are cipher block chaining
  (\<open>cbc_encrypt\<close>, \<open>cbc_decrypt\<close> over the list of blocks), and \<^verbatim>\<open>aes128_cmac\<close>
  is AES-CMAC as RFC 4493 states it (\<open>rfc4493_cmac\<close>, with its subkeys computed
  on 128-bit words).
\<close>

subsection \<open>Reference definitions\<close>

fun cbc_encrypt :: "(byte list \<Rightarrow> byte list) \<Rightarrow> byte list \<Rightarrow> byte list list \<Rightarrow> byte list list" where
  "cbc_encrypt E iv [] = []"
| "cbc_encrypt E iv (p # ps) = (let c = E (xor_bytes p iv) in c # cbc_encrypt E c ps)"

fun cbc_decrypt :: "(byte list \<Rightarrow> byte list) \<Rightarrow> byte list \<Rightarrow> byte list list \<Rightarrow> byte list list" where
  "cbc_decrypt D iv [] = []"
| "cbc_decrypt D iv (c # cs) = xor_bytes (D c) iv # cbc_decrypt D c cs"

fun block_list :: "nat \<Rightarrow> byte list \<Rightarrow> byte list list" where
  "block_list 0 chunk = []"
| "block_list (Suc k) chunk = take 16 chunk # block_list k (drop 16 chunk)"

text \<open>The number of blocks the loops visit for a length in bytes.\<close>

definition blocks_for :: "u64 \<Rightarrow> nat" where
  "blocks_for len = (unat len + 15) div 16"

definition be128 :: "byte list \<Rightarrow> 128 word" where
  "be128 bs = le_pack (rev bs)"

definition be128_bytes :: "128 word \<Rightarrow> byte list" where
  "be128_bytes w = rev (le_unpack 16 w)"

definition gf128_double :: "128 word \<Rightarrow> 128 word" where
  "gf128_double w = (if bit w 127 then push_bit 1 w XOR 0x87 else push_bit 1 w)"

definition rfc4493_double :: "byte list \<Rightarrow> byte list" where
  "rfc4493_double k = be128_bytes (gf128_double (be128 k))"

fun rfc4493_blocks :: "byte list \<Rightarrow> byte list list" where
  "rfc4493_blocks M = (if length M \<le> 16 then [M] else take 16 M # rfc4493_blocks (drop 16 M))"

definition rfc4493_last :: "byte list \<Rightarrow> byte list \<Rightarrow> byte list \<Rightarrow> byte list" where
  "rfc4493_last K1 K2 M =
     (if length M = 16 then xor_bytes M K1
      else xor_bytes (M @ 0x80 # replicate (15 - length M) 0) K2)"

definition rfc4493_cmac :: "(byte list \<Rightarrow> byte list) \<Rightarrow> byte list \<Rightarrow> byte list" where
  "rfc4493_cmac E M =
     (let K1 = rfc4493_double (E (replicate 16 0));
          K2 = rfc4493_double K1;
          Ms = rfc4493_blocks M;
          X = foldl (\<lambda>X B. E (xor_bytes X B)) (replicate 16 0) (butlast Ms)
      in E (xor_bytes X (rfc4493_last K1 K2 (last Ms))))"

subsection \<open>Cipher block chaining\<close>

context block_cipher
begin

lemma cbc_blocks: "is_block iv \<Longrightarrow> list_all is_block ps \<Longrightarrow> list_all is_block (cbc_encrypt E iv ps)"
  by (induction ps arbitrary: iv) (simp_all add: Let_def E_block xor_block)

lemma length_cbc_encrypt: "length (cbc_encrypt E iv ps) = length ps"
  by (induction ps arbitrary: iv) (simp_all add: Let_def)

lemma cbc_round_trip:
  "is_block iv \<Longrightarrow> list_all is_block ps \<Longrightarrow> cbc_decrypt D iv (cbc_encrypt E iv ps) = ps"
  by (induction ps arbitrary: iv)
    (simp_all add: Let_def D_E E_block xor_block, simp add: is_block_def)

lemma cbc_encrypt_inject:
  "is_block iv \<Longrightarrow> list_all is_block ps \<Longrightarrow> list_all is_block qs \<Longrightarrow>
     cbc_encrypt E iv ps = cbc_encrypt E iv qs \<longleftrightarrow> ps = qs"
  by (metis cbc_round_trip)

end

lemma block_list_blocks: "16 * k \<le> length chunk \<Longrightarrow> list_all is_block (block_list k chunk)"
  by (induction k chunk rule: block_list.induct) (simp_all add: is_block_def)

lemma length_block_list [simp]: "length (block_list k chunk) = k"
  by (induction k chunk rule: block_list.induct) simp_all

lemma concat_block_list: "16 * k \<le> length chunk \<Longrightarrow> concat (block_list k chunk) = take (16 * k) chunk"
  by (induction k chunk rule: block_list.induct) (simp_all add: take_add)

lemma block_list_concat:
  "list_all is_block cs \<Longrightarrow> block_list (length cs) (concat cs @ rest) = cs"
  by (induction cs) (simp_all add: is_block_def)

lemma length_concat_blocks: "list_all is_block cs \<Longrightarrow> length (concat cs) = 16 * length cs"
  by (induction cs) (simp_all add: is_block_def)

lemma xor128_block [simp]: "is_block b \<Longrightarrow> xor128 chunk b = xor_bytes (take 16 chunk) b"
  by (simp add: xor128_def is_block_def)

declare aes128_encrypt_loop.simps [simp del] aes128_decrypt_loop.simps [simp del]

lemma aes128_encrypt_loop_cbc:
  assumes "is_block iv" "16 * k \<le> length chunk" "n \<le> 16 * k" "16 * k < n + 16"
  shows "aes128_encrypt_loop rk iv chunk n =
    (let cs = cbc_encrypt (\<lambda>b. aes_xcrypt b rk False) iv (block_list k chunk)
     in Inr (last (iv # cs), concat cs @ drop (16 * k) chunk))"
  using assms
proof (induction k arbitrary: iv chunk n)
  case 0
  then show ?case by (simp add: aes128_encrypt_loop.simps)
next
  case (Suc k)
  let ?c = "aes_xcrypt (xor_bytes (take 16 chunk) iv) rk False"
  have "is_block (take 16 chunk)" using Suc.prems by (simp add: is_block_def)
  then have c: "is_block ?c" using Suc.prems(1) by (intro aes.E_block aes.xor_block)
  have "aes128_encrypt_loop rk ?c (drop 16 chunk) (n - 16) =
    (let cs = cbc_encrypt (\<lambda>b. aes_xcrypt b rk False) ?c (block_list k (drop 16 chunk))
     in Inr (last (?c # cs), concat cs @ drop (16 * k) (drop 16 chunk)))"
    using Suc.prems c by (intro Suc.IH) auto
  then show ?case
    using Suc.prems by (subst aes128_encrypt_loop.simps) (simp add: Let_def add.commute)
qed

lemma aes128_decrypt_loop_cbc:
  assumes "is_block iv" "16 * k \<le> length chunk" "n \<le> 16 * k" "16 * k < n + 16"
  shows "aes128_decrypt_loop rk iv chunk n =
    (let cs = block_list k chunk
     in Inr (last (iv # cs), concat (cbc_decrypt (\<lambda>b. aes_xcrypt b rk True) iv cs) @ drop (16 * k) chunk))"
  using assms
proof (induction k arbitrary: iv chunk n)
  case 0
  then show ?case by (simp add: aes128_decrypt_loop.simps)
next
  case (Suc k)
  have c: "is_block (take 16 chunk)" using Suc.prems by (simp add: is_block_def)
  have x: "xor128 (aes_xcrypt (take 16 chunk) rk True) iv = xor_bytes (aes_xcrypt (take 16 chunk) rk True) iv"
    using aes.D_block[OF c] Suc.prems(1) by (simp add: is_block_def)
  have "aes128_decrypt_loop rk (take 16 chunk) (drop 16 chunk) (n - 16) =
    (let cs = block_list k (drop 16 chunk)
     in Inr (last (take 16 chunk # cs), concat (cbc_decrypt (\<lambda>b. aes_xcrypt b rk True) (take 16 chunk) cs) @ drop (16 * k) (drop 16 chunk)))"
    using Suc.prems c by (intro Suc.IH) auto
  then show ?case
    using Suc.prems x by (subst aes128_decrypt_loop.simps) (simp add: Let_def add.commute)
qed

lemma blocks_for_bounds: "unat len \<le> 16 * blocks_for len" "16 * blocks_for len < unat len + 16"
  by (simp_all add: blocks_for_def)

lemma aes128_decrypt_encrypt:
  assumes "length (ctx_iv ctx) = 16" "16 * blocks_for len \<le> length chunk"
  shows "\<exists>ctx' out. aes128_encrypt ctx chunk len = Inr (ctx', out) \<and>
     aes128_decrypt ctx out len = Inr (ctx', chunk) \<and> length out = length chunk \<and>
     drop (16 * blocks_for len) out = drop (16 * blocks_for len) chunk \<and>
     length (ctx_iv ctx') = 16 \<and> round_key ctx' = round_key ctx"
proof -
  let ?k = "blocks_for len"
  define cs where "cs = cbc_encrypt (\<lambda>b. aes_xcrypt b (round_key ctx) False) (ctx_iv ctx) (block_list ?k chunk)"
  define out where "out = concat cs @ drop (16 * ?k) chunk"
  have iv: "is_block (ctx_iv ctx)" using assms by (simp add: is_block_def)
  have cs: "list_all is_block cs" "length cs = ?k"
    using iv block_list_blocks[OF assms(2)] by (simp_all add: cs_def aes.cbc_blocks aes.length_cbc_encrypt)
  then have bl: "block_list ?k out = cs" unfolding out_def by (metis block_list_concat)
  have len: "length (concat cs) = 16 * ?k" using cs by (simp add: length_concat_blocks)
  have last: "length (last (ctx_iv ctx # cs)) = 16"
    using iv cs(1) by (auto simp: is_block_def list_all_iff)
  have enc: "aes128_encrypt ctx chunk len = Inr (ctx\<lparr>ctx_iv := last (ctx_iv ctx # cs)\<rparr>, out)"
    using last unfolding aes128_encrypt_def
    by (subst aes128_encrypt_loop_cbc[OF iv assms(2) blocks_for_bounds]) (simp add: Let_def cs_def out_def)
  have "aes128_decrypt ctx out len = Inr (ctx\<lparr>ctx_iv := last (ctx_iv ctx # cs)\<rparr>, chunk)"
  proof -
    have "cbc_decrypt (\<lambda>b. aes_xcrypt b (round_key ctx) True) (ctx_iv ctx) cs = block_list ?k chunk"
      using iv block_list_blocks[OF assms(2)] by (simp add: cs_def aes.cbc_round_trip)
    moreover have "16 * ?k \<le> length out" by (simp add: out_def len)
    ultimately show ?thesis
      unfolding aes128_decrypt_def
      by (subst aes128_decrypt_loop_cbc[OF iv _ blocks_for_bounds])
        (simp_all add: Let_def bl concat_block_list[OF assms(2)], simp add: out_def len)
  qed
  with enc last show ?thesis
    using len assms(2) by (auto simp: out_def)
qed

subsection \<open>Message authentication\<close>

declare rfc4493_blocks.simps [simp del] aes128_cmac_loop.simps [simp del]

lemma length_aes_generate_subkey [simp]: "length (aes_generate_subkey k) = 16"
  by (simp add: aes_generate_subkey_def Let_def)

lemma bit_be128:
  "length k = 16 \<Longrightarrow> bit (be128 k) n \<longleftrightarrow> n < 128 \<and> bit (k ! (15 - n div 8)) (n mod 8)"
  by (auto simp: be128_def bit_le_pack rev_nth less_mult_imp_div_less)

lemma be128_inverse: "length k = 16 \<Longrightarrow> be128_bytes (be128 k) = k"
  using le_unpack_pack[of "rev k", where 'a = 128] by (simp add: be128_def be128_bytes_def)

lemma nth_subkey:
  assumes "i < 16"
  shows "aes_generate_subkey k ! i =
    (push_bit 1 (k ! i) OR (if i < 15 then drop_bit 7 (k ! (i + 1)) else 0)) XOR
    (if i = 15 \<and> bit (k ! 0) 7 then 0x87 else 0)"
proof -
  have msb: "k ! 0 AND 0x80 \<noteq> 0 \<longleftrightarrow> bit (k ! 0) 7" 
    using and_exp_eq_0_iff_not_bit[of "k ! 0" 7] by simp
  show ?thesis
    using assms by (auto simp: aes_generate_subkey_def Let_def msb nth_append nth_list_update less_Suc_eq numeral_eq_Suc)
qed

lemma bit_be128_at:
  assumes "length k = 16" "q < 16" "r < 8"
  shows "bit (be128 k) (8 * q + r) \<longleftrightarrow> bit (k ! (15 - q)) r"
  using assms by (simp add: bit_be128)

lemma bit_shifted_be128_at:
  assumes "length k = 16" "q < 16" "r < 8"
  shows "bit (push_bit 1 (be128 k)) (8 * q + r) \<longleftrightarrow>
    bit (push_bit 1 (k ! (15 - q)) OR (if 0 < q then drop_bit 7 (k ! (16 - q)) else 0)) r"
proof (cases r)
  case 0
  show ?thesis
  proof (cases q)
    case 0
    with \<open>r = 0\<close> show ?thesis by (simp only: bit_push_bit_1 bit_or_iff) simp
  next
    case (Suc p)
    then have eq: "8 * q + r - 1 = 8 * p + 7" "16 - q = 15 - p" and lt: "8 * q + r < 128" "0 < 8 * q + r"
      using \<open>r = 0\<close> assms(2) by linarith+
    have "bit (push_bit 1 (be128 k)) (8 * q + r) \<longleftrightarrow> bit (be128 k) (8 * q + r - 1)"
      using lt by (simp only: bit_push_bit_1) simp
    also have "\<dots> \<longleftrightarrow> bit (k ! (15 - p)) 7"
      unfolding eq using Suc assms(2) by (intro bit_be128_at[OF assms(1)]) auto
    finally have "bit (push_bit 1 (be128 k)) (8 * q + r) \<longleftrightarrow> bit (k ! (15 - p)) 7" .
    moreover have "0 < q" using Suc by simp
    ultimately show ?thesis
      using \<open>r = 0\<close> by (simp only: bit_push_bit_1 bit_or_iff bit_drop_bit_eq eq if_True) simp
  qed
next
  case (Suc t)
  then have "8 * q + r - 1 = 8 * q + t" by simp
  moreover have "\<not> bit (drop_bit 7 b) r" for b :: byte
    using Suc bit_imp_le_length[of b "7 + r"] by (auto simp: bit_drop_bit_eq)
  ultimately show ?thesis using assms Suc bit_be128_at[OF assms(1), of q t]
    by (simp only: bit_push_bit_1 bit_or_iff) simp
qed

lemma bit_0x87_at:
  assumes "q < 16" "r < 8"
  shows "bit (0x87 :: 128 word) (8 * q + r) \<longleftrightarrow> q = 0 \<and> bit (0x87 :: byte) r"
proof -
  have "bit (ucast (0x87 :: byte) :: 128 word) (8 * q + r) \<longleftrightarrow> bit (0x87 :: byte) (8 * q + r)"
    using assms by (simp only: bit_ucast_iff) simp
  moreover have "q = 0" if "bit (0x87 :: byte) (8 * q + r)"
    using bit_imp_le_length[OF that] by simp
  ultimately show ?thesis by (cases "q = 0") auto
qed

lemma be128_subkey:
  assumes "length k = 16"
  shows "be128 (aes_generate_subkey k) = gf128_double (be128 k)"
proof (rule bit_word_eqI)
  fix n assume "n < LENGTH(128)"
  then obtain q r where n: "n = 8 * q + r" and q: "q < 16" and r: "r < 8"
    using that[of "n div 8" "n mod 8"] by simp
  have top: "bit (be128 k) 127 \<longleftrightarrow> bit (k ! 0) 7"
    using bit_be128_at[OF assms, of 15 7] by simp
  have idx: "15 - q = 15 \<longleftrightarrow> q = 0" "15 - q < 15 \<longleftrightarrow> 0 < q" "0 < q \<Longrightarrow> Suc (15 - q) = 16 - q"
    using q by auto
  have "bit (be128 (aes_generate_subkey k)) n \<longleftrightarrow> bit (aes_generate_subkey k ! (15 - q)) r"
    using bit_be128_at[of "aes_generate_subkey k" q r] q r n by simp
  also have "\<dots> \<longleftrightarrow> bit (gf128_double (be128 k)) n"
    using q r assms bit_shifted_be128_at[OF assms q r] bit_0x87_at[OF q r]
    by (subst nth_subkey) (auto simp: gf128_double_def n top idx bit_xor_iff simp del: push_bit_Suc)
  finally show "bit (be128 (aes_generate_subkey k)) n \<longleftrightarrow> bit (gf128_double (be128 k)) n" .
qed

lemma aes_generate_subkey_rfc4493:
  "length k = 16 \<Longrightarrow> aes_generate_subkey k = rfc4493_double k"
  by (simp add: rfc4493_double_def flip: be128_subkey) (simp add: be128_inverse)

lemma cmac_pad:
  assumes "length K = 16" "length msg < 16"
  shows "xor_bytes (take (length msg) K) msg @ drop (length msg) (K[length msg := K ! length msg XOR 0x80]) =
     xor_bytes (msg @ 0x80 # replicate (15 - length msg) 0) K"
proof (rule nth_equalityI)
  fix i assume "i < length (xor_bytes (take (length msg) K) msg @
      drop (length msg) (K[length msg := K ! length msg XOR 0x80]))"
  then have "i < 16" using assms by simp
  then show "(xor_bytes (take (length msg) K) msg @
      drop (length msg) (K[length msg := K ! length msg XOR 0x80])) ! i =
    xor_bytes (msg @ 0x80 # replicate (15 - length msg) 0) K ! i"
    using assms
    by (cases "i < length msg"; cases "i = length msg") (auto simp: nth_append nth_list_update nth_Cons' xor.commute)
qed (use assms in simp)

lemma aes128_cmac_loop_rfc4493:
  assumes "length L = 16" "length block = 16" "msg \<noteq> []"
  shows "aes128_cmac_loop rk L block msg =
    (let E = (\<lambda>b. aes_xcrypt b rk False); Ms = rfc4493_blocks msg;
         X = foldl (\<lambda>X B. E (xor_bytes X B)) block (butlast Ms)
     in E (xor_bytes X (rfc4493_last L (rfc4493_double L) (last Ms))))"
  using assms(2,3)
proof (induction "length msg" arbitrary: block msg rule: less_induct)
  case less
  show ?case
  proof (cases "length msg \<le> 16")
    case True
    then have blocks: "rfc4493_blocks msg = [msg]" by (subst rfc4493_blocks.simps) simp
    let ?K = "rfc4493_double L"
    have K: "length ?K = 16" using assms by (simp flip: aes_generate_subkey_rfc4493)
    show ?thesis
    proof (cases "length msg = 16")
      case True
      then have "xor_bytes (take 16 L) msg @ drop 16 L = xor_bytes msg L"
        using assms(1) by (simp add: xor_bytes_commute)
      with True show ?thesis using assms less.prems
        by (subst aes128_cmac_loop.simps) (simp add: blocks rfc4493_last_def Let_def xor128_def)
    next
      case False
      with True have "length msg < 16" by simp
      from cmac_pad[OF K this] this show ?thesis using assms less.prems K
        by (subst aes128_cmac_loop.simps)
          (simp add: blocks rfc4493_last_def Let_def xor128_def aes_generate_subkey_rfc4493)
    qed
  next
    case False
    then have "aes128_cmac_loop rk L block msg =
      aes128_cmac_loop rk L (aes_xcrypt (xor_bytes block (take 16 msg)) rk False) (drop 16 msg)"
      using less.prems by (subst aes128_cmac_loop.simps) (simp add: Let_def xor128_def)
    moreover have "rfc4493_blocks msg = take 16 msg # rfc4493_blocks (drop 16 msg)" 
      using False by (subst rfc4493_blocks.simps) simp
    moreover have "rfc4493_blocks (drop 16 msg) \<noteq> []" by (subst rfc4493_blocks.simps) simp
    ultimately show ?thesis using less.hyps[of "drop 16 msg" "aes_xcrypt (xor_bytes block (take 16 msg)) rk False"] less.prems False
      by (simp add: Let_def)
  qed
qed

lemma aes128_cmac_rfc4493:
  "aes128_cmac ctx msg = rfc4493_cmac (\<lambda>b. aes_xcrypt b (round_key ctx) False) msg"
proof (cases "msg = []")
  case True
  let ?K = "rfc4493_double (rfc4493_double (aes_xcrypt (replicate 16 0) (round_key ctx) False))"
  have "length ?K = 16" by (simp flip: aes_generate_subkey_rfc4493)
  from cmac_pad[OF this, of "[]"] True show ?thesis
    by (simp add: aes128_cmac_def rfc4493_cmac_def Let_def rfc4493_blocks.simps rfc4493_last_def
        xor128_def flip: aes_generate_subkey_rfc4493)
next
  case False
  then show ?thesis
    by (simp add: aes128_cmac_def rfc4493_cmac_def Let_def aes128_cmac_loop_rfc4493 
       flip: aes_generate_subkey_rfc4493)
qed
subsection \<open>Bounds of the chaining loops\<close>

lemma aes128_encrypt_loop_short:
  "length chunk < 16 * ((n + 15) div 16) \<Longrightarrow> aes128_encrypt_loop rk iv chunk n = Inl OutOfBounds"
proof (induction rk iv chunk n rule: aes128_encrypt_loop.induct)
  case (1 rk iv chunk n)
  show ?case
  proof (cases "n = 0 \<or> length chunk < 16")
    case True
    with "1.prems" show ?thesis by (subst aes128_encrypt_loop.simps) (cases n; auto)
  next
    case False
    then have "(n + 15) div 16 = Suc ((n - 16 + 15) div 16)" by (cases "n \<le> 16") auto
    with False "1.prems" have "length (drop 16 chunk) < 16 * ((n - 16 + 15) div 16)"
      by (simp add: less_diff_conv2)
    with "1.IH" False show ?thesis by (subst aes128_encrypt_loop.simps) (simp add: Let_def)
  qed
qed

lemma aes128_decrypt_loop_short:
  "length chunk < 16 * ((n + 15) div 16) \<Longrightarrow> aes128_decrypt_loop rk iv chunk n = Inl OutOfBounds"
proof (induction rk iv chunk n rule: aes128_decrypt_loop.induct)
  case (1 rk iv chunk n)
  show ?case
  proof (cases "n = 0 \<or> length chunk < 16")
    case True
    with "1.prems" show ?thesis by (subst aes128_decrypt_loop.simps) (cases n; auto)
  next
    case False
    then have "(n + 15) div 16 = Suc ((n - 16 + 15) div 16)" by (cases "n \<le> 16") auto
    with False "1.prems" have "length (drop 16 chunk) < 16 * ((n - 16 + 15) div 16)"
      by (simp add: less_diff_conv2)
    with "1.IH" False show ?thesis by (subst aes128_decrypt_loop.simps) (simp add: Let_def)
  qed
qed

lemma aes128_decrypt_short:
  "length chunk < 16 * blocks_for len \<Longrightarrow> aes128_decrypt ctx chunk len = Inl OutOfBounds"
  by (simp add: aes128_decrypt_def aes128_decrypt_loop_short blocks_for_def)

lemma aes128_encrypt_short:
  "length chunk < 16 * blocks_for len \<Longrightarrow> aes128_encrypt ctx chunk len = Inl OutOfBounds"
  by (simp add: aes128_encrypt_def aes128_encrypt_loop_short blocks_for_def)

subsection \<open>Properties\<close>

text \<open>
  C20: encrypting a buffer in place and decrypting the result from the same
  context gives the buffer back, and both leave the context with the same
  chaining block, so that consecutive calls (header, then data) chain alike.
  Bytes after the last block are not touched.
\<close>

theorem aes128_cbc_round_trip:
  assumes "length (ctx_iv ctx) = 16" and "16 * blocks_for len \<le> length chunk"
  shows "\<exists>ctx' out.
    aes128_encrypt ctx chunk len = Inr (ctx', out) \<and>
    aes128_decrypt ctx out len = Inr (ctx', chunk) \<and>
    length out = length chunk \<and>
    drop (16 * blocks_for len) out = drop (16 * blocks_for len) chunk"
  using aes128_decrypt_encrypt[OF assms] by blast

theorem aes128_cbc_round_trip_witness:
  "let ctx = \<lparr>round_key = replicate 176 1, ctx_iv = replicate 16 2\<rparr> in
   length (ctx_iv ctx) = 16 \<and> 16 * blocks_for 20 \<le> length (replicate 40 (3 :: byte)) \<and>
   (\<exists>ctx' out. aes128_encrypt ctx (replicate 40 3) 20 = Inr (ctx', out) \<and>
      aes128_decrypt ctx out 20 = Inr (ctx', replicate 40 3))"
  using aes128_cbc_round_trip[of "\<lparr>round_key = replicate 176 1, ctx_iv = replicate 16 2\<rparr>" 20
      "replicate 40 3"]
  by (auto simp: blocks_for_def)

text \<open>
  C40: \<^verbatim>\<open>aes128_encrypt\<close> and \<^verbatim>\<open>aes128_decrypt\<close> stay inside the buffer exactly when it
  holds the length rounded up to whole blocks; otherwise they run past its end.
\<close>

theorem aes128_bounds:
  assumes "length (ctx_iv ctx) = 16"
  shows "((\<exists>r. aes128_encrypt ctx chunk len = Inr r) \<longleftrightarrow> 16 * blocks_for len \<le> length chunk) \<and>
         ((\<exists>r. aes128_decrypt ctx chunk len = Inr r) \<longleftrightarrow> 16 * blocks_for len \<le> length chunk)"
proof (cases "16 * blocks_for len \<le> length chunk")
  case True
  moreover have "is_block (ctx_iv ctx)" using assms by (simp add: is_block_def)
  ultimately have "\<exists>r. aes128_decrypt ctx chunk len = Inr r"
    by (simp add: aes128_decrypt_def aes128_decrypt_loop_cbc[OF _ _ blocks_for_bounds] Let_def)
  with True aes128_decrypt_encrypt[OF assms True] show ?thesis by blast
next
  case False
  then show ?thesis by (simp add: aes128_encrypt_short aes128_decrypt_short)
qed

theorem aes128_bounds_witness:
  "length (ctx_iv \<lparr>round_key = [], ctx_iv = replicate 16 0\<rparr>) = 16 \<and>
   \<not> (\<exists>r. aes128_decrypt \<lparr>round_key = [], ctx_iv = replicate 16 0\<rparr> (replicate 31 0) 17 = Inr r)"
  using aes128_bounds[of "\<lparr>round_key = [], ctx_iv = replicate 16 0\<rparr>" "replicate 31 0" 17]
  by (simp add: blocks_for_def)

text \<open>
  C18: \<^verbatim>\<open>aes128_cmac\<close> computes the code of RFC 4493 for messages of every length,
  the empty message included, for the cipher it is given: the two subkeys by
  doubling in the field of 128-bit words, the padding, and the chaining.
\<close>

theorem aes128_cmac_is_rfc4493:
  "aes128_cmac ctx msg = rfc4493_cmac (\<lambda>b. aes_xcrypt b (round_key ctx) False) msg"
  by (rule aes128_cmac_rfc4493)

end
