(* ===== verification/Sha256.thy ===== *)
theory Sha256
  imports Prelude
begin

text \<open>
  \<^verbatim>\<open>crypto/sha256.c\<close>: the streaming SHA-256 of the key exchange. The context is the
  record \<open>sha256_t\<close>; \<^verbatim>\<open>sha256_hash\<close> keeps the eight working variables in a fixed
  array and rotates the indices \<^verbatim>\<open>idx\<close> instead of the values. Shown: hashing any
  message through \<^verbatim>\<open>sha256_init\<close>, \<^verbatim>\<open>sha256_append\<close> and \<^verbatim>\<open>sha256_finish\<close>, in any
  number of pieces, gives the digest FIPS 180-4 defines (\<open>fips180_sha256\<close>).
\<close>

record sha256_t =
  sha_data :: "byte list"
  block_bytes :: u64
  bits_total :: u64
  sha_state :: "u32 list"

definition shr :: "u32 \<Rightarrow> nat \<Rightarrow> u32" where
  "shr x n = drop_bit n x"

definition rotr :: "u32 \<Rightarrow> nat \<Rightarrow> u32" where
  "rotr x n = drop_bit n x OR push_bit (0x20 - n) x"

definition ch :: "u32 \<Rightarrow> u32 \<Rightarrow> u32 \<Rightarrow> u32" where
  "ch x y z = (x AND y) XOR (NOT x AND z)"

definition maj :: "u32 \<Rightarrow> u32 \<Rightarrow> u32 \<Rightarrow> u32" where
  "maj x y z = (x AND y) XOR (x AND z) XOR (y AND z)"

definition sum0 :: "u32 \<Rightarrow> u32" where
  "sum0 x = rotr x 0x02 XOR rotr x 0x0d XOR rotr x 0x16"

definition sum1 :: "u32 \<Rightarrow> u32" where
  "sum1 x = rotr x 0x06 XOR rotr x 0x0b XOR rotr x 0x19"

definition sig0 :: "u32 \<Rightarrow> u32" where
  "sig0 x = rotr x 0x07 XOR rotr x 0x12 XOR shr x 0x03"

definition sig1 :: "u32 \<Rightarrow> u32" where
  "sig1 x = rotr x 0x11 XOR rotr x 0x13 XOR shr x 0x0a"

definition sha256_init :: sha256_t where
  "sha256_init =
     \<lparr>sha_data = replicate 64 0, block_bytes = 0, bits_total = 0,
      sha_state = [0x6a09e667, 0xbb67ae85, 0x3c6ef372, 0xa54ff53a,
                   0x510e527f, 0x9b05688c, 0x1f83d9ab, 0x5be0cd19]\<rparr>"

definition sha256_k :: "u32 list" where
  "sha256_k =
      [0x428a2f98, 0x71374491, 0xb5c0fbcf, 0xe9b5dba5, 0x3956c25b, 0x59f111f1, 0x923f82a4, 0xab1c5ed5] @
      [0xd807aa98, 0x12835b01, 0x243185be, 0x550c7dc3, 0x72be5d74, 0x80deb1fe, 0x9bdc06a7, 0xc19bf174] @
      [0xe49b69c1, 0xefbe4786, 0x0fc19dc6, 0x240ca1cc, 0x2de92c6f, 0x4a7484aa, 0x5cb0a9dc, 0x76f988da] @
      [0x983e5152, 0xa831c66d, 0xb00327c8, 0xbf597fc7, 0xc6e00bf3, 0xd5a79147, 0x06ca6351, 0x14292967] @
      [0x27b70a85, 0x2e1b2138, 0x4d2c6dfc, 0x53380d13, 0x650a7354, 0x766a0abb, 0x81c2c92e, 0x92722c85] @
      [0xa2bfe8a1, 0xa81a664b, 0xc24b8b70, 0xc76c51a3, 0xd192e819, 0xd6990624, 0xf40e3585, 0x106aa070] @
      [0x19a4c116, 0x1e376c08, 0x2748774c, 0x34b0bcb5, 0x391c0cb3, 0x4ed8aa4a, 0x5b9cca4f, 0x682e6ff3] @
      [0x748f82ee, 0x78a5636f, 0x84c87814, 0x8cc70208, 0x90befffa, 0xa4506ceb, 0xbef9a3f7, 0xc67178f2]"

definition sha256_schedule_word :: "byte list \<Rightarrow> u32 list \<Rightarrow> nat \<Rightarrow> u32" where
  "sha256_schedule_word data w i =
     (if i < 16
      then push_bit 0x18 (ucast (data ! (4 * i + 0))) OR
           push_bit 0x10 (ucast (data ! (4 * i + 1))) OR
           push_bit 0x08 (ucast (data ! (4 * i + 2))) OR
           push_bit 0x00 (ucast (data ! (4 * i + 3)))
      else sig1 (w ! (i - 0x02)) + sig0 (w ! (i - 0x0f)) + w ! (i - 0x07) + w ! (i - 0x10))"

definition sha256_schedule :: "byte list \<Rightarrow> u32 list" where
  "sha256_schedule data = fold (\<lambda>i w. w @ [sha256_schedule_word data w i]) [0..<64] []"

text \<open>The working variables \<^verbatim>\<open>a\<close> to \<^verbatim>\<open>h\<close> are positions 0 to 7 of \<^verbatim>\<open>idx\<close>.\<close>

definition sha256_round :: "u32 list \<Rightarrow> nat \<Rightarrow> u32 list \<times> nat list \<Rightarrow> u32 list \<times> nat list" where
  "sha256_round w i st =
     (let (s, idx) = st;
          idx = map (\<lambda>x. if x \<noteq> 0 then x - 1 else 7) idx;
          a = idx ! 0; b = idx ! 1; c = idx ! 2; d = idx ! 3;
          e = idx ! 4; f = idx ! 5; g = idx ! 6; h = idx ! 7;
          s = s[h := s ! h + sum1 (s ! e)];
          s = s[h := s ! h + ch (s ! e) (s ! f) (s ! g)];
          s = s[h := s ! h + sha256_k ! i];
          s = s[h := s ! h + w ! i];
          s = s[d := s ! d + s ! h];
          s = s[h := s ! h + maj (s ! a) (s ! b) (s ! c)];
          s = s[h := s ! h + sum0 (s ! a)]
      in (s, idx))"

definition sha256_hash :: "sha256_t \<Rightarrow> byte list \<Rightarrow> sha256_t" where
  "sha256_hash ctx data =
     (let w = sha256_schedule data;
          s = map (\<lambda>i. sha_state ctx ! i) [0..<8];
          (s, idx) = fold (sha256_round w) [0..<64] (s, [1, 2, 3, 4, 5, 6, 7, 8])
      in ctx\<lparr>sha_state := map (\<lambda>i. sha_state ctx ! i + s ! i) [0..<8]\<rparr>)"

definition sha256_append_byte :: "byte \<Rightarrow> sha256_t \<Rightarrow> sha256_t" where
  "sha256_append_byte b ctx =
     (let ctx = ctx\<lparr>sha_data := (sha_data ctx)[unat (block_bytes ctx) := b],
                    block_bytes := block_bytes ctx + 1\<rparr>
      in if block_bytes ctx = 64
         then (sha256_hash ctx (sha_data ctx))
                \<lparr>bits_total := bits_total ctx + 512, block_bytes := 0\<rparr>
         else ctx)"

definition sha256_append :: "sha256_t \<Rightarrow> byte list \<Rightarrow> sha256_t" where
  "sha256_append ctx src = fold sha256_append_byte src ctx"

definition sha256_finish :: "sha256_t \<Rightarrow> byte list" where
  "sha256_finish ctx =
     (let block = unat (ucast (block_bytes ctx) :: u32);
          ctx = ctx\<lparr>sha_data := (sha_data ctx)[block := 128]\<rparr>;
          block = block + 1;
          end = (if block_bytes ctx < 56 then 56 else 64);
          ctx = ctx\<lparr>sha_data := fold (\<lambda>i data. data[i := 0]) [block..<end] (sha_data ctx)\<rparr>;
          ctx = (if end = 64
                 then (sha256_hash ctx (sha_data ctx))\<lparr>sha_data := replicate 64 0\<rparr>
                 else ctx);
          ctx = ctx\<lparr>bits_total := bits_total ctx + 8 * block_bytes ctx\<rparr>;
          ctx = ctx\<lparr>sha_data := fold (\<lambda>i data. data[63 - i := ucast (drop_bit (8 * i) (bits_total ctx))])
                                  [0..<8] (sha_data ctx)\<rparr>;
          ctx = sha256_hash ctx (sha_data ctx)
      in map (\<lambda>k. ucast (drop_bit (24 - 8 * (k mod 4)) (sha_state ctx ! (k div 4)) AND 0xff)) [0..<32])"

subsection \<open>FIPS 180-4\<close>

text \<open>
  The reference, written from the standard and sharing no definition with the code
  above: the functions of section 4.1.2 over the rotations of the word library, the
  constants of sections 4.2.2 and 5.3.3 computed from the roots of the primes, the
  padding of section 5.1.1, the message schedule as the recurrence of section 6.2.2
  and its rounds with the eight working variables passed on from round to round.
\<close>

type_synonym sha_vars = "u32 \<times> u32 \<times> u32 \<times> u32 \<times> u32 \<times> u32 \<times> u32 \<times> u32"

definition fips180_Ch :: "u32 \<Rightarrow> u32 \<Rightarrow> u32 \<Rightarrow> u32" where
  "fips180_Ch x y z = (x AND y) XOR (NOT x AND z)"

definition fips180_Maj :: "u32 \<Rightarrow> u32 \<Rightarrow> u32 \<Rightarrow> u32" where
  "fips180_Maj x y z = (x AND y) XOR (x AND z) XOR (y AND z)"

definition fips180_Sigma0 :: "u32 \<Rightarrow> u32" where
  "fips180_Sigma0 x = word_rotr 2 x XOR word_rotr 13 x XOR word_rotr 22 x"

definition fips180_Sigma1 :: "u32 \<Rightarrow> u32" where
  "fips180_Sigma1 x = word_rotr 6 x XOR word_rotr 11 x XOR word_rotr 25 x"

definition fips180_sigma0 :: "u32 \<Rightarrow> u32" where
  "fips180_sigma0 x = word_rotr 7 x XOR word_rotr 18 x XOR drop_bit 3 x"

definition fips180_sigma1 :: "u32 \<Rightarrow> u32" where
  "fips180_sigma1 x = word_rotr 17 x XOR word_rotr 19 x XOR drop_bit 10 x"

text \<open>\<open>floor_root k e n\<close> is the \<open>e\<close>-th root of \<open>n\<close> rounded down, found bit by bit for
  \<open>n\<close> below \<open>2 ^ (e * k)\<close> (\<open>floor_root_bounds\<close>).\<close>

primrec floor_root :: "nat \<Rightarrow> nat \<Rightarrow> nat \<Rightarrow> nat" where
  "floor_root 0 e n = 0"
| "floor_root (Suc k) e n =
     (let r = 2 * floor_root k e (n div 2 ^ e) in if (r + 1) ^ e \<le> n then r + 1 else r)"

text \<open>The first 32 bits of the fractional part of the \<open>e\<close>-th root of \<open>p\<close>: the root of
  \<open>p * 2 ^ (32 * e)\<close> is that of \<open>p\<close> shifted by 32 bits, and the conversion to 32 bits
  drops the integer part.\<close>

definition fips180_frac :: "nat \<Rightarrow> nat \<Rightarrow> u32" where
  "fips180_frac e p = of_nat (floor_root 40 e (p * 2 ^ (32 * e)))"

definition first_primes :: "nat list" where
  "first_primes = [2, 3, 5, 7, 11, 13, 17, 19, 23, 29, 31, 37, 41, 43, 47, 53, 59, 61, 67, 71,
      73, 79, 83, 89, 97, 101, 103, 107, 109, 113, 127, 131, 137, 139, 149, 151, 157, 163, 167, 173,
      179, 181, 191, 193, 197, 199, 211, 223, 227, 229, 233, 239, 241, 251, 257, 263, 269, 271, 277,
      281, 283, 293, 307, 311]"

definition fips180_K :: "u32 list" where
  "fips180_K = map (fips180_frac 3) first_primes"

definition fips180_H0 :: sha_vars where
  "fips180_H0 =
     (fips180_frac 2 2, fips180_frac 2 3, fips180_frac 2 5, fips180_frac 2 7,
      fips180_frac 2 11, fips180_frac 2 13, fips180_frac 2 17, fips180_frac 2 19)"

fun fips180_W :: "byte list \<Rightarrow> nat \<Rightarrow> u32" where
  "fips180_W M t =
     (if t < 16 then le_pack (rev (take 4 (drop (4 * t) M)))
      else fips180_sigma1 (fips180_W M (t - 2)) + fips180_W M (t - 7) +
           fips180_sigma0 (fips180_W M (t - 15)) + fips180_W M (t - 16))"

fun fips180_round :: "byte list \<Rightarrow> nat \<Rightarrow> sha_vars \<Rightarrow> sha_vars" where
  "fips180_round M t (a, b, c, d, e, f, g, h) =
     (let T1 = h + fips180_Sigma1 e + fips180_Ch e f g + fips180_K ! t + fips180_W M t;
          T2 = fips180_Sigma0 a + fips180_Maj a b c
      in (T1 + T2, a, b, c, d + T1, e, f, g))"

fun fips180_compress :: "sha_vars \<Rightarrow> byte list \<Rightarrow> sha_vars" where
  "fips180_compress (H0, H1, H2, H3, H4, H5, H6, H7) M =
     (let (a, b, c, d, e, f, g, h) =
            fold (fips180_round M) [0..<64] (H0, H1, H2, H3, H4, H5, H6, H7)
      in (a + H0, b + H1, c + H2, d + H3, e + H4, f + H5, g + H6, h + H7))"

definition fips180_pad :: "byte list \<Rightarrow> byte list" where
  "fips180_pad M =
     M @ [0x80] @ replicate ((119 - length M mod 64) mod 64) 0 @
     rev (le_unpack 8 (of_nat (8 * length M) :: u64))"

fun fips180_blocks :: "byte list \<Rightarrow> byte list list" where
  "fips180_blocks M = (if length M < 64 then [] else take 64 M # fips180_blocks (drop 64 M))"

fun fips180_digest :: "sha_vars \<Rightarrow> byte list" where
  "fips180_digest (H0, H1, H2, H3, H4, H5, H6, H7) =
     concat (map (\<lambda>w. rev (le_unpack 4 w)) [H0, H1, H2, H3, H4, H5, H6, H7])"

definition fips180_sha256 :: "byte list \<Rightarrow> byte list" where
  "fips180_sha256 M = fips180_digest (foldl fips180_compress fips180_H0 (fips180_blocks (fips180_pad M)))"


subsection \<open>The code's functions and constants are those of the standard\<close>

declare fips180_W.simps [simp del]

lemma rotr_is_word_rotr:
  fixes x :: u32
  assumes "0 < n" "n < 32"
  shows "rotr x n = word_rotr n x"
proof (rule bit_word_eqI)
  fix k assume "k < LENGTH(32)"
  then have k: "k < 32" by simp
  have "bit (word_rotr n x) k \<longleftrightarrow> bit x ((k + n) mod 32)" using k by (simp add: bit_word_rotr_iff)
  moreover have "(k + n) mod 32 = (if k + n < 32 then k + n else k + n - 32)" using k assms by (simp add: mod_if)
  moreover have "\<not> bit x (k + n)" if "\<not> k + n < 32" using that bit_imp_le_length[of x "k + n"] by auto
  moreover have "k - (32 - n) = k + n - 32" using assms by simp
  ultimately show "bit (rotr x n) k = bit (word_rotr n x) k"
    using k assms by (auto simp: rotr_def bit_simps add.commute)
qed

lemma sha256_functions:
  "ch = fips180_Ch" "maj = fips180_Maj" "sum0 = fips180_Sigma0" "sum1 = fips180_Sigma1"
  "sig0 = fips180_sigma0" "sig1 = fips180_sigma1"
  by (auto simp: fun_eq_iff ch_def fips180_Ch_def maj_def fips180_Maj_def sum0_def fips180_Sigma0_def
      sum1_def fips180_Sigma1_def sig0_def fips180_sigma0_def sig1_def fips180_sigma1_def
      shr_def rotr_is_word_rotr)

lemma floor_root_bounds:
  assumes "0 < e" "n < 2 ^ (e * k)"
  shows "floor_root k e n ^ e \<le> n \<and> n < (floor_root k e n + 1) ^ e"
  using assms(2)
proof (induction k arbitrary: n)
  case 0
  then show ?case using assms(1) by simp
next
  case (Suc k)
  define q where "q = n div 2 ^ e"
  define r where "r = floor_root k e q"
  have "q < 2 ^ (e * k)"
    using Suc.prems by (simp add: q_def less_mult_imp_div_less power_add mult.commute)
  then have r: "r ^ e \<le> q" "q < (r + 1) ^ e" using Suc.IH[of q] by (simp_all add: r_def)
  have "(2 * r) ^ e \<le> n"
    using order_trans[OF mult_le_mono1[OF r(1), of "2 ^ e"]] div_times_less_eq_dividend[of n "2 ^ e"]
    by (simp add: power_mult_distrib q_def mult.commute)
  moreover have "n < (2 * r + 2) ^ e"
  proof -
    have "n < (q + 1) * 2 ^ e"
      using dividend_less_div_times[of "2 ^ e" n] by (simp add: q_def algebra_simps)
    also have "\<dots> \<le> (r + 1) ^ e * 2 ^ e" using r(2) by (intro mult_le_mono1) simp
    also have "\<dots> = (2 * r + 2) ^ e" by (simp flip: power_mult_distrib add: algebra_simps)
    finally show ?thesis .
  qed
  ultimately show ?case by (auto simp: Let_def r_def q_def)
qed

lemma floor_root_unique:
  assumes "0 < e" "n < 2 ^ (e * k)" "c ^ e \<le> n" "n < (c + 1) ^ e"
  shows "floor_root k e n = c"
proof -
  note b = floor_root_bounds[OF assms(1,2)]
  have "c ^ e < (floor_root k e n + 1) ^ e" "floor_root k e n ^ e < (c + 1) ^ e"
    using b assms(3,4) by linarith+
  then have "c < floor_root k e n + 1" "floor_root k e n < c + 1"
    by (meson power_less_imp_less_base zero_le)+
  then show ?thesis by simp
qed

definition is_root32 :: "nat \<Rightarrow> nat \<Rightarrow> u32 \<Rightarrow> bool" where
  "is_root32 e p frac =
     (let whole = length (filter (\<lambda>n. n ^ e \<le> p) [1, 2, 3, 4, 5, 6, 7]);
          c = whole * 2 ^ 32 + unat frac
      in c ^ e \<le> p * 2 ^ (32 * e) \<and> p * 2 ^ (32 * e) < (c + 1) ^ e)"

lemma is_root32_frac:
  assumes "is_root32 e p frac" "0 < e" "p < 2 ^ (8 * e)"
  shows "fips180_frac e p = frac"
proof -
  define w where "w = length (filter (\<lambda>n. n ^ e \<le> p) [1, 2, 3, 4, 5, 6, 7])"
  define c where "c = w * 2 ^ 32 + unat frac"
  have "p * 2 ^ (32 * e) < 2 ^ (e * 40)"
  proof -
    have "p * 2 ^ (32 * e) < 2 ^ (8 * e) * 2 ^ (32 * e)" using assms(3) by simp
    also have "\<dots> = 2 ^ (e * 40)" by (simp flip: power_add)
    finally show ?thesis .
  qed
  then have "floor_root 40 e (p * 2 ^ (32 * e)) = c"
    using assms(1,2) by (intro floor_root_unique) (simp_all add: is_root32_def Let_def c_def w_def)
  moreover have "(2 ^ 32 :: u32) = 0" by simp
  ultimately show ?thesis
    by (simp only: fips180_frac_def c_def of_nat_add of_nat_mult of_nat_power of_nat_numeral
        mult_zero_right add_0 of_nat_unat ucast_id)
qed
text \<open>The standard takes the round constants from the fractional parts
  of the cube roots of the first 64 primes and the initial hash value from the square
  roots of the first eight: with the integer part put back, every entry \<open>c\<close> of
  \<^verbatim>\<open>k\<close> is the cube root of its prime rounded down to 32 fractional bits, and every
  entry of the initial state is such a square root.\<close>

lemma sha256_constants:
  "list_all2 (is_root32 3) first_primes sha256_k"
  "list_all2 (is_root32 2) (take 8 first_primes) (sha_state sha256_init)"
  unfolding first_primes_def sha256_k_def sha256_init_def by (simp_all add: is_root32_def)

lemma list_all2_frac:
  "list_all2 (is_root32 e) ps ks \<Longrightarrow> 0 < e \<Longrightarrow> list_all (\<lambda>p. p < 2 ^ (8 * e)) ps \<Longrightarrow>
     map (fips180_frac e) ps = ks"
  by (induction ps ks rule: list_all2_induct) (simp_all add: is_root32_frac)

lemma sha256_k_fips180: "sha256_k = fips180_K"
  using list_all2_frac[OF sha256_constants(1)] by (simp add: fips180_K_def first_primes_def)

lemma sha256_init_fips180:
  "map (fips180_frac 2) (take 8 first_primes) = sha_state sha256_init"
  using list_all2_frac[OF sha256_constants(2)] by (simp add: first_primes_def)

lemma word_bytes_fips180:
  assumes "length M = 64" "i < 16"
  shows "push_bit 0x18 (ucast (M ! (4 * i + 0))) OR push_bit 0x10 (ucast (M ! (4 * i + 1))) OR
         push_bit 0x08 (ucast (M ! (4 * i + 2))) OR push_bit 0x00 (ucast (M ! (4 * i + 3))) =
         (le_pack (rev (take 4 (drop (4 * i) M))) :: u32)"
proof -
  have "take 4 (drop (4 * i) M) = [M ! (4 * i), M ! (4 * i + 1), M ! (4 * i + 2), M ! (4 * i + 3)]"
    using assms by (intro nth_equalityI) (auto simp: nth_Cons numeral_eq_Suc split: nat.splits)
  then show ?thesis by (simp add: or.assoc or.left_commute or.commute push_bit_or)
qed

lemma sha256_schedule_fips180:
  assumes "length M = 64"
  shows "sha256_schedule M = map (fips180_W M) [0..<64]"
proof -
  have "fold (\<lambda>i w. w @ [sha256_schedule_word M w i]) [0..<n] [] = map (fips180_W M) [0..<n]" for n
  proof (induction n)
    case (Suc n)
    have "sha256_schedule_word M (map (fips180_W M) [0..<n]) n = fips180_W M n"
      using word_bytes_fips180[OF assms, of n] unfolding sha256_schedule_word_def fips180_W.simps[of M n]
      by (simp only: sha256_functions split: if_split) (simp add: ac_simps)
    with Suc show ?case by simp
  qed simp
  then show ?thesis by (simp add: sha256_schedule_def)
qed


subsection \<open>The rounds\<close>

definition sha_vars_at :: "u32 list \<Rightarrow> nat list \<Rightarrow> sha_vars" where
  "sha_vars_at s p =
     (s ! (p ! 0), s ! (p ! 1), s ! (p ! 2), s ! (p ! 3),
      s ! (p ! 4), s ! (p ! 5), s ! (p ! 6), s ! (p ! 7))"

definition sha_positions :: "nat \<Rightarrow> nat list" where
  "sha_positions n = map (\<lambda>j. (j + 64 - n) mod 8) [0..<8]"

definition sha_step_back :: "nat list \<Rightarrow> nat list" where
  "sha_step_back idx = map (\<lambda>x. if x \<noteq> 0 then x - 1 else 7) idx"

lemma list8E:
  assumes "length xs = 8"
  obtains a b c d e f g h where "xs = [a, b, c, d, e, f, g, h]"
proof -
  have "xs = [xs!0, xs!1, xs!2, xs!3, xs!4, xs!5, xs!6, xs!7]"
    using assms by (simp add: list_eq_iff_nth_eq less_Suc_eq numeral_eq_Suc)
  then show thesis using that by blast
qed

lemma sha256_round_positions:
  assumes "length s = 8" "sha_step_back idx = [a, b, c, d, e, f, g, h]"
    and "distinct [a, b, c, d, e, f, g, h]" "\<forall>x \<in> set [a, b, c, d, e, f, g, h]. x < 8"
    and "w ! i = fips180_W M i"
  shows "\<exists>s'. sha256_round w i (s, idx) = (s', [a, b, c, d, e, f, g, h]) \<and> length s' = 8 \<and>
              sha_vars_at s' [h, a, b, c, d, e, f, g] =
              fips180_round M i (sha_vars_at s [a, b, c, d, e, f, g, h])"
proof -
  have idx: "map (\<lambda>x. if x \<noteq> 0 then x - 1 else 7) idx = [a, b, c, d, e, f, g, h]"
    using assms(2) by (simp only: sha_step_back_def)
  have nq: "h \<noteq> a" "h \<noteq> b" "h \<noteq> c" "h \<noteq> d" "h \<noteq> e" "h \<noteq> f" "h \<noteq> g"
    "d \<noteq> a" "d \<noteq> b" "d \<noteq> c" "d \<noteq> e" "d \<noteq> f" "d \<noteq> g" "d \<noteq> h"
    using assms(3) by auto
  have lt: "h < 8" "d < 8" using assms(4) by auto
  show ?thesis
    unfolding sha256_round_def Let_def prod.case idx sha_vars_at_def assms(5) sha256_k_fips180 sha256_functions
    using nq lt assms(1)
    by (simp add: nth_list_update_neq add.assoc add.commute add.left_commute)
qed

lemma sha_positions_cases:
  assumes "n < 64"
  obtains a b c d e f g h where
    "sha_positions n = [a, b, c, d, e, f, g, h]"
    "sha_positions (Suc n) = [h, a, b, c, d, e, f, g]"
    "sha_step_back [a, b, c, d, e, f, g, h] = [h, a, b, c, d, e, f, g]"
    "distinct [a, b, c, d, e, f, g, h]"
    "\<forall>x \<in> set [a, b, c, d, e, f, g, h]. x < 8"
proof -
  have "n \<in> set [0..<64]" using assms by simp
  then have "sha_positions (Suc n) = last (sha_positions n) # butlast (sha_positions n) \<and>
      sha_step_back (sha_positions n) = sha_positions (Suc n) \<and>
      distinct (sha_positions n) \<and> list_all (\<lambda>x. x < 8) (sha_positions n)"
    by (rule list_all_iff[THEN iffD1, THEN bspec, rotated]) code_simp
  moreover have "length (sha_positions n) = 8" by (simp add: sha_positions_def)
  then obtain a b c d e f g h where "sha_positions n = [a, b, c, d, e, f, g, h]" by (rule list8E)
  ultimately show thesis using that by (simp add: list_all_iff)
qed

lemma sha256_rounds_positions:
  assumes "length s = 8" "n \<le> 64" "\<forall>i < 64. w ! i = fips180_W M i"
  shows "\<exists>s' idx. fold (sha256_round w) [0..<n] (s, [1, 2, 3, 4, 5, 6, 7, 8]) = (s', idx) \<and>
           length s' = 8 \<and> sha_step_back idx = sha_positions n \<and>
           sha_vars_at s' (sha_positions n) =
           fold (fips180_round M) [0..<n] (sha_vars_at s [0, 1, 2, 3, 4, 5, 6, 7])"
  using assms(2)
proof (induction n)
  case 0
  have "sha_positions 0 = [0, 1, 2, 3, 4, 5, 6, 7]" "sha_step_back [1, 2, 3, 4, 5, 6, 7, 8] = [0, 1, 2, 3, 4, 5, 6, 7]"
    by code_simp+
  then show ?case using assms(1) by simp
next
  case (Suc n)
  then obtain s' idx where IH:
    "fold (sha256_round w) [0..<n] (s, [1, 2, 3, 4, 5, 6, 7, 8]) = (s', idx)" "length s' = 8"
    "sha_step_back idx = sha_positions n"
    "sha_vars_at s' (sha_positions n) =
       fold (fips180_round M) [0..<n] (sha_vars_at s [0, 1, 2, 3, 4, 5, 6, 7])" by auto
  from Suc.prems have "n < 64" by simp
  then obtain a b c d e f g h where P: "sha_positions n = [a, b, c, d, e, f, g, h]"
    "sha_positions (Suc n) = [h, a, b, c, d, e, f, g]"
    "sha_step_back [a, b, c, d, e, f, g, h] = [h, a, b, c, d, e, f, g]"
    "distinct [a, b, c, d, e, f, g, h]"
    "\<forall>x \<in> set [a, b, c, d, e, f, g, h]. x < 8" by (rule sha_positions_cases)
  have "w ! n = fips180_W M n" using assms(3) \<open>n < 64\<close> by blast
  from sha256_round_positions[OF IH(2) IH(3)[unfolded P(1)] P(4,5) this]
  show ?case using IH P by auto
qed


definition sha_vars_of :: "u32 list \<Rightarrow> sha_vars" where
  "sha_vars_of s = sha_vars_at s [0, 1, 2, 3, 4, 5, 6, 7]"

lemma sha_vars_of_map:
  "sha_vars_of (map f [0..<8]) = (f 0, f 1, f 2, f 3, f 4, f 5, f 6, f 7)"
  by (simp add: sha_vars_of_def sha_vars_at_def numeral_2_eq_2)

lemma sha256_hash_compress:
  assumes "length (sha_state ctx) = 8" "length data = 64"
  shows "sha_vars_of (sha_state (sha256_hash ctx data)) =
         fips180_compress (sha_vars_of (sha_state ctx)) data"
    and "length (sha_state (sha256_hash ctx data)) = 8"
    and "sha_data (sha256_hash ctx data) = sha_data ctx"
    and "block_bytes (sha256_hash ctx data) = block_bytes ctx"
    and "bits_total (sha256_hash ctx data) = bits_total ctx"
proof -
  define w where "w = sha256_schedule data"
  have s: "map ((!) (sha_state ctx)) [0..<8] = sha_state ctx"
    using assms by (metis map_nth)
  have p: "sha_positions 64 = [0, 1, 2, 3, 4, 5, 6, 7]" by code_simp
  have w: "\<forall>i < 64. w ! i = fips180_W data i"
    by (simp add: w_def sha256_schedule_fips180[OF assms(2)])
  from sha256_rounds_positions[OF assms(1) order_refl w] p obtain s' idx where
    r: "fold (sha256_round w) [0..<64] (sha_state ctx, [1, 2, 3, 4, 5, 6, 7, 8]) = (s', idx)"
      "length s' = 8"
      "sha_vars_of s' = fold (fips180_round data) [0..<64] (sha_vars_of (sha_state ctx))" by (auto simp: sha_vars_of_def)
  have h: "sha256_hash ctx data =
      ctx\<lparr>sha_state := map (\<lambda>i. sha_state ctx ! i + s' ! i) [0..<8]\<rparr>"
    unfolding sha256_hash_def Let_def s w_def[symmetric] r(1) by simp
  have eq: "fips180_compress (sha_vars_of (sha_state ctx)) data =
      (case sha_vars_of s' of (a, b, c, d, e, f, g, h) \<Rightarrow>
       case sha_vars_of (sha_state ctx) of (H0, H1, H2, H3, H4, H5, H6, H7) \<Rightarrow>
       (a + H0, b + H1, c + H2, d + H3, e + H4, f + H5, g + H6, h + H7))"
    unfolding r(3) by (simp only: sha_vars_of_def sha_vars_at_def fips180_compress.simps Let_def prod.case)
  show "sha_vars_of (sha_state (sha256_hash ctx data)) =
        fips180_compress (sha_vars_of (sha_state ctx)) data"
    using eq by (simp add: h sha_vars_of_map) (simp add: sha_vars_of_def sha_vars_at_def add.commute numeral_2_eq_2)
  show "length (sha_state (sha256_hash ctx data)) = 8"
    "sha_data (sha256_hash ctx data) = sha_data ctx"
    "block_bytes (sha256_hash ctx data) = block_bytes ctx"
    "bits_total (sha256_hash ctx data) = bits_total ctx" by (simp_all add: h)
qed

lemmas sha256_hash_simps = sha256_hash_compress(2-5)

subsection \<open>Streaming\<close>

text \<open>\<open>sha_holds A T ctx\<close>: the whole blocks \<open>A\<close> are hashed, the rest \<open>T\<close> is buffered.\<close>

definition sha_holds :: "byte list \<Rightarrow> byte list \<Rightarrow> sha256_t \<Rightarrow> bool" where
  "sha_holds A T ctx \<longleftrightarrow>
     64 dvd length A \<and> length T < 64 \<and>
     length (sha_data ctx) = 64 \<and> length (sha_state ctx) = 8 \<and>
     take (length T) (sha_data ctx) = T \<and>
     block_bytes ctx = of_nat (length T) \<and> bits_total ctx = of_nat (8 * length A) \<and>
     sha_vars_of (sha_state ctx) = foldl fips180_compress fips180_H0 (fips180_blocks A)"

lemma fips180_blocks_short: "length M < 64 \<Longrightarrow> fips180_blocks M = []"
  by simp

lemma fips180_blocks_block: "length B = 64 \<Longrightarrow> fips180_blocks (B @ M) = B # fips180_blocks M"
  by simp

declare fips180_blocks.simps [simp del]

lemma fips180_blocks_append:
  "64 dvd length A \<Longrightarrow> fips180_blocks (A @ B) = fips180_blocks A @ fips180_blocks B"
proof (induction A rule: fips180_blocks.induct)
  case (1 A)
  show ?case
  proof (cases "length A < 64")
    case True
    with 1 have "A = []" by (metis length_0_conv nat_dvd_not_less neq0_conv)
    then show ?thesis by (simp add: fips180_blocks_short)
  next
    case False
    have "fips180_blocks (take 64 A @ drop 64 A @ B) = take 64 A # fips180_blocks (drop 64 A @ B)"
      using False by (intro fips180_blocks_block) simp
    moreover have "fips180_blocks (take 64 A @ drop 64 A) = take 64 A # fips180_blocks (drop 64 A)"
      using False by (intro fips180_blocks_block) simp
    moreover have "fips180_blocks (drop 64 A @ B) = fips180_blocks (drop 64 A) @ fips180_blocks B"
      using 1 False by (simp add: dvd_minus_self)
    ultimately show ?thesis by (metis append.assoc append_Cons append_take_drop_id)
  qed
qed

lemma sha_holds_init: "sha_holds [] [] sha256_init"
  using sha256_init_fips180[symmetric]
  by (simp add: sha_holds_def fips180_H0_def first_primes_def fips180_blocks_short sha_vars_of_def sha_vars_at_def)
    (simp add: sha256_init_def)

lemma sha_holds_append_byte:
  assumes "sha_holds A T ctx"
  shows "if length T = 63 then sha_holds (A @ T @ [b]) [] (sha256_append_byte b ctx)
         else sha_holds A (T @ [b]) (sha256_append_byte b ctx)"
proof -
  define ctx' where "ctx' = ctx\<lparr>sha_data := (sha_data ctx)[length T := b], block_bytes := block_bytes ctx + 1\<rparr>"
  have h: "64 dvd length A" "length T < 64" "length (sha_data ctx) = 64"
    "length (sha_state ctx) = 8" "take (length T) (sha_data ctx) = T"
    "block_bytes ctx = of_nat (length T)" "bits_total ctx = of_nat (8 * length A)"
    "sha_vars_of (sha_state ctx) = foldl fips180_compress fips180_H0 (fips180_blocks A)"
    using assms by (simp_all add: sha_holds_def)
  have u: "unat (block_bytes ctx) = length T"
    using h(2,6) by (simp add: unat_of_nat take_bit_nat_eq_self)
  have full: "block_bytes ctx' = 64 \<longleftrightarrow> length T = 63"
  proof -
    have "block_bytes ctx' = of_nat (Suc (length T))" by (simp add: ctx'_def h(6))
    then have "unat (block_bytes ctx') = Suc (length T)"
      using h(2) by (simp only: unat_of_nat) (simp add: take_bit_nat_eq_self)
    then show ?thesis by (auto simp: word_unat_eq_iff)
  qed
  have T: "take (Suc (length T)) ((sha_data ctx)[length T := b]) = T @ [b]"
    using h(2,3,5) by (simp add: take_Suc_conv_app_nth take_update_cancel)
  show ?thesis
  proof (cases "length T = 63")
    case True
    then have d: "sha_data ctx' = T @ [b]"
      using T h(3) by (simp add: ctx'_def)
    have "sha256_append_byte b ctx = (sha256_hash ctx' (T @ [b]))\<lparr>bits_total := bits_total ctx' + 512, block_bytes := 0\<rparr>"
      using True full d unfolding sha256_append_byte_def Let_def u ctx'_def[symmetric] by simp
    moreover have "fips180_blocks (A @ T @ [b]) = fips180_blocks A @ [T @ [b]]"
      using True h(1) fips180_blocks_block[of "T @ [b]" "[]"]
      by (simp add: fips180_blocks_append fips180_blocks_short)
    moreover have "length (sha_state ctx') = 8" "sha_state ctx' = sha_state ctx" using h(4) by (simp_all add: ctx'_def)
    moreover have "64 dvd (length A + 64)" using h(1) by simp
    ultimately show ?thesis
      using True h d sha256_hash_compress[of ctx' "T @ [b]"]
      by (simp add: sha_holds_def) (simp add: ctx'_def)
  next
    case False
    then have "sha256_append_byte b ctx = ctx'"
      using full unfolding sha256_append_byte_def Let_def u ctx'_def[symmetric] by simp
    then show ?thesis using False h T by (simp add: sha_holds_def ctx'_def)
  qed
qed

lemma sha_holds_append:
  assumes "sha_holds A T ctx"
  shows "\<exists>A' T'. A' @ T' = A @ T @ src \<and> sha_holds A' T' (sha256_append ctx src)"
  using assms
proof (induction src arbitrary: A T ctx)
  case Nil
  then show ?case by (auto simp: sha256_append_def)
next
  case (Cons b src)
  have "\<exists>A' T'. A' @ T' = A @ T @ [b] \<and> sha_holds A' T' (sha256_append_byte b ctx)"
    using sha_holds_append_byte[OF Cons.prems, of b] by (auto split: if_splits)
  then obtain A' T' where "A' @ T' = A @ T @ [b]" "sha_holds A' T' (sha256_append_byte b ctx)" by blast
  with Cons.IH[of A' T' "sha256_append_byte b ctx"] show ?case
    by (auto simp: sha256_append_def) (metis append.assoc append_Cons append_Nil)
qed


subsection \<open>Padding and the digest\<close>

lemma fold_zero_fill:
  "k \<le> n \<Longrightarrow> n \<le> length d \<Longrightarrow>
     fold (\<lambda>i d. d[i := 0]) [k..<n] d = take k d @ replicate (n - k) 0 @ drop n d"
proof (induction "n - k" arbitrary: n)
  case 0
  then show ?case by simp
next
  case (Suc m)
  then obtain n' where n: "n = Suc n'" "k \<le> n'" by (cases n) auto
  then have "m = n' - k" using Suc by simp
  with Suc n have IH: "fold (\<lambda>i d. d[i := 0]) [k..<n'] d = take k d @ replicate (n' - k) 0 @ drop n' d"
    by simp
  have d: "drop n' d = d ! n' # drop n d" using n Suc.prems by (simp add: Cons_nth_drop_Suc)
  show ?case using n Suc.prems IH
    by (simp add: list_update_append d Suc_diff_le replicate_append_same flip: replicate_append_same)
qed

lemma fold_write_tail:
  "n \<le> length d \<Longrightarrow> length d = L \<Longrightarrow>
     fold (\<lambda>i d. d[L - 1 - i := f i]) [0..<n] d = take (L - n) d @ rev (map f [0..<n])"
proof (induction n)
  case 0
  then show ?case by simp
next
  case (Suc n)
  then have "L - n = Suc (L - Suc n)" by simp
  then have "take (L - n) d = take (L - Suc n) d @ [d ! (L - Suc n)]"
    using Suc.prems by (metis Suc_diff_Suc diff_less less_le_trans take_Suc_conv_app_nth zero_less_Suc)
  with Suc show ?case by (simp add: list_update_append)
qed

lemma sha256_output_digest:
  "map (\<lambda>k. ucast (drop_bit (24 - 8 * (k mod 4)) (s ! (k div 4)) AND 0xff)) [0..<32] =
   fips180_digest (sha_vars_of s)"
proof -
  have "ucast (x AND mask 8) = (ucast x :: byte)" for x :: u32
    by (rule bit_word_eqI) (auto simp: bit_simps)
  then have m: "ucast (x AND 0xff) = (ucast x :: byte)" for x :: u32
    by (simp add: mask_eq_exp_minus_1)
  show ?thesis
    unfolding m by (simp add: sha_vars_of_def sha_vars_at_def le_unpack_def upt_conv_Cons)
qed

lemma fips180_pad_split:
  assumes "64 dvd length A" "length T < 64"
  shows "fips180_blocks (fips180_pad (A @ T)) = fips180_blocks A @
     (let L = rev (le_unpack 8 (of_nat (8 * length (A @ T)) :: u64))
      in if length T < 56 then [T @ [0x80] @ replicate (55 - length T) 0 @ L]
         else [T @ [0x80] @ replicate (63 - length T) 0, replicate 56 0 @ L])"
proof -
  define L where "L = rev (le_unpack 8 (of_nat (8 * length (A @ T)) :: u64))"
  have len: "length (A @ T) mod 64 = length T" using assms by auto
  have pad: "fips180_pad (A @ T) = A @ (T @ [0x80] @ replicate ((119 - length T) mod 64) 0 @ L)"
    unfolding fips180_pad_def len L_def by simp
  have L: "length L = 8" by (simp add: L_def)
  show ?thesis
  proof (cases "length T < 56")
    case True
    then have "(119 - length T) mod 64 = 55 - length T" by (simp add: mod_if)
    with True L assms(1) show ?thesis unfolding Let_def L_def[symmetric]
      using fips180_blocks_block[of "T @ [0x80] @ replicate (55 - length T) 0 @ L" "[]"]
      by (simp add: pad fips180_blocks_append fips180_blocks_short)
  next
    case False
    with assms have *: "(119 - length T) mod 64 = (63 - length T) + 56" by (simp add: mod_if)
    have "T @ [0x80] @ replicate ((119 - length T) mod 64) 0 @ L =
        (T @ [0x80] @ replicate (63 - length T) 0) @ (replicate 56 0 @ L)"
      by (simp only: * replicate_add append.assoc)
    with False L assms show ?thesis unfolding Let_def L_def[symmetric]
      using fips180_blocks_block[of "T @ [0x80] @ replicate (63 - length T) 0" "replicate 56 0 @ L"]
        fips180_blocks_block[of "replicate 56 0 @ L" "[]"]
      by (simp add: pad fips180_blocks_append fips180_blocks_short)
  qed
qed

lemma sha256_finish_holds:
  assumes "sha_holds A T ctx"
  shows "sha256_finish ctx = fips180_sha256 (A @ T)"
proof -
  have h: "64 dvd length A" "length T < 64" "length (sha_data ctx) = 64"
    "length (sha_state ctx) = 8" "take (length T) (sha_data ctx) = T"
    "block_bytes ctx = of_nat (length T)" "bits_total ctx = of_nat (8 * length A)"
    "sha_vars_of (sha_state ctx) = foldl fips180_compress fips180_H0 (fips180_blocks A)"
    using assms by (simp_all add: sha_holds_def)
  have u: "unat (ucast (block_bytes ctx) :: u32) = length T"
    using h(2,6) by (simp add: unsigned_ucast_eq unat_of_nat take_bit_nat_eq_self)
  have lt: "block_bytes ctx < 56 \<longleftrightarrow> length T < 56"
    using h(2,6) by (simp add: word_less_nat_alt unat_of_nat take_bit_nat_eq_self)
  define d0 where "d0 = (sha_data ctx)[length T := 128]"
  define B where "B = (of_nat (8 * length (A @ T)) :: u64)"
  have B: "bits_total ctx + 8 * block_bytes ctx = B"
    by (simp add: B_def h(6,7) algebra_simps)
  have T: "take (Suc (length T)) d0 = T @ [128]" "length d0 = 64"
    using h(2,3,5) by (simp_all add: d0_def take_Suc_conv_app_nth take_update_cancel)
  have tail: "fold (\<lambda>i data. data[63 - i := ucast (drop_bit (8 * i) B)]) [0..<8] d =
      take 56 d @ rev (le_unpack 8 B)" if "length d = 64" for d
    using fold_write_tail[of 8 d 64 "\<lambda>i. ucast (drop_bit (8 * i) B)"] that by (simp add: le_unpack_def)
  note split = fips180_pad_split[OF h(1,2), folded B_def]
  show ?thesis
  proof (cases "length T < 56")
    case True
    then have z: "fold (\<lambda>i d. d[i := 0]) [length T + 1..<56] d0 =
        T @ [128] @ replicate (55 - length T) 0 @ drop 56 d0"
      using fold_zero_fill[of "Suc (length T)" 56 d0] T by simp
    show ?thesis
      unfolding sha256_finish_def Let_def u sha256_output_digest
      using True lt T(2) h(4) by (simp add: d0_def[symmetric] z[simplified] B tail take_Cons' sha256_hash_compress fips180_sha256_def split h(8))
  next
    case False
    then have z: "fold (\<lambda>i d. d[i := 0]) [length T + 1..<64] d0 =
        T @ [128] @ replicate (63 - length T) 0"
      using fold_zero_fill[of "Suc (length T)" 64 d0] T h(2) by simp
    show ?thesis
      unfolding sha256_finish_def Let_def u sha256_output_digest
      using False lt T(2) h(2,4) by (simp add: d0_def[symmetric] z[simplified] B tail take_Cons' sha256_hash_compress fips180_sha256_def split h(8))
  qed
qed

text \<open>C17: FIPS 180-4. Hashing a message with \<^verbatim>\<open>sha256_init\<close>, any number of
  \<^verbatim>\<open>sha256_append\<close> calls and \<^verbatim>\<open>sha256_finish\<close> gives the SHA-256 digest of the
  concatenated pieces, however the message is cut. The digest is the one of the
  standard's own functions, constants, schedule and padding (\<open>fips180_sha256\<close>).\<close>

theorem sha256_is_fips180:
  "sha256_finish (foldl sha256_append sha256_init chunks) = fips180_sha256 (concat chunks)"
proof -
  have "\<exists>A' T'. A' @ T' = A @ T @ concat chunks \<and> sha_holds A' T' (foldl sha256_append ctx chunks)"
    if "sha_holds A T ctx" for A T ctx
    using that
  proof (induction chunks arbitrary: A T ctx)
    case Nil
    then show ?case by auto
  next
    case (Cons c chunks)
    obtain A' T' where "A' @ T' = A @ T @ c" "sha_holds A' T' (sha256_append ctx c)"
      using sha_holds_append[OF Cons.prems] by blast
    with Cons.IH[of A' T' "sha256_append ctx c"] show ?case by (metis append.assoc concat.simps(2) foldl_Cons)
  qed
  from this[OF sha_holds_init] show ?thesis using sha256_finish_holds by fastforce
qed

end
