(* ===== verification/Wire.thy ===== *)
theory Wire
  imports Wire_Util Aes_Modes
begin

text \<open>
  \<^verbatim>\<open>common/wire.c\<close>: the authenticated envelope of every message. A wire is the
  record \<open>wire_t\<close> with the bytes allocated behind its header as \<open>data\<close>.
  \<^verbatim>\<open>init_wire\<close> builds one in the clear, \<^verbatim>\<open>encrypt_wire\<close> encrypts header and data
  with AES-128-CBC and stores two CMACs, \<^verbatim>\<open>decrypt_wire\<close> verifies and opens it.

  \<^item> The bytes \<^verbatim>\<open>xgetrandom\<close> delivers for the initialisation vector are a parameter,
    \<open>None\<close> when it fails.
  \<^item> \<^verbatim>\<open>xcalloc\<close> ends the process when memory runs out; the model describes the runs
    on which it does not.
  \<^item> A key is its 32 bytes; the two keys of \<^verbatim>\<open>decrypt_wire\<close> are different arrays, so
    the comparison \<^verbatim>\<open>key == key1\<close> says which of the two is being tried.
\<close>

subsection \<open>Data\<close>

datatype wire_type_t =
    TYPE_ERROR
  | TYPE_NONE
  | TYPE_TEXT
  | TYPE_FILE
  | TYPE_CTRL
  | TYPE_STAT
  | TYPE_SESSION_KEY

primrec wire_type_value :: "wire_type_t \<Rightarrow> int" where
  "wire_type_value TYPE_ERROR = - 1"
| "wire_type_value TYPE_NONE = 0"
| "wire_type_value TYPE_TEXT = 1"
| "wire_type_value TYPE_FILE = 2"
| "wire_type_value TYPE_CTRL = 3"
| "wire_type_value TYPE_STAT = 4"
| "wire_type_value TYPE_SESSION_KEY = 5"

record wire_auth_t =
  mac_outer :: "byte list"
  mac_inner :: "byte list"
  iv :: "byte list"

record header_t =
  signature :: "byte list"
  wire_len :: "byte list"
  alignment :: byte
  hdr_type :: byte

record wire_t =
  auth :: wire_auth_t
  header :: header_t
  wire_data :: "byte list"

abbreviation (input) KEY_LEN :: nat where "KEY_LEN \<equiv> 32"
abbreviation (input) BLOCK_LEN :: u64 where "BLOCK_LEN \<equiv> 16"
abbreviation (input) CIPHER_OFFSET :: nat where "CIPHER_OFFSET \<equiv> 0"
abbreviation (input) CMAC_OFFSET :: nat where "CMAC_OFFSET \<equiv> 16"
abbreviation (input) WIRE_OFFSET_MAC_INNER :: nat where "WIRE_OFFSET_MAC_INNER \<equiv> 16"
abbreviation (input) sizeof_wire_t :: u64 where "sizeof_wire_t \<equiv> 64"
abbreviation (input) DATA_LEN_MAX :: nat where "DATA_LEN_MAX \<equiv> 2 ^ 16"
abbreviation (input) RECV_MAX_BYTES :: nat where "RECV_MAX_BYTES \<equiv> 64 + DATA_LEN_MAX"

definition header_bytes :: "header_t \<Rightarrow> byte list" where
  "header_bytes h = signature h @ wire_len h @ [alignment h, hdr_type h]"

definition header_of_bytes :: "byte list \<Rightarrow> header_t" where
  "header_of_bytes bs =
     \<lparr>signature = take 6 bs, wire_len = take 8 (drop 6 bs), alignment = bs ! 14, hdr_type = bs ! 15\<rparr>"

definition zero_header :: header_t where
  "zero_header = \<lparr>signature = replicate 6 0, wire_len = replicate 8 0, alignment = 0, hdr_type = 0\<rparr>"

definition wire_bytes :: "wire_t \<Rightarrow> byte list" where
  "wire_bytes w =
     mac_outer (auth w) @ mac_inner (auth w) @ iv (auth w) @ header_bytes (header w) @ wire_data w"

definition wire_of_bytes :: "byte list \<Rightarrow> wire_t c_result" where
  "wire_of_bytes bs =
     (if 64 \<le> length bs
      then Inr \<lparr>auth = \<lparr>mac_outer = take 16 bs, mac_inner = take 16 (drop 16 bs),
                       iv = take 16 (drop 32 bs)\<rparr>,
               header = header_of_bytes (take 16 (drop 48 bs)), wire_data = drop 64 bs\<rparr>
      else Inl OutOfBounds)"

subsection \<open>Header fields\<close>

definition get_aligned_len :: "u64 \<Rightarrow> u64" where
  "get_aligned_len len = (len + BLOCK_LEN - 1) AND (- BLOCK_LEN)"

definition header_get_alignment :: "header_t \<Rightarrow> u64" where
  "header_get_alignment h = ucast (alignment h)"

definition wire_get_alignment :: "wire_t \<Rightarrow> u64" where
  "wire_get_alignment w = header_get_alignment (header w)"

definition header_get_length :: "header_t \<Rightarrow> u64" where
  "header_get_length h = wire_pack64 (wire_len h)"

definition wire_get_length :: "wire_t \<Rightarrow> u64" where
  "wire_get_length w = header_get_length (header w)"

definition header_get_data_length :: "header_t \<Rightarrow> u64" where
  "header_get_data_length h = header_get_length h - sizeof_wire_t - header_get_alignment h"

definition header_get_aligned_data_length :: "header_t \<Rightarrow> u64" where
  "header_get_aligned_data_length h = header_get_length h - sizeof_wire_t"

definition wire_get_data_length :: "wire_t \<Rightarrow> u64" where
  "wire_get_data_length w = header_get_data_length (header w)"

definition wire_get_aligned_data_length :: "wire_t \<Rightarrow> u64" where
  "wire_get_aligned_data_length w = header_get_aligned_data_length (header w)"

definition wire_set_header :: "wire_t \<Rightarrow> header_t \<Rightarrow> wire_t" where
  "wire_set_header w h = w\<lparr>header := h\<rparr>"

definition wire_set_length :: "wire_t \<Rightarrow> u64 \<Rightarrow> wire_t" where
  "wire_set_length w len = w\<lparr>header := (header w)\<lparr>wire_len := wire_unpack64 len\<rparr>\<rparr>"

definition wire_set_alignment :: "wire_t \<Rightarrow> u64 \<Rightarrow> wire_t" where
  "wire_set_alignment w a = w\<lparr>header := (header w)\<lparr>alignment := ucast a\<rparr>\<rparr>"

definition header_set_signature :: "header_t \<Rightarrow> header_t" where
  "header_set_signature h = h\<lparr>signature := ascii ''-wire-''\<rparr>"

definition wire_set_signature :: "wire_t \<Rightarrow> wire_t" where
  "wire_set_signature w = w\<lparr>header := header_set_signature (header w)\<rparr>"

definition header_check_signature :: "header_t \<Rightarrow> bool" where
  "header_check_signature h \<longleftrightarrow> signature h = ascii ''-wire-''"

definition wire_check_signature :: "wire_t \<Rightarrow> bool" where
  "wire_check_signature w = header_check_signature (header w)"

definition wire_set_type :: "wire_t \<Rightarrow> wire_type_t \<Rightarrow> wire_t" where
  "wire_set_type w t = w\<lparr>header := (header w)\<lparr>hdr_type := word_of_int (wire_type_value t)\<rparr>\<rparr>"

definition wire_get_type :: "wire_t \<Rightarrow> int" where
  "wire_get_type w = uint (hdr_type (header w))"

definition wire_set_data :: "wire_t \<Rightarrow> byte list \<Rightarrow> wire_t" where
  "wire_set_data w bs = w\<lparr>wire_data := mem_write (wire_data w) 0 bs\<rparr>"

subsection \<open>Construction\<close>

definition xcalloc_wire :: "nat \<Rightarrow> wire_t" where
  "xcalloc_wire n =
     \<lparr>auth = \<lparr>mac_outer = replicate 16 0, mac_inner = replicate 16 0, iv = replicate 16 0\<rparr>,
      header = zero_header, wire_data = replicate (n - 64) 0\<rparr>"

definition alloc_wire :: wire_t where
  "alloc_wire = xcalloc_wire RECV_MAX_BYTES"

definition wire_auth_init_iv :: "byte list option \<Rightarrow> wire_t \<Rightarrow> bool \<times> wire_t" where
  "wire_auth_init_iv rand w =
     (case rand of
        None \<Rightarrow> (False, w)
      | Some r \<Rightarrow> (True, w\<lparr>auth := (auth w)\<lparr>iv := r\<rparr>\<rparr>))"

definition init_wire ::
  "byte list option \<Rightarrow> wire_type_t \<Rightarrow> byte list \<Rightarrow> u64 \<Rightarrow> (wire_t option \<times> u64) c_result" where
  "init_wire rand type data len =
     (if type = TYPE_ERROR then Inl OutOfBounds
      else
        let data_length = get_aligned_len len;
            align = data_length - len;
            wire_length = sizeof_wire_t + data_length;
            wire = xcalloc_wire (unat wire_length);
            (ok, wire) = wire_auth_init_iv rand wire
        in if \<not> ok then Inr (None, len)
           else if wire_length < sizeof_wire_t then Inl OutOfBounds
           else
             let wire = wire_set_signature wire;
                 wire = wire_set_alignment wire align;
                 wire = wire_set_length wire wire_length;
                 wire = wire_set_type wire type
             in c_bind (mem_read data 0 (unat len))
                  (\<lambda>bytes. if length (wire_data wire) < length bytes then Inl OutOfBounds
                           else Inr (Some (wire_set_data wire bytes), wire_length)))"

subsection \<open>Encryption\<close>

definition wire_gen_cmacs :: "aes128_t \<Rightarrow> wire_t \<Rightarrow> u64 \<Rightarrow> wire_t c_result" where
  "wire_gen_cmacs cmac w len =
     (let w = w\<lparr>auth := (auth w)\<lparr>mac_inner := aes128_cmac cmac (header_bytes (header w))\<rparr>\<rparr>
      in c_bind (mem_read (wire_bytes w) WIRE_OFFSET_MAC_INNER (unat (len - 16)))
           (\<lambda>msg. Inr (w\<lparr>auth := (auth w)\<lparr>mac_outer := aes128_cmac cmac msg\<rparr>\<rparr>)))"

definition encrypt_wire ::
  "wire_t option \<Rightarrow> byte list option \<Rightarrow> (bool \<times> wire_t option) c_result" where
  "encrypt_wire wire key =
     (case (wire, key) of
        (Some w, Some k) \<Rightarrow>
          let cipher = aes128_init (iv (auth w)) (drop CIPHER_OFFSET k);
              cmac = aes128_init_cmac (drop CMAC_OFFSET k);
              data_len = wire_get_aligned_data_length w;
              wire_len = wire_get_length w
          in c_bind (aes128_encrypt cipher (header_bytes (header w)) BLOCK_LEN) (\<lambda>(cipher, hdr).
             let w = w\<lparr>header := header_of_bytes hdr\<rparr>
             in c_bind (aes128_encrypt cipher (wire_data w) data_len) (\<lambda>(cipher, body).
                let w = w\<lparr>wire_data := body\<rparr>
                in c_bind (wire_gen_cmacs cmac w wire_len) (\<lambda>w. Inr (True, Some w))))
      | _ \<Rightarrow> Inr (False, wire))"

subsection \<open>Verification and decryption\<close>

definition wire_decrypt_header :: "aes128_t \<Rightarrow> wire_t \<Rightarrow> (aes128_t \<times> header_t) c_result" where
  "wire_decrypt_header aes128 w =
     c_bind (aes128_decrypt aes128 (header_bytes (header w)) BLOCK_LEN) (\<lambda>(aes128, hdr).
       let h = header_of_bytes hdr
       in Inr (aes128, if header_check_signature h then h else zero_header))"

definition wire_decrypt_data :: "aes128_t \<Rightarrow> wire_t \<Rightarrow> u64 \<Rightarrow> (aes128_t \<times> wire_t) c_result" where
  "wire_decrypt_data aes128 w len =
     c_bind (aes128_decrypt aes128 (wire_data w) len) (\<lambda>(aes128, body).
       Inr (aes128, w\<lparr>wire_data := body\<rparr>))"

definition wire_verify_outer_mac :: "aes128_t \<Rightarrow> wire_t \<Rightarrow> u64 \<Rightarrow> bool c_result" where
  "wire_verify_outer_mac aes128 w len =
     c_bind (mem_read (wire_bytes w) WIRE_OFFSET_MAC_INNER (unat (len - 16)))
       (\<lambda>msg. Inr (mac_outer (auth w) = aes128_cmac aes128 msg))"

definition wire_verify_inner_mac :: "aes128_t \<Rightarrow> wire_t \<Rightarrow> bool" where
  "wire_verify_inner_mac aes128 w \<longleftrightarrow> mac_inner (auth w) = aes128_cmac aes128 (header_bytes (header w))"

definition decrypt_wire_verified ::
  "aes128_t \<Rightarrow> aes128_t \<Rightarrow> wire_t \<Rightarrow> u64 \<Rightarrow> (bool \<times> wire_t) c_result" where
  "decrypt_wire_verified cipher cmac w len =
     c_bind (wire_decrypt_header cipher w) (\<lambda>(cipher, h).
       let wire_len = header_get_length h
       in if len \<noteq> wire_len then Inr (False, w)
          else
            let aligned_len = header_get_aligned_data_length h
            in c_bind (wire_verify_outer_mac cmac w wire_len) (\<lambda>ok.
               if \<not> ok then Inr (False, w)
               else c_bind (wire_decrypt_data cipher w aligned_len) (\<lambda>(cipher, w).
                    Inr (True, wire_set_header w h))))"

definition decrypt_wire ::
  "wire_t option \<Rightarrow> u64 \<Rightarrow> byte list \<Rightarrow> byte list option \<Rightarrow> (bool \<times> wire_t) c_result" where
  "decrypt_wire wire len key1 key2 =
     (case wire of
        None \<Rightarrow> Inl NullDeref
      | Some w \<Rightarrow>
          let cipher = aes128_init (iv (auth w)) (drop CIPHER_OFFSET key1);
              cmac = aes128_init_cmac (drop CMAC_OFFSET key1)
          in if wire_verify_inner_mac cmac w then decrypt_wire_verified cipher cmac w len
             else
               (case key2 of
                  None \<Rightarrow> Inr (False, w)
                | Some key \<Rightarrow>
                    let cipher = aes128_init (iv (auth w)) (drop CIPHER_OFFSET key);
                        cmac = aes128_init_cmac (drop CMAC_OFFSET key)
                    in if wire_verify_inner_mac cmac w then decrypt_wire_verified cipher cmac w len
                       else Inr (False, w)))"


subsection \<open>Layout\<close>

definition wf_header :: "header_t \<Rightarrow> bool" where
  "wf_header h \<longleftrightarrow> length (signature h) = 6 \<and> length (wire_len h) = 8"

definition wf_wire :: "wire_t \<Rightarrow> bool" where
  "wf_wire w \<longleftrightarrow>
     length (mac_outer (auth w)) = 16 \<and> length (mac_inner (auth w)) = 16 \<and>
     length (iv (auth w)) = 16 \<and> wf_header (header w)"

lemma length_header_bytes [layout]: "wf_header h \<Longrightarrow> length (header_bytes h) = 16"
  by (simp add: wf_header_def header_bytes_def)

lemma header_of_bytes_inverse [simp]: "wf_header h \<Longrightarrow> header_of_bytes (header_bytes h) = h"
  by (cases h) (simp add: wf_header_def header_bytes_def header_of_bytes_def nth_append)

lemma header_bytes_inverse [simp]:
  assumes "length bs = 16"
  shows "header_bytes (header_of_bytes bs) = bs"
proof -
  have "drop 14 bs = [bs ! 14, bs ! 15]"
    using assms by (simp add: list_eq_iff_nth_eq less_Suc_eq numeral_eq_Suc)
  then show ?thesis
    using take_drop_chain[of 8 6 bs] by (simp add: header_bytes_def header_of_bytes_def)
qed

lemma wf_header_of_bytes [simp]: "length bs = 16 \<Longrightarrow> wf_header (header_of_bytes bs)"
  by (simp add: wf_header_def header_of_bytes_def)

lemma length_wire_bytes [layout]: "wf_wire w \<Longrightarrow> length (wire_bytes w) = 64 + length (wire_data w)"
  by (simp add: wf_wire_def wire_bytes_def layout)

lemma wire_of_bytes_inverse: "wf_wire w \<Longrightarrow> wire_of_bytes (wire_bytes w) = Inr w"
  by (cases w; cases "auth w")
    (simp add: wire_of_bytes_def wire_bytes_def wf_wire_def length_header_bytes)

lemma wire_bytes_inverse: "wire_of_bytes bs = Inr w \<Longrightarrow> wire_bytes w = bs \<and> wf_wire w"
  using take_drop_chain[of 16 16 bs] take_drop_chain[of 16 32 bs] take_drop_chain[of 16 48 bs]
  by (auto simp: wire_of_bytes_def wire_bytes_def wf_wire_def split: if_splits)


subsection \<open>Alignment\<close>

lemma and_minus_16: "x AND (- 16) = push_bit 4 (drop_bit 4 x)" for x :: u64
proof -
  have "x AND NOT (mask 4) = push_bit 4 (drop_bit 4 x)"
    by (rule bit_word_eqI) (auto simp: bit_simps)
  moreover have "(- 16 :: u64) = NOT (mask 4)" by (simp add: mask_eq_exp_minus_1 not_eq_complement)
  ultimately show ?thesis by simp
qed

lemma unat_get_aligned_len:
  "unat (get_aligned_len len) = (unat len + 15) mod 2 ^ 64 div 16 * 16"
proof -
  have "unat (push_bit 4 (drop_bit 4 x)) = unat x div 16 * 16" for x :: u64
  proof -
    have t: "take_bit 64 (unat x) = unat x"
      using unsigned_less[of x, where 'a = nat] by (simp add: take_bit_nat_eq_self)
    have "unat x div 16 * 16 < 2 ^ 64" using unsigned_less[of x, where 'a = nat] by simp
    moreover have "unat (push_bit 4 (drop_bit 4 x)) = take_bit 64 (push_bit 4 (drop_bit 4 (unat x)))"
      by (simp only: unsigned_push_bit_eq unsigned_drop_bit_eq) (simp add: t)
    ultimately show ?thesis
      by (simp only: push_bit_eq_mult drop_bit_eq_div) (simp add: take_bit_nat_eq_self)
  qed
  moreover have "unat (len + 16 - 1) = (unat len + 15) mod 2 ^ 64"
  proof -
    have "len + 16 - 1 = len + 15" by simp
    then show ?thesis by (simp only: unat_word_ariths) simp
  qed
  ultimately show ?thesis by (simp only: get_aligned_len_def and_minus_16)
qed

lemma get_aligned_len_no_wrap:
  assumes "unat len \<le> 2 ^ 64 - 16"
  shows "unat (get_aligned_len len) = (unat len + 15) div 16 * 16"
proof -
  have "(unat len + 15) mod 2 ^ 64 = unat len + 15" using assms by simp
  then show ?thesis by (simp only: unat_get_aligned_len)
qed

subsection \<open>Initialisation\<close>

definition wire_ok :: "wire_t \<Rightarrow> bool" where
  "wire_ok w \<longleftrightarrow>
     wf_wire w \<and> header_check_signature (header w) \<and>
     unat (wire_get_length w) = 64 + length (wire_data w) \<and> 16 dvd length (wire_data w)"

lemma ucast_ucast_small: "unat x < 256 \<Longrightarrow> ucast (ucast x :: byte) = x" for x :: u64
  by (rule word_unat_eq_iff[THEN iffD2]) (simp add: unsigned_ucast_eq unsigned_take_bit_eq take_bit_nat_eq_self)

lemma init_wire_ok:
  assumes "type \<noteq> TYPE_ERROR" "length r = 16" "unat len = length data" "length data \<le> 2 ^ 64 - 80"
  shows "\<exists>w. init_wire (Some r) type data len = Inr (Some w, 64 + get_aligned_len len) \<and> wire_ok w \<and>
     wire_get_length w = 64 + get_aligned_len len \<and> iv (auth w) = r \<and>
     wire_get_type w = wire_type_value type \<and> wire_get_data_length w = len \<and>
     length (wire_data w) = unat (get_aligned_len len) \<and>
     wire_data w = data @ replicate (length (wire_data w) - length data) 0"
proof -
  define n where "n = unat (get_aligned_len len)"
  have n: "n = (length data + 15) div 16 * 16"
    unfolding n_def using assms(3,4) by (subst get_aligned_len_no_wrap) simp_all
  then have bnd: "length data \<le> n" "n < length data + 16" "16 dvd n" by auto
  have wl: "unat (64 + get_aligned_len len) = 64 + n"
    unfolding n_def using assms(4) bnd(2)[unfolded n_def] by (subst unat_add_lem[THEN iffD1]) simp_all
  have al: "get_aligned_len len - len = of_nat (n - length data)"
    using bnd(1) by (simp add: n_def flip: assms(3))
  have al2: "ucast (ucast (get_aligned_len len - len) :: byte) = get_aligned_len len - len"
    unfolding al using bnd(2) ucast_ucast_small[of "of_nat (n - length data)"]
    by (simp add: unat_of_nat take_bit_nat_eq_self)
  have ty: "uint (word_of_int (wire_type_value type) :: byte) = wire_type_value type"
    using assms(1) by (cases type) simp_all
  define w where "w = \<lparr>auth = \<lparr>mac_outer = replicate 16 0, mac_inner = replicate 16 0, iv = r\<rparr>,
      header = \<lparr>signature = ascii ''-wire-'', wire_len = wire_unpack64 (64 + get_aligned_len len),
                alignment = ucast (get_aligned_len len - len),
                hdr_type = word_of_int (wire_type_value type)\<rparr>,
      wire_data = data @ replicate (n - length data) 0\<rparr>"
  have "\<not> 64 + get_aligned_len len < 64" using wl by (simp add: word_less_nat_alt)
  then have "init_wire (Some r) type data len = Inr (Some w, 64 + get_aligned_len len)"
    using assms(1,3) bnd(1)
    by (simp add: init_wire_def xcalloc_wire_def wire_auth_init_iv_def Let_def wire_set_signature_def
        header_set_signature_def wire_set_alignment_def wire_set_length_def wire_set_type_def
        wire_set_data_def zero_header_def wl mem_write_def w_def)
  moreover have "wire_ok w"
    using assms(2) bnd by (simp add: wire_ok_def wf_wire_def wf_header_def w_def header_check_signature_def
        wire_get_length_def header_get_length_def wl)
  moreover have "wire_get_length w = 64 + get_aligned_len len" "iv (auth w) = r"
    "wire_get_type w = wire_type_value type" "wire_get_data_length w = len"
    "length (wire_data w) = n" "wire_data w = data @ replicate (length (wire_data w) - length data) 0"
    using bnd(1) ty by (simp_all add: w_def wire_get_length_def header_get_length_def wire_get_type_def
        wire_get_data_length_def header_get_data_length_def header_get_alignment_def al2)
  ultimately show ?thesis unfolding n_def by blast
qed


subsection \<open>Sealing and opening\<close>

abbreviation cipher_of :: "wire_t \<Rightarrow> byte list \<Rightarrow> aes128_t" where
  "cipher_of w key \<equiv> aes128_init (iv (auth w)) (drop CIPHER_OFFSET key)"

abbreviation cmac_of :: "byte list \<Rightarrow> aes128_t" where
  "cmac_of key \<equiv> aes128_init_cmac (drop CMAC_OFFSET key)"

lemma length_aes128_cmac [simp]: "length (aes128_cmac ctx msg) = 16"
  by (simp add: aes128_cmac_rfc4493 rfc4493_cmac_def Let_def)

lemma wire_gen_cmacs_verify:
  assumes "wf_wire w" "unat len = 64 + length (wire_data w)"
  shows "\<exists>w'. wire_gen_cmacs cmac w len = Inr w' \<and> wf_wire w' \<and>
     header w' = header w \<and> wire_data w' = wire_data w \<and> iv (auth w') = iv (auth w) \<and>
     wire_verify_inner_mac cmac w' \<and> wire_verify_outer_mac cmac w' len = Inr True"
proof -
  have l: "unat (len - 16) = 48 + length (wire_data w)"
    using assms(2) by (simp add: unat_sub word_le_nat_alt)
  show ?thesis
    using assms(1)
    by (simp add: wire_gen_cmacs_def wire_verify_inner_mac_def wire_verify_outer_mac_def Let_def
        wf_wire_def wire_bytes_def length_header_bytes l)
qed

lemma encrypt_wire_seals:
  assumes "wire_ok w"
  shows "\<exists>w'. encrypt_wire (Some w) (Some key) = Inr (True, Some w') \<and> wf_wire w' \<and>
     length (wire_data w') = length (wire_data w) \<and>
     wire_verify_inner_mac (cmac_of key) w' \<and>
     decrypt_wire_verified (cipher_of w' key) (cmac_of key) w' (wire_get_length w) =
       Inr (True, w\<lparr>auth := auth w'\<rparr>)"
proof -
  have ok: "wf_wire w" "header_check_signature (header w)"
    "unat (wire_get_length w) = 64 + length (wire_data w)" "16 dvd length (wire_data w)"
    using assms by (simp_all add: wire_ok_def)
  have hw: "wf_header (header w)" using ok(1) by (simp add: wf_wire_def)
  have al: "unat (wire_get_aligned_data_length w) = length (wire_data w)"
    using ok(3) by (simp add: wire_get_aligned_data_length_def header_get_aligned_data_length_def
        wire_get_length_def unat_sub word_le_nat_alt)
  have bl: "16 * blocks_for 16 = 16" "16 * blocks_for (wire_get_aligned_data_length w) = length (wire_data w)"
    using ok(4) al by (auto simp: blocks_for_def)
  have "length (ctx_iv (cipher_of w key)) = 16" using ok(1) by (simp add: aes128_init_def wf_wire_def)
  from aes128_decrypt_encrypt[OF this, of 16 "header_bytes (header w)"] hw bl(1)
  obtain c1 hdr where h: "aes128_encrypt (cipher_of w key) (header_bytes (header w)) 16 = Inr (c1, hdr)"
    "aes128_decrypt (cipher_of w key) hdr 16 = Inr (c1, header_bytes (header w))"
    "length hdr = 16" "length (ctx_iv c1) = 16" by (auto simp: length_header_bytes)
  from aes128_decrypt_encrypt[OF h(4), of "wire_get_aligned_data_length w" "wire_data w"] bl(2)
  obtain c2 body where b: "aes128_encrypt c1 (wire_data w) (wire_get_aligned_data_length w) = Inr (c2, body)"
    "aes128_decrypt c1 body (wire_get_aligned_data_length w) = Inr (c2, wire_data w)"
    "length body = length (wire_data w)" by auto
  define w1 where "w1 = w\<lparr>header := header_of_bytes hdr, wire_data := body\<rparr>"
  have w1: "wf_wire w1" "unat (wire_get_length w) = 64 + length (wire_data w1)"
    using ok(1,3) h(3) b(3) by (simp_all add: w1_def wf_wire_def)
  from wire_gen_cmacs_verify[OF this, of "cmac_of key"]
  obtain w' where w': "wire_gen_cmacs (cmac_of key) w1 (wire_get_length w) = Inr w'" "wf_wire w'"
    "header w' = header w1" "wire_data w' = body" "iv (auth w') = iv (auth w)"
    "wire_verify_inner_mac (cmac_of key) w'" "wire_verify_outer_mac (cmac_of key) w' (wire_get_length w) = Inr True"
    by (auto simp: w1_def)
  have "encrypt_wire (Some w) (Some key) = Inr (True, Some w')"
    using h(1) b(1) w'(1) by (simp add: encrypt_wire_def Let_def w1_def)
  moreover have "decrypt_wire_verified (cipher_of w' key) (cmac_of key) w' (wire_get_length w) =
       Inr (True, w\<lparr>auth := auth w'\<rparr>)"
    using h(2,3) b(2) w'(3,4,5,7) hw ok(2)
    by (simp add: decrypt_wire_verified_def wire_decrypt_header_def Let_def w1_def wire_decrypt_data_def
        wire_set_header_def wire_get_length_def wire_get_aligned_data_length_def)
  ultimately show ?thesis using w'(2,4,6) b(3) by auto
qed


lemma decrypt_wire_first_key:
  "wire_verify_inner_mac (cmac_of key1) w \<Longrightarrow>
     decrypt_wire (Some w) len key1 key2 = decrypt_wire_verified (cipher_of w key1) (cmac_of key1) w len"
  by (simp add: decrypt_wire_def)

lemma decrypt_wire_fallback:
  "\<not> wire_verify_inner_mac (cmac_of key1) w \<Longrightarrow> wire_verify_inner_mac (cmac_of key) w \<Longrightarrow>
     decrypt_wire (Some w) len key1 (Some key) =
     decrypt_wire_verified (cipher_of w key) (cmac_of key) w len"
  by (simp add: decrypt_wire_def)

lemma decrypt_wire_tried_key:
  assumes "decrypt_wire (Some w) len key1 key2 = Inr (b, w')"
  shows "(\<exists>key \<in> insert key1 (set_option key2). wire_verify_inner_mac (cmac_of key) w \<and>
            decrypt_wire_verified (cipher_of w key) (cmac_of key) w len = Inr (b, w')) \<or>
         (\<not> b \<and> w' = w)"
  using assms by (auto simp: decrypt_wire_def Let_def split: if_splits option.splits)

lemma unat_diff_wraps:
  "unat (len - k) = (if unat k \<le> unat len then unat len - unat k else 2 ^ 64 + unat len - unat k)"
  for len k :: u64
  using unat_sub_if'[of len k] by (auto split: if_splits)

lemma length_aes128_decrypt_loop:
  "aes128_decrypt_loop rk v chunk n = Inr (v', out) \<Longrightarrow> length v = 16 \<Longrightarrow>
     length out = length chunk \<and> length v' = 16"
proof (induction rk v chunk n arbitrary: v' out rule: aes128_decrypt_loop.induct)
  case (1 rk v chunk n)
  show ?case
  proof (cases "n = 0")
    case True
    with "1.prems" show ?thesis by (simp add: aes128_decrypt_loop.simps)
  next
    case False
    then have ge: "16 \<le> length chunk"
      using "1.prems"(1) by (auto simp: aes128_decrypt_loop.simps split: if_splits)
    with False "1.prems"(1) obtain rest where
      "aes128_decrypt_loop rk (take 16 chunk) (drop 16 chunk) (n - 16) = Inr (v', rest)"
      "out = xor128 (aes_xcrypt (take 16 chunk) rk True) v @ rest"
      by (subst (asm) aes128_decrypt_loop.simps) (auto simp: Let_def c_bind_eq_Inr)
    with "1.IH"[OF False _ refl refl, of v' rest] ge "1.prems"(2) show ?thesis
      by (simp add: xor128_def)
  qed
qed

lemma decrypt_wire_verified_result:
  assumes res: "decrypt_wire_verified cipher cmac w len = Inr (b, w')"
    and wf: "wf_wire w" "length (wire_data w) < 2 ^ 63" "length (ctx_iv cipher) = 16"
  shows "if b then wire_verify_outer_mac cmac w len = Inr True \<and> auth w' = auth w \<and>
              wf_header (header w') \<and> header_check_signature (header w') \<and>
              header_get_length (header w') = len \<and>
              64 \<le> unat len \<and> unat len \<le> 64 + length (wire_data w) \<and>
              length (wire_data w') = length (wire_data w)
         else w' = w"
proof (cases b)
  case False
  then show ?thesis using res
    by (auto simp: decrypt_wire_verified_def c_bind_eq_Inr Let_def split: if_splits)
next
  case True
  with res obtain c1 h c2 w2 where
    h: "wire_decrypt_header cipher w = Inr (c1, h)" "len = header_get_length h"
    and mac: "wire_verify_outer_mac cmac w len = Inr True"
    and dat: "wire_decrypt_data c1 w (header_get_aligned_data_length h) = Inr (c2, w2)"
    and w': "w' = w2\<lparr>header := h\<rparr>"
    by (auto simp: decrypt_wire_verified_def c_bind_eq_Inr Let_def wire_set_header_def split: if_splits)
  from h(1) obtain hdr where
    hdr: "aes128_decrypt cipher (header_bytes (header w)) 16 = Inr (c1, hdr)"
      "h = (if header_check_signature (header_of_bytes hdr) then header_of_bytes hdr else zero_header)"
    by (auto simp: wire_decrypt_header_def c_bind_eq_Inr Let_def)
  from dat obtain body where
    body: "aes128_decrypt c1 (wire_data w) (header_get_aligned_data_length h) = Inr (c2, body)"
      "w2 = w\<lparr>wire_data := body\<rparr>"
    by (auto simp: wire_decrypt_data_def c_bind_eq_Inr)
  from hdr(1) wf have lh: "length hdr = 16" "length (ctx_iv c1) = 16"
    by (auto simp: aes128_decrypt_def c_bind_eq_Inr wf_wire_def length_header_bytes
        dest!: length_aes128_decrypt_loop)
  from body(1) lh(2) have lb: "length body = length (wire_data w)"
    by (auto simp: aes128_decrypt_def c_bind_eq_Inr dest!: length_aes128_decrypt_loop)
  have "\<not> length (wire_data w) < 16 * blocks_for (len - 64)"
    using body(1) aes128_decrypt_short[of "wire_data w" "len - 64" c1]
    by (auto simp: header_get_aligned_data_length_def h(2))
  then have "unat (len - 64) \<le> length (wire_data w)"
    using blocks_for_bounds(1)[of "len - 64"] by linarith
  then have bnd: "64 \<le> unat len" "unat len \<le> 64 + length (wire_data w)"
    using wf(2) by (auto simp: unat_diff_wraps split: if_splits)
  then have "header_check_signature (header_of_bytes hdr)"
    using hdr(2) h(2) by (auto simp: zero_header_def header_get_length_def wire_pack64_def split: if_splits)
  with hdr(2) lh(1) have "h = header_of_bytes hdr" "wf_header h" "header_check_signature h" by simp_all
  with True mac w' body(2) lb bnd h(2) show ?thesis by simp
qed

subsection \<open>Properties\<close>

text \<open>\<^verbatim>\<open>get_aligned_len\<close> rounds up to the next multiple of the block length as long as
  the result fits in \<^verbatim>\<open>size_t\<close>; for the last fifteen lengths it wraps to zero.\<close>

lemma get_aligned_len_rounds_up:
  "if unat len \<le> 2 ^ 64 - 16
   then 16 dvd unat (get_aligned_len len) \<and> unat len \<le> unat (get_aligned_len len) \<and>
        unat (get_aligned_len len) < unat len + 16
   else get_aligned_len len = 0"
proof (cases "unat len \<le> 2 ^ 64 - 16")
  case True
  have "n \<le> (n + 15) div 16 * 16 \<and> (n + 15) div 16 * 16 < n + 16" for n :: nat by presburger
  with True show ?thesis by (simp add: get_aligned_len_no_wrap)
next
  case False
  have "(unat len + 15) mod 2 ^ 64 = unat len + 15 - 2 ^ 64"
    using False unsigned_less[of len, where 'a = nat] by (simp add: mod_if)
  then have "(unat len + 15) mod 2 ^ 64 div 16 = 0"
    using unsigned_less[of len, where 'a = nat] by simp
  then have "get_aligned_len len = 0" by (simp only: word_unat_eq_iff unat_get_aligned_len) simp
  with False show ?thesis by simp
qed

text \<open>C15: the envelope. A payload wrapped by \<^verbatim>\<open>init_wire\<close> and sealed by
  \<^verbatim>\<open>encrypt_wire\<close> is opened by \<^verbatim>\<open>decrypt_wire\<close> with the same key, whatever second
  key is offered: everything but the authentication section is back as
  \<^verbatim>\<open>init_wire\<close> built it, with the type, the payload and its length.\<close>

theorem wire_round_trip:
  assumes "type \<noteq> TYPE_ERROR" "length r = 16" "unat len = length payload"
    and "length payload \<le> 2 ^ 64 - 80"
  shows "\<exists>w n sealed.
     init_wire (Some r) type payload len = Inr (Some w, n) \<and> n = 64 + get_aligned_len len \<and>
     encrypt_wire (Some w) (Some key) = Inr (True, Some sealed) \<and>
     decrypt_wire (Some sealed) n key key2 = Inr (True, w\<lparr>auth := auth sealed\<rparr>) \<and>
     wire_get_type w = wire_type_value type \<and> wire_get_data_length w = len \<and>
     take (length payload) (wire_data w) = payload"
proof -
  obtain w where w: "init_wire (Some r) type payload len = Inr (Some w, 64 + get_aligned_len len)"
    "wire_ok w" "wire_get_length w = 64 + get_aligned_len len"
    "wire_get_type w = wire_type_value type" "wire_get_data_length w = len"
    "wire_data w = payload @ replicate (length (wire_data w) - length payload) 0"
    using init_wire_ok[OF assms] by blast
  obtain w' where "encrypt_wire (Some w) (Some key) = Inr (True, Some w')"
    "wire_verify_inner_mac (cmac_of key) w'"
    "decrypt_wire_verified (cipher_of w' key) (cmac_of key) w' (64 + get_aligned_len len) =
       Inr (True, w\<lparr>auth := auth w'\<rparr>)"
    using encrypt_wire_seals[OF w(2), of key] w(3) by auto
  moreover have "take (length payload) (wire_data w) = payload" by (subst w(6)) simp
  ultimately show ?thesis using w(1,4,5) decrypt_wire_first_key by metis
qed

theorem wire_round_trip_witness:
  "\<exists>w n sealed.
     init_wire (Some (replicate 16 7)) TYPE_TEXT [1, 2, 3] 3 = Inr (Some w, n) \<and>
     encrypt_wire (Some w) (Some (replicate 32 5)) = Inr (True, Some sealed) \<and>
     decrypt_wire (Some sealed) n (replicate 32 5) None = Inr (True, w\<lparr>auth := auth sealed\<rparr>) \<and>
     take (length [1, 2, 3 :: byte]) (wire_data w) = [1, 2, 3]"
  using wire_round_trip[of TYPE_TEXT "replicate 16 7" 3 "[1, 2, 3]" "replicate 32 5" None]
  by auto

text \<open>key fallback. A wire sealed under the second key is opened by
  \<^verbatim>\<open>decrypt_wire\<close> with that key, unless its inner MAC happens to verify under the
  first one.\<close>

lemma decrypt_wire_second_key:
  assumes "wire_ok w" "encrypt_wire (Some w) (Some key) = Inr (True, Some sealed)"
  shows "wire_verify_inner_mac (cmac_of key1) sealed \<or>
     decrypt_wire (Some sealed) (wire_get_length w) key1 (Some key) = Inr (True, w\<lparr>auth := auth sealed\<rparr>)"
  using encrypt_wire_seals[OF assms(1), of key] assms(2) decrypt_wire_fallback[of key1 sealed key]
  by (cases "wire_verify_inner_mac (cmac_of key1) sealed") auto

text \<open>C3: what \<^verbatim>\<open>decrypt_wire\<close> accepts. When it returns true, one of the two keys verified
  the inner MAC over the encrypted header and the outer MAC over the \<^verbatim>\<open>len - 16\<close> bytes
  from the inner MAC on, the decrypted header carries the signature and the very
  length that was received, and that length lies within the wire; when it returns
  false the wire is unchanged. The wire is an object of less than \<open>2 ^ 63\<close> bytes.\<close>

theorem decrypt_wire_authentic:
  assumes "decrypt_wire (Some w) len key1 key2 = Inr (ok, w')"
    and "wf_wire w" "length (wire_data w) < 2 ^ 63"
  shows "if ok
     then (\<exists>key \<in> insert key1 (set_option key2).
             wire_verify_inner_mac (cmac_of key) w \<and>
             wire_verify_outer_mac (cmac_of key) w len = Inr True) \<and>
          header_check_signature (header w') \<and> wire_get_length w' = len \<and>
          64 \<le> unat len \<and> unat len \<le> 64 + length (wire_data w) \<and>
          auth w' = auth w \<and> length (wire_data w') = length (wire_data w)
     else w' = w"
proof (cases ok)
  case True
  with decrypt_wire_tried_key[OF assms(1)] obtain key where
    key: "key \<in> insert key1 (set_option key2)" "wire_verify_inner_mac (cmac_of key) w"
      "decrypt_wire_verified (cipher_of w key) (cmac_of key) w len = Inr (True, w')" by auto
  have "length (ctx_iv (cipher_of w key)) = 16" using assms(2) by (simp add: aes128_init_def wf_wire_def)
  from decrypt_wire_verified_result[OF key(3) assms(2,3) this] key(1,2) True show ?thesis
    by (auto simp: wire_get_length_def)
next
  case False
  from decrypt_wire_tried_key[OF assms(1)] False
  consider key where "decrypt_wire_verified (cipher_of w key) (cmac_of key) w len = Inr (False, w')"
    | "w' = w" by auto
  then show ?thesis
  proof cases
    case 1
    have "length (ctx_iv (cipher_of w key)) = 16" using assms(2) by (simp add: aes128_init_def wf_wire_def)
    from decrypt_wire_verified_result[OF 1 assms(2,3) this] False show ?thesis by simp
  qed (use False in simp)
qed

theorem decrypt_wire_authentic_witness:
  "\<exists>w len w'. decrypt_wire (Some w) len (replicate 32 5) None = Inr (True, w') \<and> wf_wire w \<and>
     length (wire_data w) < 2 ^ 63 \<and>
     wire_verify_outer_mac (cmac_of (replicate 32 5)) w len = Inr True \<and> wire_get_length w' = len"
proof -
  obtain w where w: "wire_ok w" "length (wire_data w) < 2 ^ 63"
    using init_wire_ok[of TYPE_TEXT "replicate 16 7" 3 "[1, 2, 3]"]
    by (auto simp: get_aligned_len_no_wrap)
  obtain w' where w': "wf_wire w'" "length (wire_data w') < 2 ^ 63"
    "decrypt_wire (Some w') (wire_get_length w) (replicate 32 5) None = Inr (True, w\<lparr>auth := auth w'\<rparr>)"
    using encrypt_wire_seals[OF w(1), of "replicate 32 5"] w(2) decrypt_wire_first_key by fastforce
  from decrypt_wire_authentic[OF w'(3,1,2)] w' show ?thesis
    by (intro exI[of _ w'] exI[of _ "wire_get_length w"] exI[of _ "w\<lparr>auth := auth w'\<rparr>"]) simp
qed

end
