(* ===== verification/Net.thy ===== *)
theory Net
  imports Prelude
begin

text \<open>
  Blocking transfers over a socket: \<^verbatim>\<open>xsendall\<close> and \<^verbatim>\<open>xrecvall\<close> of
  \<^verbatim>\<open>common/xutils.c\<close> over \<^verbatim>\<open>xsend\<close> and \<^verbatim>\<open>xrecv\<close> of \<^verbatim>\<open>common/xplatform.c\<close>.

  \<^item> The receiving side of a socket is the list of what \<^verbatim>\<open>recv\<close> will see: a segment
    of bytes, or an error. After the list the peer has closed the connection and
    \<^verbatim>\<open>recv\<close> returns 0.
  \<^item> The sending side is the list of how \<^verbatim>\<open>send\<close> will answer, with the bytes it has
    taken so far; after the list it takes whatever it is given.
  \<^item> \<^verbatim>\<open>xrecvall\<close> gets the number \<open>cap\<close> of bytes the memory behind \<^verbatim>\<open>data\<close> has. Its loop
    is a partial function; a loop that never returns is the fault \<open>NonTermination\<close>.

  The locale \<open>byte_stream\<close> is what the layers above rely on.
\<close>

datatype recv_event = Segment "byte list" | RecvError

datatype send_event = Takes nat | SendError

record tx_t =
  plan :: "send_event list"
  sent :: "byte list"

fun xrecv :: "recv_event list \<Rightarrow> nat \<Rightarrow> int \<times> byte list \<times> recv_event list" where
  "xrecv [] len = (0, [], [])"
| "xrecv (RecvError # rx) len = (- 1, [], rx)"
| "xrecv (Segment bs # rx) len =
     (int (min len (length bs)), take len bs,
      if len < length bs then Segment (drop len bs) # rx else rx)"

fun xsend :: "tx_t \<Rightarrow> byte list \<Rightarrow> int \<times> tx_t" where
  "xsend tx data =
     (case plan tx of
        [] \<Rightarrow> (int (length data), tx\<lparr>sent := sent tx @ data\<rparr>)
      | SendError # p \<Rightarrow> (- 1, tx\<lparr>plan := p\<rparr>)
      | Takes n # p \<Rightarrow> (int (min n (length data)), tx\<lparr>plan := p, sent := sent tx @ take n data\<rparr>))"

declare xsend.simps [simp del]

partial_function (option) xrecvall_loop ::
  "recv_event list \<Rightarrow> nat \<Rightarrow> nat \<Rightarrow> byte list \<Rightarrow> (bool \<times> byte list \<times> recv_event list) c_result option"
where
  "xrecvall_loop rx cap len s =
     (if length s < len
      then case xrecv rx (len - length s) of (bytes_recv, bs, rx) \<Rightarrow>
             if cap < length s + length bs then Some (Inl OutOfBounds)
             else if bytes_recv = - 1 then Some (Inr (False, s, rx))
             else xrecvall_loop rx cap len (s @ bs)
      else Some (Inr (True, s, rx)))"

declare xrecvall_loop.simps [code]

definition xrecvall ::
  "recv_event list \<Rightarrow> nat \<Rightarrow> u64 \<Rightarrow> (bool \<times> byte list \<times> recv_event list) c_result" where
  "xrecvall rx cap len =
     (case xrecvall_loop rx cap (unat len) [] of None \<Rightarrow> Inl NonTermination | Some r \<Rightarrow> r)"

function xsendall :: "tx_t \<Rightarrow> byte list \<Rightarrow> bool \<times> tx_t" where
  "xsendall tx data =
     (if data = [] then (True, tx)
      else case xsend tx data of (bytes_sent, tx) \<Rightarrow>
             if bytes_sent = - 1 then (False, tx)
             else xsendall tx (drop (nat bytes_sent) data))"
  by auto
termination
  by (relation "measure (\<lambda>(tx, data). length (plan tx) + length data)")
    (auto simp: xsend.simps split: list.splits send_event.splits)

declare xsendall.simps [simp del]

subsection \<open>Receiving\<close>

fun rx_bytes :: "recv_event list \<Rightarrow> byte list" where
  "rx_bytes [] = []"
| "rx_bytes (RecvError # rx) = []"
| "rx_bytes (Segment bs # rx) = bs @ rx_bytes rx"

fun rx_fails :: "recv_event list \<Rightarrow> bool" where
  "rx_fails [] = False"
| "rx_fails (RecvError # rx) = True"
| "rx_fails (Segment bs # rx) = rx_fails rx"

lemma xrecvall_loop_done: "len \<le> length s \<Longrightarrow> xrecvall_loop rx cap len s = Some (Inr (True, s, rx))"
  by (subst xrecvall_loop.simps) simp

lemma xrecvall_loop_available:
  assumes "len \<le> length s + length (rx_bytes rx)" "len \<le> cap" "length s \<le> len"
  shows "\<exists>rx'. xrecvall_loop rx cap len s = Some (Inr (True, s @ take (len - length s) (rx_bytes rx), rx')) \<and>
               rx_bytes rx' = drop (len - length s) (rx_bytes rx) \<and> rx_fails rx' = rx_fails rx"
  using assms
proof (induction rx arbitrary: s rule: rx_bytes.induct)
  case 1
  then show ?case by (simp add: xrecvall_loop_done)
next
  case (2 rx)
  then show ?case by (simp add: xrecvall_loop_done)
next
  case (3 bs rx)
  show ?case
  proof (cases "length s < len")
    case False
    with 3 show ?thesis by (simp add: xrecvall_loop_done)
  next
    case True
    define n where "n = len - length s"
    have step: "xrecvall_loop (Segment bs # rx) cap len s =
        xrecvall_loop (if n < length bs then Segment (drop n bs) # rx else rx) cap len (s @ take n bs)"
    proof -
      have "\<not> cap < length s + length (take n bs)" using 3 by (simp add: n_def)
      with True show ?thesis by (subst xrecvall_loop.simps) (simp add: n_def)
    qed
    show ?thesis
    proof (cases "n < length bs")
      case True
      with 3 step show ?thesis by (simp add: xrecvall_loop_done n_def)
    next
      case False
      with 3 obtain rx' where
        "xrecvall_loop rx cap len (s @ bs) =
           Some (Inr (True, (s @ bs) @ take (len - length (s @ bs)) (rx_bytes rx), rx'))"
        "rx_bytes rx' = drop (len - length (s @ bs)) (rx_bytes rx)" "rx_fails rx' = rx_fails rx"
        using "3.IH"[of "s @ bs"] by (fastforce simp: n_def)
      with step False 3 show ?thesis by (simp add: n_def)
    qed
  qed
qed

lemma xrecvall_loop_error:
  assumes "length s + length (rx_bytes rx) < len" "len \<le> cap" "rx_fails rx"
  shows "\<exists>rx'. xrecvall_loop rx cap len s = Some (Inr (False, s @ rx_bytes rx, rx'))"
  using assms
proof (induction rx arbitrary: s rule: rx_bytes.induct)
  case (2 rx)
  then show ?case by (subst xrecvall_loop.simps) simp
next
  case (3 bs rx)
  then have "\<not> len - length s < length bs" by simp
  with 3 show ?case using "3.IH"[of "s @ bs"] by (subst xrecvall_loop.simps) simp
qed simp

lemma xrecvall_loop_closed:
  "xrecvall_loop rx cap len s = Some r \<Longrightarrow> length s + length (rx_bytes rx) < len \<Longrightarrow>
     len \<le> cap \<Longrightarrow> \<not> rx_fails rx \<Longrightarrow> False"
proof (induction rx cap len s r rule: xrecvall_loop.raw_induct[rotated, consumes 1, case_names step])
  case (step loop rx cap len s r)
  note IH = step(1) and eq = step(2) and prems = step(3-5)
  show ?case
  proof (cases rx rule: rx_bytes.cases)
    case 1
    with prems eq IH[of "[]" cap len s r] show ?thesis by (auto split: if_splits)
  next
    case (3 bs rx')
    with prems have "\<not> len - length s < length bs" by simp
    with 3 prems eq IH[of rx' cap len "s @ bs" r] show ?thesis by (auto split: if_splits)
  qed (use prems in simp)
qed

lemma xrecvall_loop_overflow:
  assumes "cap < len" "cap < length s + length (rx_bytes rx)" "length s \<le> cap"
  shows "xrecvall_loop rx cap len s = Some (Inl OutOfBounds)"
  using assms
proof (induction rx arbitrary: s rule: rx_bytes.induct)
  case (3 bs rx)
  show ?case
  proof (cases "cap < length s + length bs")
    case True
    then have "cap < length s + length (take (len - length s) bs)" using 3 by simp
    with 3 show ?thesis by (subst xrecvall_loop.simps) simp
  next
    case False
    then have "\<not> len - length s < length bs" using 3 by simp
    with False 3 show ?thesis using "3.IH"[of "s @ bs"] by (subst xrecvall_loop.simps) simp
  qed
qed simp_all

lemma xrecvall_overflow:
  "cap < unat len \<Longrightarrow> cap < length (rx_bytes rx) \<Longrightarrow> xrecvall rx cap len = Inl OutOfBounds"
  using xrecvall_loop_overflow[of cap "unat len" "[]" rx] by (simp add: xrecvall_def)

lemma xrecvall_available:
  assumes "unat len \<le> length (rx_bytes rx)" "unat len \<le> cap"
  shows "\<exists>rx'. xrecvall rx cap len = Inr (True, take (unat len) (rx_bytes rx), rx') \<and>
               rx_bytes rx' = drop (unat len) (rx_bytes rx) \<and> rx_fails rx' = rx_fails rx"
  using xrecvall_loop_available[of "unat len" "[]" rx cap] assms by (auto simp: xrecvall_def)

lemma xrecvall_error:
  assumes "length (rx_bytes rx) < unat len" "unat len \<le> cap" "rx_fails rx"
  shows "\<exists>rx'. xrecvall rx cap len = Inr (False, rx_bytes rx, rx')"
  using xrecvall_loop_error[of "[]" rx "unat len" cap] assms by (auto simp: xrecvall_def)

lemma xrecvall_closed:
  assumes "length (rx_bytes rx) < unat len" "unat len \<le> cap" "\<not> rx_fails rx"
  shows "xrecvall rx cap len = Inl NonTermination"
  using xrecvall_loop_closed[of rx cap "unat len" "[]"] assms
  by (cases "xrecvall_loop rx cap (unat len) []") (auto simp: xrecvall_def)

subsection \<open>Sending\<close>

lemma xsendall_prefix:
  "\<exists>n \<le> length data. sent (snd (xsendall tx data)) = sent tx @ take n data \<and>
     (fst (xsendall tx data) \<longleftrightarrow> n = length data) \<and>
     (SendError \<in> set (plan tx) \<or> fst (xsendall tx data))"
proof (induction tx data rule: xsendall.induct)
  case (1 tx data)
  consider (empty) "data = []" | (full) "data \<noteq> []" "plan tx = []"
    | (err) p where "data \<noteq> []" "plan tx = SendError # p"
    | (part) k p where "data \<noteq> []" "plan tx = Takes k # p"
    by (metis send_event.exhaust list.exhaust)
  then show ?case
  proof cases
    case part
    define tx' where "tx' = tx\<lparr>plan := p, sent := sent tx @ take k data\<rparr>"
    have x: "xsend tx data = (int (min k (length data)), tx')" by (simp add: xsend.simps part tx'_def)
    then have eq: "xsendall tx data = xsendall tx' (drop k data)"
      using part(1) by (subst xsendall.simps) (simp add: min_def)
    have d: "drop (nat (int (min k (length data)))) data = drop k data" by (simp add: min_def)
    from "1.IH"[OF part(1) x[symmetric], unfolded d] obtain n where n: "n \<le> length data - k"
      "sent (snd (xsendall tx' (drop k data))) = sent tx' @ take n (drop k data)"
      "fst (xsendall tx' (drop k data)) \<longleftrightarrow> n = length data - k"
      "SendError \<in> set (plan tx') \<or> fst (xsendall tx' (drop k data))" by auto
    show ?thesis
      unfolding eq using n part(2) take_add[of k n data]
      by (intro exI[of _ "min k (length data) + n"]) (auto simp: tx'_def min_def)
  next
    case empty
    then have "xsendall tx data = (True, tx)" by (subst xsendall.simps) simp
    with empty show ?thesis by simp
  next
    case full
    then have "xsendall tx data = (True, tx\<lparr>sent := sent tx @ data\<rparr>)"
      by (subst xsendall.simps) (simp add: xsend.simps xsendall.simps[of _ "[]"])
    then show ?thesis by (intro exI[of _ "length data"]) simp
  next
    case err
    then have "xsendall tx data = (False, tx\<lparr>plan := p\<rparr>)"
      by (subst xsendall.simps) (simp add: xsend.simps)
    with err show ?thesis by (intro exI[of _ 0]) simp
  qed
qed

subsection \<open>The stream contract\<close>

locale byte_stream =
  fixes put :: "'tx \<Rightarrow> byte list \<Rightarrow> bool \<times> 'tx"
    and taken :: "'tx \<Rightarrow> byte list"
    and get :: "'rx \<Rightarrow> nat \<Rightarrow> u64 \<Rightarrow> (bool \<times> byte list \<times> 'rx) c_result"
    and avail :: "'rx \<Rightarrow> byte list"
  assumes put_taken: "put tx bs = (True, tx') \<Longrightarrow> taken tx' = taken tx @ bs"
    and get_avail: "unat n \<le> length (avail rx) \<Longrightarrow> unat n \<le> cap \<Longrightarrow>
      \<exists>rx'. get rx cap n = Inr (True, take (unat n) (avail rx), rx') \<and> avail rx' = drop (unat n) (avail rx)"
begin

lemma get_prefix:
  assumes "avail rx = bs @ rest" "unat n = length bs" "length bs \<le> cap"
  shows "\<exists>rx'. get rx cap n = Inr (True, bs, rx') \<and> avail rx' = rest"
  using get_avail[of n rx cap] assms by auto

lemma get_head_body:
  assumes "avail rx = hd_bytes @ body @ rest"
    and "unat n = length hd_bytes" "length hd_bytes \<le> cap1" "unat m = length body" "length body \<le> cap2"
  shows "\<exists>rx1 rx2. get rx cap1 n = Inr (True, hd_bytes, rx1) \<and> get rx1 cap2 m = Inr (True, body, rx2) \<and>
                   avail rx2 = rest"
  using get_prefix[OF assms(1-3)] get_prefix[of _ body rest m cap2] assms(4,5) by blast

lemma put_get:
  assumes "put tx bs = (True, tx')" "avail rx = drop (length (taken tx)) (taken tx') @ rest"
    and "unat n = length bs" "length bs \<le> cap"
  shows "\<exists>rx'. get rx cap n = Inr (True, bs, rx') \<and> avail rx' = rest"
  using put_taken[OF assms(1)] assms(2-4) by (intro get_prefix) simp_all

end

interpretation sock: byte_stream xsendall sent xrecvall rx_bytes
proof unfold_locales
  fix tx tx' bs
  assume "xsendall tx bs = (True, tx')"
  then show "sent tx' = sent tx @ bs" using xsendall_prefix[of bs tx] by auto
qed (use xrecvall_available in blast)

subsection \<open>Properties\<close>

text \<open>C35: \<^verbatim>\<open>xrecvall\<close> into a large enough buffer. However the bytes are segmented, it returns
  true with exactly the next \<^verbatim>\<open>len\<close> bytes and leaves the rest in the socket when
  that many bytes arrive; it returns false when \<^verbatim>\<open>recv\<close> reports an error first; and
  when the peer closes the connection first it never returns.\<close>

theorem xrecvall_outcomes:
  assumes "unat len \<le> cap"
  shows "if unat len \<le> length (rx_bytes rx)
     then \<exists>rx'. xrecvall rx cap len = Inr (True, take (unat len) (rx_bytes rx), rx') \<and>
                rx_bytes rx' = drop (unat len) (rx_bytes rx)
     else if rx_fails rx then \<exists>rx'. xrecvall rx cap len = Inr (False, rx_bytes rx, rx')
     else xrecvall rx cap len = Inl NonTermination"
  using assms xrecvall_available[of len rx cap] xrecvall_error[of rx len cap] xrecvall_closed[of rx len cap]
  by auto

theorem xrecvall_outcomes_witness:
  "unat (3 :: u64) \<le> 8 \<and>
   (\<exists>rx'. xrecvall [Segment [1], Segment [2, 3, 4]] 8 3 = Inr (True, [1, 2, 3], rx') \<and> rx_bytes rx' = [4]) \<and>
   (\<exists>rx'. xrecvall [Segment [1], RecvError] 8 3 = Inr (False, [1], rx')) \<and>
   xrecvall [Segment [1]] 8 3 = Inl NonTermination"
  using xrecvall_outcomes[of 3 8 "[Segment [1], Segment [2, 3, 4]]"]
    xrecvall_outcomes[of 3 8 "[Segment [1], RecvError]"] xrecvall_outcomes[of 3 8 "[Segment [1]]"]
  by simp

text \<open>C36: \<^verbatim>\<open>xsendall\<close> always returns; the bytes it handed to the socket are a prefix of the
  data, the whole of it exactly when it returns true; and it returns true unless
  \<^verbatim>\<open>send\<close> reports an error.\<close>

theorem xsendall_outcomes:
  "\<exists>ok tx' n. xsendall tx data = (ok, tx') \<and> sent tx' = sent tx @ take n data \<and>
     n \<le> length data \<and> (ok \<longleftrightarrow> n = length data) \<and> (SendError \<in> set (plan tx) \<or> ok)"
  using xsendall_prefix[of data tx] by (metis prod.collapse)

end
