(* ===== verification/Cable.thy ===== *)
theory Cable
  imports Wire Net
begin

text \<open>
  \<^verbatim>\<open>common/cable.c\<close>: the length-prefixed frame that carries a wire over a socket.
  A cable is the memory behind the pointer: six bytes of signature, eight bytes of
  length, then the wire. Every access is checked against the size of the
  allocation, because \<^verbatim>\<open>cable_recv_remaining\<close> sizes it by a number off the network.
  The bytes \<^verbatim>\<open>xrealloc\<close> adds are unspecified; they are written as zero here and
  overwritten before they are read. Asked for no bytes at all, \<^verbatim>\<open>realloc\<close> frees the
  block and returns the null pointer, on which \<^verbatim>\<open>xrealloc\<close> frees it and exits; a request
  of another size is taken to succeed.
\<close>

type_synonym cable_t = "byte list"

abbreviation (input) sizeof_cable_header_t :: nat where "sizeof_cable_header_t \<equiv> 14"
abbreviation (input) CABLE_OFFSET_LEN :: nat where "CABLE_OFFSET_LEN \<equiv> 6"
abbreviation (input) CABLE_OFFSET_DATA :: nat where "CABLE_OFFSET_DATA \<equiv> 14"

definition alloc_cable :: cable_t where
  "alloc_cable = replicate sizeof_cable_header_t 0"

definition cable_set_signature :: "cable_t \<Rightarrow> cable_t c_result" where
  "cable_set_signature cable = mem_store cable 0 (ascii ''parcel'')"

definition cable_set_len :: "cable_t \<Rightarrow> u64 \<Rightarrow> cable_t c_result" where
  "cable_set_len cable len = mem_store cable CABLE_OFFSET_LEN (wire_unpack64 len)"

definition cable_set_data :: "cable_t \<Rightarrow> byte list \<Rightarrow> u64 \<Rightarrow> cable_t c_result" where
  "cable_set_data cable data len =
     c_bind (mem_read data 0 (unat len)) (mem_store cable CABLE_OFFSET_DATA)"

definition cable_get_total_len :: "cable_t \<Rightarrow> u64 c_result" where
  "cable_get_total_len cable =
     c_bind (mem_read cable CABLE_OFFSET_LEN 8) (\<lambda>len. Inr (wire_pack64 len))"

definition cable_get_payload_len :: "cable_t \<Rightarrow> u64 c_result" where
  "cable_get_payload_len cable = c_bind (cable_get_total_len cable) (\<lambda>len. Inr (len - 14))"

definition cable_check_signature :: "cable_t \<Rightarrow> bool c_result" where
  "cable_check_signature cable = c_bind (mem_read cable 0 6) (\<lambda>s. Inr (s = ascii ''parcel''))"

definition xrealloc :: "byte list \<Rightarrow> nat \<Rightarrow> byte list c_result" where
  "xrealloc mem len =
     (if len = 0 then Inl Exited else Inr (take len mem @ replicate (len - length mem) 0))"

definition cable_recv_remaining ::
  "recv_event list \<Rightarrow> cable_t \<Rightarrow> (bool \<times> cable_t \<times> recv_event list) c_result" where
  "cable_recv_remaining sock cable =
     c_bind (cable_get_total_len cable) (\<lambda>cable_size.
     c_bind (xrealloc cable (unat cable_size)) (\<lambda>cable.
       let remaining = cable_size - 14
       in c_bind (xrecvall sock (length cable - CABLE_OFFSET_DATA) remaining) (\<lambda>(ok, bytes, sock).
            Inr (ok, mem_write cable CABLE_OFFSET_DATA bytes, sock))))"

definition cable_recv_data ::
  "recv_event list \<Rightarrow> cable_t \<Rightarrow> (u64 \<times> cable_t \<times> recv_event list) c_result" where
  "cable_recv_data sock cable =
     c_bind (cable_check_signature cable) (\<lambda>valid.
       if \<not> valid then Inr (0, cable, sock)
       else c_bind (cable_recv_remaining sock cable) (\<lambda>(ok, cable, sock).
         if \<not> ok then c_bind (cable_get_payload_len cable) (\<lambda>exp. Inr (0, cable, sock))
         else c_bind (cable_get_total_len cable) (\<lambda>len. Inr (len, cable, sock))))"

definition cable_recv_header ::
  "recv_event list \<Rightarrow> cable_t \<Rightarrow> (bool \<times> cable_t \<times> recv_event list) c_result" where
  "cable_recv_header sock cable =
     c_bind (xrecvall sock (length cable) 14) (\<lambda>(ok, bytes, sock).
       Inr (ok, mem_write cable 0 bytes, sock))"

definition recv_cable :: "recv_event list \<Rightarrow> ((cable_t \<times> u64) option \<times> recv_event list) c_result" where
  "recv_cable sock =
     c_bind (cable_recv_header sock alloc_cable) (\<lambda>(ok, cable, sock).
       if \<not> ok then Inr (None, sock)
       else c_bind (cable_check_signature cable) (\<lambda>valid.
         if \<not> valid then Inr (None, sock)
         else c_bind (cable_recv_remaining sock cable) (\<lambda>(ok, cable, sock).
           if \<not> ok then c_bind (cable_get_payload_len cable) (\<lambda>exp. Inr (None, sock))
           else c_bind (cable_get_total_len cable) (\<lambda>cable_length.
             Inr (Some (cable, cable_length), sock)))))"

definition init_cable :: "byte list \<Rightarrow> u64 \<Rightarrow> (cable_t \<times> u64) c_result" where
  "init_cable wire len =
     (let cable_length = 14 + len;
          cable = replicate (unat cable_length) 0
      in c_bind (cable_set_signature cable) (\<lambda>cable.
         c_bind (cable_set_len cable cable_length) (\<lambda>cable.
         c_bind (cable_set_data cable wire len) (\<lambda>cable. Inr (cable, cable_length)))))"

definition get_cabled_wire :: "cable_t \<Rightarrow> (byte list \<times> u64) c_result" where
  "get_cabled_wire cable =
     c_bind (cable_get_payload_len cable) (\<lambda>len. Inr (drop CABLE_OFFSET_DATA cable, len))"

definition transmit_cabled_wire ::
  "tx_t \<Rightarrow> wire_t option \<Rightarrow> byte list option \<Rightarrow> (bool \<times> wire_t \<times> tx_t) c_result" where
  "transmit_cabled_wire sock wire key =
     (case wire of
        None \<Rightarrow> Inl NullDeref
      | Some w \<Rightarrow>
          let len = wire_get_length w
          in c_bind (encrypt_wire (Some w) key) (\<lambda>(sealed, wire').
             let w = (case wire' of None \<Rightarrow> w | Some w' \<Rightarrow> w')
             in c_bind (init_cable (wire_bytes w) len) (\<lambda>(cable, len).
                c_bind (mem_read cable 0 (unat len)) (\<lambda>bytes.
                let (ok, sock) = xsendall sock bytes in Inr (ok, w, sock)))))"

subsection \<open>Framing\<close>

lemma init_cable_bytes:
  assumes "unat len \<le> length wire" "unat len + 14 < 2 ^ 64"
  shows "init_cable wire len =
     Inr (ascii ''parcel'' @ wire_unpack64 (14 + len) @ take (unat len) wire, 14 + len)"
proof -
  have n: "unat (14 + len) = 14 + unat len"
    using assms(2) by (subst unat_add_lem[THEN iffD1]) simp_all
  show ?thesis
    using assms(1)
    by (simp add: init_cable_def Let_def n cable_set_signature_def cable_set_len_def cable_set_data_def
        mem_write_def)
qed

lemma recv_cable_frame:
  assumes "rx_bytes rx = ascii ''parcel'' @ wire_unpack64 n @ body @ rest" "unat n = 14 + length body"
  shows "\<exists>rx'. recv_cable rx = Inr (Some (ascii ''parcel'' @ wire_unpack64 n @ body, n), rx') \<and>
               rx_bytes rx' = rest"
proof -
  have m: "unat (n - 14) = length body" using assms(2) by (simp add: unat_sub word_le_nat_alt)
  obtain rx1 rx2 where
    "xrecvall rx 14 14 = Inr (True, ascii ''parcel'' @ wire_unpack64 n, rx1)"
    "xrecvall rx1 (length body) (n - 14) = Inr (True, body, rx2)" "rx_bytes rx2 = rest"
    using sock.get_head_body[of rx "ascii ''parcel'' @ wire_unpack64 n" body rest 14 14 "n - 14" "length body"]
      assms m by auto
  then show ?thesis
    using assms(2)
    by (simp add: recv_cable_def cable_recv_header_def alloc_cable_def cable_check_signature_def
        cable_recv_remaining_def cable_get_total_len_def xrealloc_def mem_write_def Let_def)
qed

lemma get_cabled_wire_frame:
  "get_cabled_wire (ascii ''parcel'' @ wire_unpack64 n @ body) = Inr (body, n - 14)"
  by (simp add: get_cabled_wire_def cable_get_payload_len_def cable_get_total_len_def)

lemma recv_cable_bad_header:
  assumes "rx_bytes rx = hdr @ rest" "length hdr = 14" "take 6 hdr \<noteq> ascii ''parcel''"
  shows "\<exists>rx'. recv_cable rx = Inr (None, rx') \<and> rx_bytes rx' = rest"
  using sock.get_prefix[of rx hdr rest 14 14] assms
  by (auto simp: recv_cable_def cable_recv_header_def alloc_cable_def cable_check_signature_def mem_write_def)


lemma transmit_cabled_wire_eq:
  assumes "wire_ok w" "unat (wire_get_length w) + 14 < 2 ^ 64"
  shows "\<exists>sealed. encrypt_wire (Some w) (Some key) = Inr (True, Some sealed) \<and>
    length (wire_bytes sealed) = unat (wire_get_length w) \<and>
    transmit_cabled_wire tx (Some w) (Some key) =
      (let (ok, tx') = xsendall tx (ascii ''parcel'' @ wire_unpack64 (14 + wire_get_length w) @ wire_bytes sealed)
       in Inr (ok, sealed, tx'))"
proof -
  obtain w' where w': "encrypt_wire (Some w) (Some key) = Inr (True, Some w')" "wf_wire w'"
    "length (wire_data w') = length (wire_data w)"
    using encrypt_wire_seals[OF assms(1), of key] by blast
  have len: "length (wire_bytes w') = unat (wire_get_length w)"
    using assms(1) w'(2,3) by (simp add: length_wire_bytes wire_ok_def)
  have n: "unat (14 + wire_get_length w) = 14 + unat (wire_get_length w)"
    using assms(2) by (subst unat_add_lem[THEN iffD1]) simp_all
  show ?thesis
    using w'(1) init_cable_bytes[of "wire_get_length w" "wire_bytes w'"] assms(2)
    by (simp add: transmit_cabled_wire_def Let_def len n)
qed

lemma transmit_cabled_wire_sent:
  assumes "wire_ok w" "unat (wire_get_length w) + 14 < 2 ^ 64"
    and "transmit_cabled_wire tx (Some w) (Some key) = Inr (True, sealed, tx')"
  shows "encrypt_wire (Some w) (Some key) = Inr (True, Some sealed) \<and>
    sent tx' = sent tx @ ascii ''parcel'' @ wire_unpack64 (14 + wire_get_length w) @ wire_bytes sealed \<and>
    length (wire_bytes sealed) = unat (wire_get_length w)"
proof -
  let ?frame = "\<lambda>s. ascii ''parcel'' @ wire_unpack64 (14 + wire_get_length w) @ wire_bytes s"
  from transmit_cabled_wire_eq[OF assms(1,2), of key tx] assms(3)
  have "encrypt_wire (Some w) (Some key) = Inr (True, Some sealed)"
    "length (wire_bytes sealed) = unat (wire_get_length w)"
    "xsendall tx (?frame sealed) = (True, tx')" by (auto simp: prod.case_eq_if prod_eq_iff)
  with sock.put_taken[of tx "?frame sealed" tx'] show ?thesis by simp
qed

subsection \<open>Properties\<close>

text \<open>framing. Whatever way the bytes are cut into segments, \<^verbatim>\<open>recv_cable\<close> takes from the
  stream exactly the cable that \<^verbatim>\<open>init_cable\<close> built and leaves what follows it, and
  \<^verbatim>\<open>get_cabled_wire\<close> finds the wire in it with its length.\<close>

lemma cable_round_trip:
  assumes "unat len \<le> length wire" "unat len + 14 < 2 ^ 64"
    and "init_cable wire len = Inr (cable, n)" "rx_bytes rx = cable @ rest"
  shows "\<exists>rx'. recv_cable rx = Inr (Some (cable, n), rx') \<and> rx_bytes rx' = rest \<and>
               get_cabled_wire cable = Inr (take (unat len) wire, len)"
proof -
  have n: "unat (14 + len) = 14 + unat len"
    using assms(2) by (subst unat_add_lem[THEN iffD1]) simp_all
  have c: "cable = ascii ''parcel'' @ wire_unpack64 (14 + len) @ take (unat len) wire" "n = 14 + len"
    using init_cable_bytes[OF assms(1,2)] assms(3) by auto
  show ?thesis
    using recv_cable_frame[of rx "14 + len" "take (unat len) wire" rest] assms(1,4) n
      get_cabled_wire_frame[of "14 + len" "take (unat len) wire"]
    by (auto simp: c)
qed

text \<open>C2: delivery, end to end. A well-formed wire that \<^verbatim>\<open>transmit_cabled_wire\<close> reports as
  sent is received by \<^verbatim>\<open>recv_cable\<close> from any segmentation of the sent bytes, and
  \<^verbatim>\<open>decrypt_wire\<close> with the sender's key restores its header and data.\<close>

theorem transmitted_wire_is_received:
  assumes "wire_ok w" "unat (wire_get_length w) + 14 < 2 ^ 64"
    and "transmit_cabled_wire tx (Some w) (Some key) = Inr (True, sealed, tx')"
    and "rx_bytes rx = drop (length (sent tx)) (sent tx') @ rest"
  shows "\<exists>cable n rx' bytes len.
     recv_cable rx = Inr (Some (cable, n), rx') \<and> rx_bytes rx' = rest \<and>
     get_cabled_wire cable = Inr (bytes, len) \<and> wire_of_bytes bytes = Inr sealed \<and>
     decrypt_wire (Some sealed) len key key2 = Inr (True, w\<lparr>auth := auth sealed\<rparr>)"
proof -
  define n where "n = 14 + wire_get_length w"
  have s: "encrypt_wire (Some w) (Some key) = Inr (True, Some sealed)"
    "sent tx' = sent tx @ ascii ''parcel'' @ wire_unpack64 n @ wire_bytes sealed"
    "length (wire_bytes sealed) = unat (wire_get_length w)"
    using transmit_cabled_wire_sent[OF assms(1-3)] by (simp_all add: n_def)
  obtain rx' where "recv_cable rx = Inr (Some (ascii ''parcel'' @ wire_unpack64 n @ wire_bytes sealed, n), rx')"
    "rx_bytes rx' = rest"
    using recv_cable_frame[of rx n "wire_bytes sealed" rest] assms(2,4) s(2,3)
    by (auto simp: n_def unat_add_lem[THEN iffD1])
  moreover have "wf_wire sealed \<and> wire_verify_inner_mac (cmac_of key) sealed \<and>
      decrypt_wire_verified (cipher_of sealed key) (cmac_of key) sealed (wire_get_length w) =
        Inr (True, w\<lparr>auth := auth sealed\<rparr>)"
    using encrypt_wire_seals[OF assms(1), of key] s(1) by auto
  ultimately show ?thesis
    using get_cabled_wire_frame[of n "wire_bytes sealed"] wire_of_bytes_inverse decrypt_wire_first_key
    by (fastforce simp: n_def)
qed

theorem transmitted_wire_is_received_witness:
  "\<exists>w tx tx' sealed rx cable n rx' bytes len. wire_ok w \<and>
     transmit_cabled_wire tx (Some w) (Some (replicate 32 5)) = Inr (True, sealed, tx') \<and>
     rx_bytes rx = drop (length (sent tx)) (sent tx') \<and>
     recv_cable rx = Inr (Some (cable, n), rx') \<and> get_cabled_wire cable = Inr (bytes, len) \<and>
     wire_of_bytes bytes = Inr sealed \<and>
     decrypt_wire (Some sealed) len (replicate 32 5) None = Inr (True, w\<lparr>auth := auth sealed\<rparr>)"
proof -
  obtain w where w: "wire_ok w" "length (wire_data w) = 16"
    using init_wire_ok[of TYPE_TEXT "replicate 16 7" 3 "[1, 2, 3]"] by (auto simp: get_aligned_len_no_wrap)
  then have len: "unat (wire_get_length w) + 14 < 2 ^ 64" by (simp add: wire_ok_def)
  define tx where "tx = \<lparr>plan = [Takes 5], sent = []\<rparr>"
  have "fst (xsendall tx bs)" for bs using xsendall_prefix[of bs tx] by (auto simp: tx_def)
  with transmit_cabled_wire_eq[OF w(1) len, of "replicate 32 5" tx] obtain sealed tx' where
    t: "transmit_cabled_wire tx (Some w) (Some (replicate 32 5)) = Inr (True, sealed, tx')"
    by (auto simp: prod.case_eq_if)
  have "rx_bytes [Segment (drop (length (sent tx)) (sent tx'))] = drop (length (sent tx)) (sent tx') @ []"
    by simp
  from transmitted_wire_is_received[OF w(1) len t this, of None] w(1) t show ?thesis
    by (metis append_Nil2 rx_bytes.simps(1,3))
qed

text \<open>a frame without the signature is refused after exactly its fourteen header bytes.\<close>

lemma recv_cable_checks_signature:
  assumes "rx_bytes rx = hdr @ rest" "length hdr = 14" "take 6 hdr \<noteq> ascii ''parcel''"
  shows "\<exists>rx'. recv_cable rx = Inr (None, rx') \<and> rx_bytes rx' = rest"
  using assms by (rule recv_cable_bad_header)

text \<open>A frame whose length field is zero ends the program in \<^verbatim>\<open>xrealloc\<close>.\<close>

lemma recv_cable_zero_length_exits:
  assumes "rx_bytes rx = ascii ''parcel'' @ wire_unpack64 0 @ rest"
  shows "recv_cable rx = Inl Exited"
proof -
  obtain rx1 where "xrecvall rx 14 14 = Inr (True, ascii ''parcel'' @ wire_unpack64 0, rx1)"
    using sock.get_prefix[of rx "ascii ''parcel'' @ wire_unpack64 0" rest 14 14] assms by auto
  then show ?thesis
    by (simp add: recv_cable_def cable_recv_header_def alloc_cable_def cable_check_signature_def
        cable_recv_remaining_def cable_get_total_len_def xrealloc_def mem_write_def)
qed

text \<open>C31: a frame whose length field is between 1 and 13, below the size of its header,
  makes \<^verbatim>\<open>cable_recv_remaining\<close> shrink the allocation and ask \<^verbatim>\<open>xrecvall\<close> for almost
  \<open>2 ^ 64\<close> bytes: the first byte that follows is written behind the allocation, before any
  key has been used. (The length 0 ends in \<^verbatim>\<open>xrealloc\<close>: \<open>recv_cable_zero_length_exits\<close>.)\<close>

theorem recv_cable_short_length_overflows:
  assumes "rx_bytes rx = ascii ''parcel'' @ wire_unpack64 n @ b # rest" "0 < unat n" "unat n < 14"
  shows "recv_cable rx = Inl OutOfBounds"
proof -
  obtain rx1 where rx1: "xrecvall rx 14 14 = Inr (True, ascii ''parcel'' @ wire_unpack64 n, rx1)"
    "rx_bytes rx1 = b # rest"
    using sock.get_prefix[of rx "ascii ''parcel'' @ wire_unpack64 n" "b # rest" 14 14] assms(1) by auto
  have "unat (n - 14) = 2 ^ 64 + unat n - 14" using assms(3) unat_diff_wraps[of n 14] by simp
  then have "xrecvall rx1 0 (n - 14) = Inl OutOfBounds" using rx1(2) by (intro xrecvall_overflow) simp_all
  with rx1(1) assms(2,3) show ?thesis
    by (simp add: recv_cable_def cable_recv_header_def alloc_cable_def cable_check_signature_def
        cable_recv_remaining_def cable_get_total_len_def xrealloc_def mem_write_def Let_def)
qed

theorem recv_cable_short_length_overflows_witness:
  "recv_cable [Segment (ascii ''parcel'' @ wire_unpack64 3 @ [65])] = Inl OutOfBounds"
  by (rule recv_cable_short_length_overflows[where n = 3 and b = 65 and rest = "[]"]) simp_all

end
