(* ===== verification/Messages.thy ===== *)
theory Messages
  imports Cable
begin

text \<open>
  The messages a wire carries. The macros of \<^verbatim>\<open>common/wire-gen.h\<close> generate for each
  packed structure \<^verbatim>\<open>{type; len[8]; fields; data[]}\<close> the same family of functions; here
  they take the size \<open>sz\<close> of the structure. The locale \<open>message_layout\<close> proves what
  they do once, and is interpreted for the structures of \<^verbatim>\<open>wire-ctrl.c\<close>,
  \<^verbatim>\<open>wire-stat.c\<close> and \<^verbatim>\<open>wire-text.c\<close> (\<^verbatim>\<open>wire-file.c\<close> has a theory of its own). A message
  is the memory behind its pointer; every access is checked against its size.
\<close>

type_synonym msg_t = "byte list"

abbreviation (input) MSG_OFFSET_TYPE :: nat where "MSG_OFFSET_TYPE \<equiv> 0"
abbreviation (input) MSG_OFFSET_LEN :: nat where "MSG_OFFSET_LEN \<equiv> 1"
abbreviation (input) MSG_OFFSET_FIELDS :: nat where "MSG_OFFSET_FIELDS \<equiv> 9"

subsection \<open>The generated functions\<close>

definition msg_get_type :: "msg_t \<Rightarrow> int c_result" where
  "msg_get_type m = c_bind (mem_read m MSG_OFFSET_TYPE 1) (\<lambda>b. Inr (uint (hd b)))"

definition msg_set_type :: "msg_t \<Rightarrow> int \<Rightarrow> msg_t c_result" where
  "msg_set_type m type = mem_store m MSG_OFFSET_TYPE [word_of_int type]"

definition msg_get_wire_length :: "msg_t \<Rightarrow> u64 c_result" where
  "msg_get_wire_length m = c_bind (mem_read m MSG_OFFSET_LEN 8) (\<lambda>b. Inr (wire_pack64 b))"

definition msg_get_payload_length :: "nat \<Rightarrow> msg_t \<Rightarrow> u64 c_result" where
  "msg_get_payload_length sz m =
     c_bind (mem_read m MSG_OFFSET_LEN 8) (\<lambda>b. Inr (wire_pack64 b - of_nat sz))"

definition msg_get_data :: "nat \<Rightarrow> msg_t \<Rightarrow> byte list" where
  "msg_get_data sz m = drop sz m"

definition msg_set_data :: "nat \<Rightarrow> msg_t \<Rightarrow> byte list \<Rightarrow> u64 \<Rightarrow> msg_t c_result" where
  "msg_set_data sz m data len = c_bind (mem_read data 0 (unat len)) (mem_store m sz)"

definition msg_set_len :: "msg_t \<Rightarrow> u64 \<Rightarrow> msg_t c_result" where
  "msg_set_len m len = mem_store m MSG_OFFSET_LEN (wire_unpack64 len)"

definition init_msg :: "nat \<Rightarrow> int \<Rightarrow> u64 \<Rightarrow> msg_t c_result" where
  "init_msg sz type len =
     (let msg_len = of_nat sz + len;
          m = replicate (unat msg_len) 0
      in c_bind (msg_set_type m type) (\<lambda>m. msg_set_len m msg_len))"

definition msg_get_field16 :: "nat \<Rightarrow> msg_t \<Rightarrow> u16 c_result" where
  "msg_get_field16 off m = c_bind (mem_read m off 2) (\<lambda>b. Inr (wire_pack16 b))"

definition msg_set_field16 :: "nat \<Rightarrow> msg_t \<Rightarrow> u16 \<Rightarrow> msg_t c_result" where
  "msg_set_field16 off m v = mem_store m off (wire_unpack16 v)"

definition msg_get_field32 :: "nat \<Rightarrow> msg_t \<Rightarrow> u32 c_result" where
  "msg_get_field32 off m = c_bind (mem_read m off 4) (\<lambda>b. Inr (wire_pack32 b))"

definition msg_set_field32 :: "nat \<Rightarrow> msg_t \<Rightarrow> u32 \<Rightarrow> msg_t c_result" where
  "msg_set_field32 off m v = mem_store m off (wire_unpack32 v)"

subsection \<open>Control messages\<close>

datatype ctrl_msg_type_t = CTRL_ERROR | CTRL_EXIT | CTRL_DHKE

primrec ctrl_msg_type_value :: "ctrl_msg_type_t \<Rightarrow> int" where
  "ctrl_msg_type_value CTRL_ERROR = - 1"
| "ctrl_msg_type_value CTRL_EXIT = 0"
| "ctrl_msg_type_value CTRL_DHKE = 1"

abbreviation (input) sizeof_ctrl_msg_t :: nat where "sizeof_ctrl_msg_t \<equiv> 11"

definition ctrl_msg_get_cnt :: "msg_t \<Rightarrow> u64 c_result" where
  "ctrl_msg_get_cnt m = c_bind (msg_get_field16 MSG_OFFSET_FIELDS m) (\<lambda>v. Inr (ucast v))"

definition ctrl_msg_set_cnt :: "msg_t \<Rightarrow> u64 \<Rightarrow> msg_t c_result" where
  "ctrl_msg_set_cnt m cnt = msg_set_field16 MSG_OFFSET_FIELDS m (ucast cnt)"

definition init_ctrl :: "u64 \<Rightarrow> byte list \<Rightarrow> msg_t c_result" where
  "init_ctrl count renewed_key =
     (let key_sz = 32
      in c_bind (init_msg sizeof_ctrl_msg_t (ctrl_msg_type_value CTRL_DHKE) key_sz) (\<lambda>ctrl.
         c_bind (ctrl_msg_set_cnt ctrl count) (\<lambda>ctrl.
         msg_set_data sizeof_ctrl_msg_t ctrl renewed_key key_sz)))"

definition init_wire_from_ctrl_msg :: "byte list option \<Rightarrow> msg_t \<Rightarrow> wire_t option c_result" where
  "init_wire_from_ctrl_msg rand ctrl_msg =
     c_bind (msg_get_wire_length ctrl_msg) (\<lambda>len.
     c_bind (init_wire rand TYPE_CTRL ctrl_msg len) (\<lambda>(wire, len). Inr wire))"

definition init_ctrl_key_cable ::
  "byte list option \<Rightarrow> u64 \<Rightarrow> byte list \<Rightarrow> byte list \<Rightarrow> cable_t c_result" where
  "init_ctrl_key_cable rand count renewed_key ctrl_key =
     c_bind (init_ctrl count renewed_key) (\<lambda>ctrl_msg.
     c_bind (init_wire_from_ctrl_msg rand ctrl_msg) (\<lambda>wire.
     case wire of
       None \<Rightarrow> Inl NullDeref
     | Some w \<Rightarrow>
         let len = wire_get_length w
         in c_bind (encrypt_wire (Some w) (Some ctrl_key)) (\<lambda>(ok, wire).
            c_bind (init_cable (wire_bytes (the wire)) len) (\<lambda>(cable, len). Inr cable))))"

subsection \<open>Status messages\<close>

datatype stat_msg_type_t = STAT_USER_CONNECT | STAT_USER_DISCONNECT | STAT_USER_RENAME

primrec stat_msg_type_value :: "stat_msg_type_t \<Rightarrow> int" where
  "stat_msg_type_value STAT_USER_CONNECT = 0"
| "stat_msg_type_value STAT_USER_DISCONNECT = 1"
| "stat_msg_type_value STAT_USER_RENAME = 2"

abbreviation (input) STAT_USERNAME_LENGTH :: nat where "STAT_USERNAME_LENGTH \<equiv> 64"
abbreviation (input) sizeof_stat_msg_t :: nat where "sizeof_stat_msg_t \<equiv> 73"

definition stat_msg_set_user :: "msg_t \<Rightarrow> byte list \<Rightarrow> msg_t c_result" where
  "stat_msg_set_user sm user =
     c_bind (mem_store sm MSG_OFFSET_FIELDS (replicate STAT_USERNAME_LENGTH 0)) (\<lambda>sm.
     let len = strnlen user (STAT_USERNAME_LENGTH - 1)
     in mem_store sm MSG_OFFSET_FIELDS (take len user))"

definition stat_msg_get_user :: "msg_t \<Rightarrow> byte list \<Rightarrow> (bool \<times> byte list) c_result" where
  "stat_msg_get_user sm user =
     c_bind (mem_read sm MSG_OFFSET_FIELDS STAT_USERNAME_LENGTH) (\<lambda>field.
     let len = strnlen field STAT_USERNAME_LENGTH
     in c_bind (mem_store user 0 (take len field)) (\<lambda>user. Inr (0 < len, user)))"

definition init_stat_conn_msg :: "stat_msg_type_t \<Rightarrow> byte list \<Rightarrow> msg_t c_result" where
  "init_stat_conn_msg type user =
     c_bind (init_msg sizeof_stat_msg_t (stat_msg_type_value type) 0) (\<lambda>stat_msg.
     stat_msg_set_user stat_msg user)"

definition init_stat_rename_msg :: "byte list \<Rightarrow> byte list \<Rightarrow> msg_t c_result" where
  "init_stat_rename_msg curr_name new_name =
     (let new_name_len = of_nat (strnlen new_name STAT_USERNAME_LENGTH)
      in c_bind (init_msg sizeof_stat_msg_t (stat_msg_type_value STAT_USER_RENAME) new_name_len) (\<lambda>stat_msg.
         c_bind (stat_msg_set_user stat_msg curr_name) (\<lambda>stat_msg.
         msg_set_data sizeof_stat_msg_t stat_msg new_name new_name_len)))"

definition init_wire_from_stat_msg :: "byte list option \<Rightarrow> msg_t \<Rightarrow> wire_t option c_result" where
  "init_wire_from_stat_msg rand stat_msg =
     c_bind (msg_get_wire_length stat_msg) (\<lambda>len.
     c_bind (init_wire rand TYPE_STAT stat_msg len) (\<lambda>(wire, len). Inr wire))"

subsection \<open>Text messages\<close>

abbreviation (input) TEXT_MSG_NORMAL :: int where "TEXT_MSG_NORMAL \<equiv> 0"
abbreviation (input) TEXT_USERNAME_LENGTH :: nat where "TEXT_USERNAME_LENGTH \<equiv> 64"
abbreviation (input) sizeof_text_msg_t :: nat where "sizeof_text_msg_t \<equiv> 73"

definition text_msg_set_user :: "msg_t \<Rightarrow> byte list \<Rightarrow> msg_t c_result" where
  "text_msg_set_user tm user =
     c_bind (mem_store tm MSG_OFFSET_FIELDS (replicate TEXT_USERNAME_LENGTH 0)) (\<lambda>tm.
     let len = strnlen user (TEXT_USERNAME_LENGTH - 1)
     in mem_store tm MSG_OFFSET_FIELDS (take len user))"

definition text_msg_get_user :: "msg_t \<Rightarrow> byte list \<Rightarrow> (bool \<times> byte list) c_result" where
  "text_msg_get_user tm user =
     c_bind (mem_read tm MSG_OFFSET_FIELDS TEXT_USERNAME_LENGTH) (\<lambda>field.
     let len = strnlen field TEXT_USERNAME_LENGTH
     in c_bind (mem_store user 0 (take len field)) (\<lambda>user. Inr (0 < len, user)))"

definition text_msg_from_text :: "byte list \<Rightarrow> byte list \<Rightarrow> u64 \<Rightarrow> msg_t c_result" where
  "text_msg_from_text user data len =
     c_bind (init_msg sizeof_text_msg_t TEXT_MSG_NORMAL len) (\<lambda>text_msg.
     c_bind (msg_set_data sizeof_text_msg_t text_msg data len) (\<lambda>text_msg.
     text_msg_set_user text_msg user))"

definition init_wire_from_text_msg :: "byte list option \<Rightarrow> msg_t \<Rightarrow> wire_t option c_result" where
  "init_wire_from_text_msg rand text_msg =
     c_bind (msg_get_wire_length text_msg) (\<lambda>len.
     c_bind (init_wire rand TYPE_TEXT text_msg len) (\<lambda>(wire, len). Inr wire))"

subsection \<open>Session keys\<close>

definition init_wire_from_session_key :: "byte list option \<Rightarrow> byte list \<Rightarrow> wire_t option c_result" where
  "init_wire_from_session_key rand session_key =
     c_bind (init_wire rand TYPE_SESSION_KEY session_key 32) (\<lambda>(wire, len). Inr wire)"

subsection \<open>Layout\<close>

lemma mem_write_at:
  "length xs = off \<Longrightarrow> length ys = length zs \<Longrightarrow> mem_write (xs @ ys @ rest) off zs = xs @ zs @ rest"
  by (simp add: mem_write_def)

locale message_layout =
  fixes sz :: nat
  assumes header_fits: "9 \<le> sz" and size_small: "sz < 2 ^ 32"
begin

lemma init_msg_bytes:
  assumes "sz + unat len < 2 ^ 64"
  shows "init_msg sz type len =
     Inr ([word_of_int type] @ wire_unpack64 (of_nat sz + len) @ replicate (sz - 9) 0 @ replicate (unat len) 0)"
proof -
  have n: "unat (of_nat sz + len) = sz + unat len"
    using assms by (simp add: unat_word_ariths unat_of_nat)
  have z: "replicate (sz + unat len) (0 :: byte) =
      [0] @ replicate 8 0 @ replicate (sz - 9) 0 @ replicate (unat len) 0"
  proof -
    have "sz + unat len = 1 + (8 + ((sz - 9) + unat len))" using header_fits by simp
    then show ?thesis by (simp only: replicate_add) simp
  qed
  show ?thesis
    unfolding init_msg_def Let_def n z
    using mem_write_at[of "[word_of_int type]" 1 "replicate 8 0" "wire_unpack64 (of_nat sz + len)"]
    by (simp add: msg_set_type_def msg_set_len_def mem_write_def)
qed

lemma fields:
  assumes "length extra = sz - 9"
  shows "msg_get_type ([t] @ wire_unpack64 n @ extra @ body) = Inr (uint t)"
    and "msg_get_wire_length ([t] @ wire_unpack64 n @ extra @ body) = Inr n"
    and "msg_get_payload_length sz ([t] @ wire_unpack64 n @ extra @ body) = Inr (n - of_nat sz)"
    and "msg_get_data sz ([t] @ wire_unpack64 n @ extra @ body) = body"
proof -
  have "length ([t] @ wire_unpack64 n @ extra) = sz" using assms header_fits by simp
  then have "drop sz (([t] @ wire_unpack64 n @ extra) @ body) = body" by (metis append_eq_conv_conj)
  then show "msg_get_data sz ([t] @ wire_unpack64 n @ extra @ body) = body"
    by (simp add: msg_get_data_def)
qed (simp_all add: msg_get_type_def msg_get_wire_length_def msg_get_payload_length_def)

lemma set_data:
  assumes "length extra = sz - 9" "length body = unat len" "unat len \<le> length data"
  shows "msg_set_data sz ([t] @ wire_unpack64 n @ extra @ body) data len =
     Inr ([t] @ wire_unpack64 n @ extra @ take (unat len) data)"
  using assms header_fits mem_write_at[of "[t] @ wire_unpack64 n @ extra" sz body "take (unat len) data" "[]"]
  by (simp add: msg_set_data_def)

end

interpretation ctrl_msg: message_layout 11 by unfold_locales simp_all
interpretation user_msg: message_layout 73 by unfold_locales simp_all


subsection \<open>User names\<close>

definition c_string :: "byte list \<Rightarrow> nat \<Rightarrow> byte list" where
  "c_string s n = takeWhile (\<lambda>c. c \<noteq> 0) (take n s)"

definition name_field :: "byte list \<Rightarrow> byte list" where
  "name_field user = c_string user 63 @ replicate (64 - length (c_string user 63)) 0"

lemma length_c_string: "length (c_string s n) \<le> n" "length (c_string s n) = strnlen s n"
  using strnlen_le(1)[of s n] by (simp_all add: strnlen_def c_string_def)

lemma zero_notin_c_string: "0 \<notin> set (c_string s n)"
  using set_takeWhileD by (fastforce simp: c_string_def)

lemma length_name_field [layout]: "length (name_field user) = 64"
  using length_c_string(1)[of user 63] by (simp add: name_field_def)

lemma c_string_name_field: "take (strnlen (name_field user) 64) (name_field user) = c_string user 63"
  and strnlen_name_field: "strnlen (name_field user) 64 = length (c_string user 63)"
proof -
  obtain k where "64 - length (c_string user 63) = Suc k"
    using length_c_string(1)[of user 63] by (cases "64 - length (c_string user 63)") auto
  then have *: "name_field user = c_string user 63 @ 0 # replicate k 0" by (simp add: name_field_def)
  show **: "strnlen (name_field user) 64 = length (c_string user 63)"
    unfolding * using length_c_string(1)[of user 63]
    by (simp add: strnlen_zero_free[OF zero_notin_c_string])
  show "take (strnlen (name_field user) 64) (name_field user) = c_string user 63"
    unfolding ** by (simp add: *)
qed

lemma set_user_bytes:
  assumes "length old = 64"
  shows "stat_msg_set_user ([t] @ wire_unpack64 n @ old @ body) user =
           Inr ([t] @ wire_unpack64 n @ name_field user @ body)"
    and "text_msg_set_user ([t] @ wire_unpack64 n @ old @ body) user =
           Inr ([t] @ wire_unpack64 n @ name_field user @ body)"
proof -
  let ?m = "[t] @ wire_unpack64 n @ old @ body"
  let ?c = "c_string user 63" and ?z = "replicate (64 - length (c_string user 63)) (0 :: byte)"
  have c: "take (strnlen user 63) user = ?c" by (simp add: take_strnlen c_string_def)
  have le: "length ?c \<le> 63" by (rule length_c_string)
  have a: "mem_write ?m 9 (replicate 64 0) = ([t] @ wire_unpack64 n) @ replicate 64 0 @ body"
    using mem_write_at[of "[t] @ wire_unpack64 n" 9 old "replicate 64 0" body] assms by simp
  have r: "replicate 64 (0 :: byte) = replicate (length ?c) 0 @ ?z"
    using le by (simp flip: replicate_add)
  have z: "mem_write ?m 9 (replicate 64 0) = ([t] @ wire_unpack64 n) @ replicate (length ?c) 0 @ ?z @ body"
    unfolding a by (subst r) simp
  have w: "mem_write (mem_write ?m 9 (replicate 64 0)) 9 ?c = [t] @ wire_unpack64 n @ name_field user @ body"
    unfolding z by (subst mem_write_at) (simp_all add: name_field_def)
  have l: "length (mem_write ?m 9 (replicate 64 0)) = 73 + length body" using assms by simp
  show "stat_msg_set_user ?m user = Inr ([t] @ wire_unpack64 n @ name_field user @ body)"
    "text_msg_set_user ?m user = Inr ([t] @ wire_unpack64 n @ name_field user @ body)"
    using assms le w l by (simp_all add: stat_msg_set_user_def text_msg_set_user_def c Let_def)
qed

lemma get_user_bytes:
  assumes "63 \<le> length buf"
  shows "stat_msg_get_user ([t] @ wire_unpack64 n @ name_field user @ body) buf =
           Inr (c_string user 63 \<noteq> [], mem_write buf 0 (c_string user 63))"
    and "text_msg_get_user ([t] @ wire_unpack64 n @ name_field user @ body) buf =
           Inr (c_string user 63 \<noteq> [], mem_write buf 0 (c_string user 63))"
  using assms length_c_string(1)[of user 63]
  by (simp_all add: stat_msg_get_user_def text_msg_get_user_def length_name_field Let_def
      strnlen_name_field) (simp_all add: name_field_def)

subsection \<open>The messages as bytes\<close>

lemma text_msg_from_text_bytes:
  assumes "unat len = length data" "73 + length data < 2 ^ 64"
  shows "text_msg_from_text user data len = Inr ([0] @ wire_unpack64 (73 + len) @ name_field user @ data)"
  using assms user_msg.init_msg_bytes[of len 0] user_msg.set_data[of "replicate 64 0" "replicate (unat len) 0" len data 0 "73 + len"]
    set_user_bytes(2)[of "replicate 64 0" 0 "73 + len" data user]
  by (simp add: text_msg_from_text_def)

lemma init_stat_conn_msg_bytes:
  "init_stat_conn_msg type user =
     Inr ([word_of_int (stat_msg_type_value type)] @ wire_unpack64 73 @ name_field user)"
  using user_msg.init_msg_bytes[of 0 "stat_msg_type_value type"]
    set_user_bytes(1)[of "replicate 64 0" "word_of_int (stat_msg_type_value type)" 73 "[]" user]
  by (simp add: init_stat_conn_msg_def)

lemma init_stat_rename_msg_bytes:
  "init_stat_rename_msg cur new =
     Inr ([2] @ wire_unpack64 (73 + of_nat (length (c_string new 64))) @ name_field cur @ c_string new 64)"
proof -
  define len where "len = (of_nat (length (c_string new 64)) :: u64)"
  have n: "unat len = length (c_string new 64)"
    using length_c_string(1)[of new 64] by (simp add: len_def unat_of_nat take_bit_nat_eq_self)
  have "take (unat len) new = c_string new 64"
    unfolding n length_c_string(2) by (simp add: take_strnlen c_string_def)
  moreover have "unat len \<le> length new" unfolding n length_c_string(2) by (rule strnlen_le)
  ultimately show ?thesis
    using user_msg.init_msg_bytes[of len 2] set_user_bytes(1)[of "replicate 64 0" 2 "73 + len" "replicate (unat len) 0" cur]
      user_msg.set_data[of "name_field cur" "replicate (unat len) 0" len new 2 "73 + len"]
      length_c_string(1)[of new 64] n
    by (simp add: init_stat_rename_msg_def length_name_field Let_def len_def length_c_string(2)[symmetric])
qed

lemma init_ctrl_bytes:
  assumes "length key = 32"
  shows "init_ctrl count key = Inr ([1] @ wire_unpack64 43 @ wire_unpack16 (ucast count) @ key)"
proof -
  have "replicate 2 0 = [0 :: byte, 0]" by (simp add: numeral_2_eq_2)
  then show ?thesis
    using assms ctrl_msg.init_msg_bytes[of 32 1]
      ctrl_msg.set_data[of "wire_unpack16 (ucast count)" "replicate 32 0" 32 key 1 43]
      mem_write_at[of "[1] @ wire_unpack64 43" 9 "[0, 0]" "wire_unpack16 (ucast count)" "replicate 32 0"]
    by (simp add: init_ctrl_def ctrl_msg_set_cnt_def msg_set_field16_def)
qed


subsection \<open>Messages in wires\<close>

lemma message_wire:
  assumes "type \<noteq> TYPE_ERROR" "length r = 16" "unat len = length m" "length m \<le> 2 ^ 64 - 80"
  shows "\<exists>w pad. init_wire (Some r) type m len = Inr (Some w, wire_get_length w) \<and> wire_ok w \<and>
     wire_get_type w = wire_type_value type \<and> wire_data w = m @ pad \<and>
     length (wire_data w) < length m + 16"
proof -
  have "unat (get_aligned_len len) < length m + 16"
    using assms(3,4) by (simp add: get_aligned_len_no_wrap)
  with init_wire_ok[OF assms] show ?thesis by (metis (no_types, lifting))
qed

lemma message_sealed:
  assumes "wire_ok w"
  shows "\<exists>sealed. encrypt_wire (Some w) (Some key) = Inr (True, Some sealed) \<and> wf_wire sealed \<and>
     length (wire_bytes sealed) = unat (wire_get_length w) \<and>
     decrypt_wire (Some sealed) (wire_get_length w) key key2 = Inr (True, w\<lparr>auth := auth sealed\<rparr>)"
  using encrypt_wire_seals[OF assms, of key] assms decrypt_wire_first_key
  by (fastforce simp: length_wire_bytes wire_ok_def)

lemma ctrl_key_cable_bytes:
  assumes "length r = 16" "length renewed = 32"
  shows "\<exists>w sealed n pad.
     init_ctrl_key_cable (Some r) count renewed ctrl_key =
       Inr (ascii ''parcel'' @ wire_unpack64 n @ wire_bytes sealed) \<and>
     unat n = 14 + length (wire_bytes sealed) \<and> wf_wire sealed \<and>
     decrypt_wire (Some sealed) (n - 14) ctrl_key key2 = Inr (True, w) \<and>
     wire_get_type w = wire_type_value TYPE_CTRL \<and>
     wire_data w = [1] @ wire_unpack64 43 @ wire_unpack16 (ucast count) @ renewed @ pad"
proof -
  define m where "m = [1] @ wire_unpack64 43 @ wire_unpack16 (ucast count) @ renewed"
  have m: "init_ctrl count renewed = Inr m" "msg_get_wire_length m = Inr 43" "length m = 43"
    using init_ctrl_bytes[OF assms(2)] ctrl_msg.fields(2)[of "wire_unpack16 (ucast count)" 1 43 renewed] assms(2)
    by (simp_all add: m_def)
  obtain w pad where w: "init_wire (Some r) TYPE_CTRL m 43 = Inr (Some w, wire_get_length w)"
    "wire_ok w" "wire_get_type w = wire_type_value TYPE_CTRL" "wire_data w = m @ pad" "length (wire_data w) < 59"
    using message_wire[of TYPE_CTRL r 43 m] assms(1) m(3) by auto
  obtain sealed where s: "encrypt_wire (Some w) (Some ctrl_key) = Inr (True, Some sealed)" "wf_wire sealed"
    "length (wire_bytes sealed) = unat (wire_get_length w)"
    "decrypt_wire (Some sealed) (wire_get_length w) ctrl_key key2 = Inr (True, w\<lparr>auth := auth sealed\<rparr>)"
    using message_sealed[OF w(2)] by blast
  have len: "unat (wire_get_length w) + 14 < 2 ^ 64" using w(2,5) by (simp add: wire_ok_def)
  have n: "unat (14 + wire_get_length w) = 14 + length (wire_bytes sealed)"
    using len s(3) by (simp add: unat_add_lem[THEN iffD1])
  have "init_ctrl_key_cable (Some r) count renewed ctrl_key =
      Inr (ascii ''parcel'' @ wire_unpack64 (14 + wire_get_length w) @ wire_bytes sealed)"
    using m w(1) s(1,3) len init_cable_bytes[of "wire_get_length w" "wire_bytes sealed"]
    by (simp add: init_ctrl_key_cable_def init_wire_from_ctrl_msg_def Let_def)
  moreover have "wire_get_type (w\<lparr>auth := auth sealed\<rparr>) = wire_type_value TYPE_CTRL"
    using w(3) by (simp add: wire_get_type_def)
  ultimately show ?thesis
    using n s(2,4) w(4) by (intro exI[of _ "w\<lparr>auth := auth sealed\<rparr>"] exI[of _ sealed]
        exI[of _ "14 + wire_get_length w"] exI[of _ pad]) (simp add: m_def)
qed

lemma ctrl_msg_fields:
  fixes renewed pad :: "byte list" and count :: u64
  assumes "length renewed = 32"
  defines "m \<equiv> [1] @ wire_unpack64 43 @ wire_unpack16 (ucast count) @ renewed @ pad"
  shows "msg_get_type m = Inr 1" "take 32 (msg_get_data 11 m) = renewed"
    "ctrl_msg_get_cnt m = Inr (take_bit 16 count)"
proof -
  have "ucast (ucast count :: u16) = take_bit 16 count" by (rule bit_word_eqI) (auto simp: bit_simps)
  then show "msg_get_type m = Inr 1" "take 32 (msg_get_data 11 m) = renewed"
    "ctrl_msg_get_cnt m = Inr (take_bit 16 count)"
    using ctrl_msg.fields[of "wire_unpack16 (ucast count)" 1 43 "renewed @ pad"] assms(1)
    by (simp_all add: m_def ctrl_msg_get_cnt_def msg_get_field16_def)
qed

subsection \<open>Properties\<close>

text \<open>text messages. What \<^verbatim>\<open>text_msg_from_text\<close> builds and \<^verbatim>\<open>encrypt_wire\<close> seals comes
  back from \<^verbatim>\<open>decrypt_wire\<close> as a text wire whose message has the payload length, the
  text, and the user name cut to 63 characters.\<close>

lemma text_wire_round_trip:
  assumes "length r = 16" "unat len = length body" "length body \<le> 2 ^ 64 - 160" "63 \<le> length buf"
  shows "\<exists>m w sealed w'.
     text_msg_from_text user body len = Inr m \<and> init_wire_from_text_msg (Some r) m = Inr (Some w) \<and>
     encrypt_wire (Some w) (Some key) = Inr (True, Some sealed) \<and>
     decrypt_wire (Some sealed) (wire_get_length w) key key2 = Inr (True, w') \<and>
     wire_get_type w' = wire_type_value TYPE_TEXT \<and>
     msg_get_payload_length sizeof_text_msg_t (wire_data w') = Inr len \<and>
     take (unat len) (msg_get_data sizeof_text_msg_t (wire_data w')) = body \<and>
     text_msg_get_user (wire_data w') buf =
       Inr (c_string user 63 \<noteq> [], mem_write buf 0 (c_string user 63))"
proof -
  define m where "m = [0] @ wire_unpack64 (73 + len) @ name_field user @ body"
  have m: "text_msg_from_text user body len = Inr m" "msg_get_wire_length m = Inr (73 + len)"
    using text_msg_from_text_bytes[of len body user] user_msg.fields(2)[of "name_field user" 0 "73 + len" body] assms(2,3)
    by (simp_all add: m_def length_name_field)
  have n: "unat (73 + len) = length m"
    using assms(2,3) by (simp add: m_def length_name_field unat_add_lem[THEN iffD1])
  obtain w pad where w: "init_wire (Some r) TYPE_TEXT m (73 + len) = Inr (Some w, wire_get_length w)"
    "wire_ok w" "wire_get_type w = wire_type_value TYPE_TEXT" "wire_data w = m @ pad"
    using message_wire[of TYPE_TEXT r "73 + len" m] assms n
    by (auto simp: m_def length_name_field)
  obtain sealed where s: "encrypt_wire (Some w) (Some key) = Inr (True, Some sealed)"
    "decrypt_wire (Some sealed) (wire_get_length w) key key2 = Inr (True, w\<lparr>auth := auth sealed\<rparr>)"
    using message_sealed[OF w(2)] by blast
  have "msg_get_payload_length 73 (m @ pad) = Inr len" "take (unat len) (msg_get_data 73 (m @ pad)) = body"
    "text_msg_get_user (m @ pad) buf = Inr (c_string user 63 \<noteq> [], mem_write buf 0 (c_string user 63))"
    using user_msg.fields[of "name_field user" 0 "73 + len" "body @ pad"] assms(2)
      get_user_bytes(2)[OF assms(4), of 0 "73 + len" user "body @ pad"]
    by (simp_all add: m_def length_name_field)
  then show ?thesis
    using m w s by (intro exI[of _ m] exI[of _ w] exI[of _ sealed] exI[of _ "w\<lparr>auth := auth sealed\<rparr>"])
      (simp add: init_wire_from_text_msg_def wire_get_type_def)
qed

text \<open>Status messages. \<^verbatim>\<open>init_stat_rename_msg\<close> never fails; the receiver reads the
  current name cut to 63 characters and the new name cut to 64 as the payload.\<close>

lemma stat_rename_fields:
  assumes "63 \<le> length buf"
  shows "\<exists>m. init_stat_rename_msg cur new = Inr m \<and>
     msg_get_type (m @ pad) = Inr (stat_msg_type_value STAT_USER_RENAME) \<and>
     stat_msg_get_user (m @ pad) buf = Inr (c_string cur 63 \<noteq> [], mem_write buf 0 (c_string cur 63)) \<and>
     (\<exists>len. msg_get_payload_length sizeof_stat_msg_t (m @ pad) = Inr len \<and>
            take (unat len) (msg_get_data sizeof_stat_msg_t (m @ pad)) = c_string new 64)"
proof -
  define len where "len = (of_nat (length (c_string new 64)) :: u64)"
  have n: "unat len = length (c_string new 64)"
    using length_c_string(1)[of new 64] by (simp add: len_def unat_of_nat take_bit_nat_eq_self)
  show ?thesis
    unfolding init_stat_rename_msg_bytes len_def[symmetric]
    using user_msg.fields[of "name_field cur" 2 "73 + len" "c_string new 64 @ pad"] n
      get_user_bytes(1)[OF assms, of 2 "73 + len" cur "c_string new 64 @ pad"]
    by (simp add: length_name_field)
qed

text \<open>control messages, end to end. The frame \<^verbatim>\<open>init_ctrl_key_cable\<close> builds is
  received by \<^verbatim>\<open>recv_cable\<close>, opened with the control key, and carries the new key and
  the count modulo \<open>2 ^ 16\<close>.\<close>

lemma ctrl_key_cable_round_trip:
  assumes "length r = 16" "length renewed = 32"
    and "init_ctrl_key_cable (Some r) count renewed ctrl_key = Inr cable"
    and "rx_bytes rx = cable @ rest"
  shows "\<exists>n rx' bytes len sealed w. recv_cable rx = Inr (Some (cable, n), rx') \<and> rx_bytes rx' = rest \<and>
     get_cabled_wire cable = Inr (bytes, len) \<and> wire_of_bytes bytes = Inr sealed \<and>
     decrypt_wire (Some sealed) len ctrl_key key2 = Inr (True, w) \<and>
     wire_get_type w = wire_type_value TYPE_CTRL \<and>
     msg_get_type (wire_data w) = Inr (ctrl_msg_type_value CTRL_DHKE) \<and>
     ctrl_msg_get_cnt (wire_data w) = Inr (take_bit 16 count) \<and>
     take 32 (msg_get_data sizeof_ctrl_msg_t (wire_data w)) = renewed"
proof -
  obtain w sealed n pad where f:
    "cable = ascii ''parcel'' @ wire_unpack64 n @ wire_bytes sealed"
    "unat n = 14 + length (wire_bytes sealed)" "wf_wire sealed"
    "decrypt_wire (Some sealed) (n - 14) ctrl_key key2 = Inr (True, w)"
    "wire_get_type w = wire_type_value TYPE_CTRL"
    "wire_data w = [1] @ wire_unpack64 43 @ wire_unpack16 (ucast count) @ renewed @ pad"
    using ctrl_key_cable_bytes[OF assms(1,2), of count ctrl_key key2] assms(3) by auto
  obtain rx' where "recv_cable rx = Inr (Some (cable, n), rx')" "rx_bytes rx' = rest"
    using recv_cable_frame[of rx n "wire_bytes sealed" rest] assms(4) f(1,2) by auto
  then show ?thesis
    using get_cabled_wire_frame[of n "wire_bytes sealed"] wire_of_bytes_inverse[OF f(3)] f
      ctrl_msg_fields[OF assms(2), of count pad]
    by (intro exI[of _ n] exI[of _ rx'] exI[of _ "wire_bytes sealed"] exI[of _ "n - 14"]
        exI[of _ sealed] exI[of _ w]) simp
qed

end
