(* ===== verification/X25519.thy ===== *)
theory X25519
  imports Prelude
begin

text \<open>
  \<^verbatim>\<open>crypto/x25519.c\<close>: scalar multiplication on Curve25519. A field element is sixteen
  signed 64-bit limbs in radix \<open>2 ^ 16\<close>. A limb is an integer here; \<open>s64\<close> is the
  conversion to \<^verbatim>\<open>int64_t\<close>, written out around every operation whose result the code
  stores in a limb, so that the model wraps where the hardware would. \<^verbatim>\<open>>>\<close> on a
  negative limb is the arithmetic shift of the supported compilers.
\<close>

type_synonym field_t = "int list"

definition s64 :: "int \<Rightarrow> int" where
  "s64 x = (x + 2 ^ 63) mod 2 ^ 64 - 2 ^ 63"

subsection \<open>Field arithmetic\<close>

definition carry_step :: "nat \<Rightarrow> field_t \<Rightarrow> field_t" where
  "carry_step i q =
     (let carry = drop_bit 16 (q ! i);
          q = q[i := s64 (q ! i - push_bit 16 carry)]
      in if i = 15 then q[0 := s64 (q ! 0 + s64 (38 * carry))]
         else q[i + 1 := s64 (q ! (i + 1) + carry)])"

definition carry_reduce :: "field_t \<Rightarrow> field_t" where
  "carry_reduce q = fold carry_step [0..<16] q"

definition product_row :: "field_t \<Rightarrow> field_t \<Rightarrow> nat \<Rightarrow> int list \<Rightarrow> int list" where
  "product_row a b i product =
     fold (\<lambda>j p. p[i + j := s64 (p ! (i + j) + s64 (a ! i * b ! j))]) [0..<16] product"

definition product_fold :: "int list \<Rightarrow> int list" where
  "product_fold product =
     fold (\<lambda>i p. p[i := s64 (p ! i + s64 (38 * p ! (i + 16)))]) [0..<15] product"

definition multiply :: "field_t \<Rightarrow> field_t \<Rightarrow> field_t" where
  "multiply a b =
     (let product = replicate 31 0;
          product = fold (product_row a b) [0..<16] product;
          product = product_fold product;
          dst = take 16 product
      in carry_reduce (carry_reduce dst))"

definition square :: "field_t \<Rightarrow> field_t" where
  "square src = multiply src src"

definition inverse_step :: "field_t \<Rightarrow> nat \<Rightarrow> field_t \<Rightarrow> field_t" where
  "inverse_step src i elements =
     (let elements = square elements
      in if i \<noteq> 251 \<and> i \<noteq> 249 then multiply elements src else elements)"

definition inverse_fe :: "field_t \<Rightarrow> field_t" where
  "inverse_fe src = fold (inverse_step src) [0..<254] src"

definition add :: "field_t \<Rightarrow> field_t \<Rightarrow> field_t" where
  "add a b = map (\<lambda>i. s64 (a ! i + b ! i)) [0..<16]"

definition add_inplace :: "field_t \<Rightarrow> field_t \<Rightarrow> field_t" where
  "add_inplace a b = map (\<lambda>i. s64 (a ! i + b ! i)) [0..<16]"

definition subtract :: "field_t \<Rightarrow> field_t \<Rightarrow> field_t" where
  "subtract a b = map (\<lambda>i. s64 (a ! i - b ! i)) [0..<16]"

definition subtract_inplace :: "field_t \<Rightarrow> field_t \<Rightarrow> field_t" where
  "subtract_inplace a b = map (\<lambda>i. s64 (a ! i - b ! i)) [0..<16]"

definition swap :: "field_t \<Rightarrow> field_t \<Rightarrow> int \<Rightarrow> field_t \<times> field_t" where
  "swap a b sel =
     (let val = (\<lambda>i. NOT (sel - 1) AND (a ! i XOR b ! i))
      in (map (\<lambda>i. a ! i XOR val i) [0..<16], map (\<lambda>i. b ! i XOR val i) [0..<16]))"

subsection \<open>Conversion\<close>

definition pack_step :: "field_t \<Rightarrow> nat \<Rightarrow> field_t \<Rightarrow> field_t" where
  "pack_step elements i m =
     (let dim = (if i = 15 then 0x7fff else 0xffff);
          m = m[i := s64 (elements ! i - dim - (drop_bit 16 (m ! (i - 1)) AND 1))]
      in m[i - 1 := m ! (i - 1) AND 0xffff])"

definition pack_round :: "field_t \<Rightarrow> field_t" where
  "pack_round elements =
     (let m = (replicate 16 0)[0 := s64 (elements ! 0 - 0xffed)];
          m = fold (pack_step elements) [1..<16] m;
          carry_bit = drop_bit 16 (m ! 15) AND 1
      in fst (swap elements m (1 - carry_bit)))"

definition pack :: "field_t \<Rightarrow> byte list" where
  "pack src =
     (let elements = carry_reduce (carry_reduce (carry_reduce src));
          elements = pack_round (pack_round elements)
      in concat (map (\<lambda>i. [word_of_int (drop_bit 0 (elements ! i) AND 0xff),
                            word_of_int (drop_bit 8 (elements ! i) AND 0xff)]) [0..<16]))"

definition unpack :: "byte list \<Rightarrow> field_t" where
  "unpack src =
     (let dst = map (\<lambda>i. uint (src ! (2 * i)) + push_bit 8 (uint (src ! (2 * i + 1)))) [0..<16]
      in dst[15 := dst ! 15 AND 0x7fff])"

subsection \<open>The ladder\<close>

record ladder_t =
  inputs0 :: field_t
  inputs1 :: field_t
  inputs2 :: field_t
  inputs3 :: field_t

definition c1db41 :: field_t where
  "c1db41 = [0xdb41, 0x0001] @ replicate 14 0"

definition ladder_bit :: "byte list \<Rightarrow> nat \<Rightarrow> int" where
  "ladder_bit private_key i = drop_bit (i mod 8) (uint (private_key ! (i div 8))) AND 1"

definition ladder_swap :: "int \<Rightarrow> ladder_t \<Rightarrow> ladder_t" where
  "ladder_swap sel s =
     (let (a, b) = swap (inputs0 s) (inputs1 s) sel;
          (c, d) = swap (inputs2 s) (inputs3 s) sel
      in \<lparr>inputs0 = a, inputs1 = b, inputs2 = c, inputs3 = d\<rparr>)"

definition ladder_formulas :: "field_t \<Rightarrow> ladder_t \<Rightarrow> ladder_t" where
  "ladder_formulas x s =
     (let intermediate0 = add (inputs0 s) (inputs2 s);
          s = s\<lparr>inputs0 := subtract_inplace (inputs0 s) (inputs2 s)\<rparr>;
          s = s\<lparr>inputs2 := add (inputs1 s) (inputs3 s)\<rparr>;
          s = s\<lparr>inputs1 := subtract_inplace (inputs1 s) (inputs3 s)\<rparr>;
          s = s\<lparr>inputs3 := square intermediate0\<rparr>;
          intermediate1 = square (inputs0 s);
          s = s\<lparr>inputs0 := multiply (inputs2 s) (inputs0 s)\<rparr>;
          s = s\<lparr>inputs2 := multiply (inputs1 s) intermediate0\<rparr>;
          intermediate0 = add (inputs0 s) (inputs2 s);
          s = s\<lparr>inputs0 := subtract_inplace (inputs0 s) (inputs2 s)\<rparr>;
          s = s\<lparr>inputs1 := square (inputs0 s)\<rparr>;
          s = s\<lparr>inputs2 := subtract (inputs3 s) intermediate1\<rparr>;
          s = s\<lparr>inputs0 := multiply (inputs2 s) c1db41\<rparr>;
          s = s\<lparr>inputs0 := add_inplace (inputs0 s) (inputs3 s)\<rparr>;
          s = s\<lparr>inputs2 := multiply (inputs2 s) (inputs0 s)\<rparr>;
          s = s\<lparr>inputs0 := multiply (inputs3 s) intermediate1\<rparr>;
          s = s\<lparr>inputs3 := multiply (inputs1 s) x\<rparr>;
          s = s\<lparr>inputs1 := square intermediate0\<rparr>
      in s)"

definition ladder_step :: "field_t \<Rightarrow> byte list \<Rightarrow> nat \<Rightarrow> ladder_t \<Rightarrow> ladder_t" where
  "ladder_step x private_key i s =
     (let sel = ladder_bit private_key i
      in ladder_swap sel (ladder_formulas x (ladder_swap sel s)))"

definition x25519 :: "byte list \<Rightarrow> byte list \<Rightarrow> byte list" where
  "x25519 secret basepoint =
     (let private_key = take 32 secret;
          x = unpack basepoint;
          s = \<lparr>inputs0 = (replicate 16 0)[0 := 1], inputs1 = x,
               inputs2 = replicate 16 0, inputs3 = (replicate 16 0)[0 := 1]\<rparr>;
          s = fold (ladder_step x private_key) (rev [0..<255]) s
      in pack (multiply (inputs0 s) (inverse_fe (inputs2 s))))"

end
