(* ===== verification/X25519_Field.thy ===== *)
theory X25519_Field
  imports X25519
begin

text \<open>
  The limb arithmetic of \<^verbatim>\<open>x25519.c\<close> computes in the field of \<open>2 ^ 255 - 19\<close>
  elements: \<open>fval\<close> is the integer sixteen limbs stand for. One \<^verbatim>\<open>carry_reduce\<close> has a
  closed form in terms of that integer, from which both its value and the bounds
  that keep every limb within 64 bits follow.
\<close>

abbreviation radix :: int where "radix \<equiv> 65536"

definition p25519 :: int where
  "p25519 = 2 ^ 255 - 19"

fun fval :: "field_t \<Rightarrow> int" where
  "fval [] = 0"
| "fval (x # xs) = x + radix * fval xs"

fun digits :: "nat \<Rightarrow> int \<Rightarrow> field_t" where
  "digits 0 v = []"
| "digits (Suc n) v = v mod radix # digits n (v div radix)"

definition limbs_within :: "int \<Rightarrow> field_t \<Rightarrow> bool" where
  "limbs_within B q \<longleftrightarrow> length q = 16 \<and> (\<forall>x \<in> set q. \<bar>x\<bar> \<le> B)"

subsection \<open>Digits\<close>

lemma s64_id: "- (2 ^ 63) \<le> x \<Longrightarrow> x < 2 ^ 63 \<Longrightarrow> s64 x = x"
  by (simp add: s64_def mod_pos_pos_trivial)

lemma fval_append: "fval (xs @ ys) = fval xs + radix ^ length xs * fval ys"
  by (induction xs) (simp_all add: algebra_simps)

lemma fval_update:
  "i < length q \<Longrightarrow> fval (q[i := v]) = fval q + (v - q ! i) * radix ^ i"
proof (induction q arbitrary: i)
  case (Cons x q)
  show ?case
  proof (cases i)
    case (Suc n)
    then have "fval (q[n := v]) = fval q + (v - q ! n) * radix ^ n" using Cons by simp
    then show ?thesis using Suc by (simp add: distrib_left mult.left_commute)
  qed simp
qed simp

lemma length_digits [simp]: "length (digits n v) = n"
  by (induction n arbitrary: v) simp_all

lemma digits_nth_0: "0 < n \<Longrightarrow> digits n v ! 0 = v mod radix"
  by (cases n) simp_all

lemma fval_digits: "fval (digits n v) = v mod radix ^ n"
proof (induction n arbitrary: v)
  case (Suc n)
  have "v mod radix ^ Suc n = v mod radix + radix * (v div radix mod radix ^ n)"
    using zmod_zmult2_eq[of "radix ^ n" v radix] by simp
  with Suc show ?case by simp
qed simp

lemma digits_range: "x \<in> set (digits n v) \<Longrightarrow> 0 \<le> x \<and> x < radix"
  by (induction n arbitrary: v) auto

lemma digits_snoc: "digits (Suc n) v = digits n v @ [v div radix ^ n mod radix]"
proof (induction n arbitrary: v)
  case (Suc n)
  show ?case
    using Suc.IH[of "v div radix"] by (simp add: zdiv_zmult2_eq[symmetric] power_Suc mult.commute)
qed simp

lemma digits_mod: "digits n (v mod radix ^ n) = digits n v"
proof (induction n arbitrary: v)
  case (Suc n)
  have "v mod radix ^ Suc n = v mod radix + radix * (v div radix mod radix ^ n)"
    using zmod_zmult2_eq[of "radix ^ n" v radix] by simp
  then have "(v mod radix ^ Suc n) mod radix = v mod radix"
    "(v mod radix ^ Suc n) div radix = v div radix mod radix ^ n" by simp_all
  with Suc[of "v div radix"] show ?case by simp
qed simp

lemma digits_cong: "v mod radix ^ n = w mod radix ^ n \<Longrightarrow> digits n v = digits n w"
  by (metis digits_mod)

lemma abs_fval_less: "\<forall>x \<in> set q. \<bar>x\<bar> \<le> B \<Longrightarrow> \<bar>fval q\<bar> * 65535 \<le> B * (radix ^ length q - 1)"
proof (induction q)
  case (Cons x q)
  then have x: "\<bar>x\<bar> \<le> B" and IH: "\<bar>fval q\<bar> * 65535 \<le> B * (radix ^ length q - 1)" by simp_all
  have "\<bar>fval (x # q)\<bar> \<le> \<bar>x\<bar> + radix * \<bar>fval q\<bar>" by (simp add: abs_mult abs_triangle_ineq[THEN order_trans])
  then have "\<bar>fval (x # q)\<bar> * 65535 \<le> \<bar>x\<bar> * 65535 + radix * (\<bar>fval q\<bar> * 65535)" by simp
  also have "\<dots> \<le> B * 65535 + radix * (B * (radix ^ length q - 1))" using x IH by simp
  also have "\<dots> = B * (radix ^ length (x # q) - 1)" by (simp add: algebra_simps)
  finally show ?case .
qed simp

lemma abs_fval_div:
  assumes "\<forall>x \<in> set q. \<bar>x\<bar> \<le> B" "length q = n" "1 \<le> B"
  shows "\<bar>fval q div radix ^ n\<bar> \<le> B"
proof -
  have "\<bar>fval q\<bar> * 65535 \<le> B * radix ^ n"
    using abs_fval_less[OF assms(1)] assms(2,3) by (simp add: algebra_simps)
  then have "\<bar>fval q\<bar> \<le> B * radix ^ n" by linarith
  then have "- B * radix ^ n \<le> fval q" "fval q \<le> B * radix ^ n" by linarith+
  then have "- B * radix ^ n div radix ^ n \<le> fval q div radix ^ n"
    "fval q div radix ^ n \<le> B * radix ^ n div radix ^ n" by (simp_all only: zdiv_mono1 zero_less_power)
  then have "- B \<le> fval q div radix ^ n" "fval q div radix ^ n \<le> B"
    using nonzero_mult_div_cancel_right[of "radix ^ n" "- B"] by simp_all
  then show ?thesis by linarith
qed

lemma abs_div_radix: "radix * \<bar>e div radix\<bar> \<le> \<bar>e\<bar> + 65535" for e :: int
proof -
  have "e = radix * (e div radix) + e mod radix" by (rule mult_div_mod_eq[symmetric])
  moreover have "0 \<le> e mod radix" "e mod radix < radix" by simp_all
  ultimately show ?thesis by linarith
qed

subsection \<open>Carrying\<close>

lemma fval_take_Suc:
  "k < length q \<Longrightarrow> fval (take (Suc k) q) = fval (take k q) + radix ^ k * q ! k"
  by (simp add: take_Suc_conv_app_nth fval_append)

lemma limbs_within_nth: "limbs_within B q \<Longrightarrow> i < 16 \<Longrightarrow> \<bar>q ! i\<bar> \<le> B"
  by (simp add: limbs_within_def)

lemma limbs_within_mono: "limbs_within B q \<Longrightarrow> B \<le> C \<Longrightarrow> limbs_within C q"
  unfolding limbs_within_def by (meson order_trans)

lemma carry_limb_bound:
  assumes "limbs_within B q" "1 \<le> B" "k < 16"
  shows "\<bar>fval (take (Suc k) q) div radix ^ k\<bar> \<le> 2 * B"
proof -
  have "length q = 16" using assms(1) by (simp add: limbs_within_def)
  then have "fval (take (Suc k) q) div radix ^ k = fval (take k q) div radix ^ k + q ! k"
    using assms(3) by (simp add: fval_take_Suc)
  moreover have "\<bar>fval (take k q) div radix ^ k\<bar> \<le> B"
    using assms by (intro abs_fval_div) (auto simp: limbs_within_def dest: in_set_takeD)
  ultimately show ?thesis using limbs_within_nth[OF assms(1,3)] by linarith
qed

lemma carry_step_eq:
  assumes "length xs = k" "k < 15" "\<bar>e\<bar> \<le> 2 ^ 62" "\<bar>f\<bar> \<le> 2 ^ 61"
  shows "carry_step k (xs @ e # f # ys) = xs @ (e mod radix) # (f + e div radix) # ys"
proof -
  have c: "drop_bit 16 e = e div radix" by (simp add: drop_bit_eq_div)
  have d: "e - push_bit 16 (e div radix) = e mod radix"
    by (simp add: push_bit_eq_mult minus_div_mult_eq_mod)
  have "s64 (e mod radix) = e mod radix"
    using pos_mod_bound[of radix e] pos_mod_sign[of radix e] by (intro s64_id) simp_all
  moreover have "s64 (f + e div radix) = f + e div radix"
    using assms(3,4) abs_div_radix[of e] by (intro s64_id) (simp; linarith)+
  ultimately show ?thesis
    using assms(1,2) by (simp add: carry_step_def c d nth_append list_update_append Let_def)
qed

lemma carry_prefix:
  assumes "limbs_within B q" "1 \<le> B" "B \<le> 2 ^ 61" "k \<le> 15"
  shows "fold carry_step [0..<k] q =
     digits k (fval (take k q)) @ (fval (take (Suc k) q) div radix ^ k) # drop (Suc k) q"
  using assms(4)
proof (induction k)
  case 0
  have "q = q ! 0 # drop 1 q" using assms(1) by (cases q) (auto simp: limbs_within_def)
  moreover have "fval (take 1 q) = q ! 0" using assms(1) by (cases q) (auto simp: limbs_within_def)
  ultimately show ?case by simp
next
  case (Suc k)
  let ?F = "\<lambda>n. fval (take n q)"
  have len: "length q = 16" using assms(1) by (simp add: limbs_within_def)
  have d: "drop (Suc k) q = q ! Suc k # drop (Suc (Suc k)) q"
    using Suc.prems len by (simp add: Cons_nth_drop_Suc)
  have e: "\<bar>?F (Suc k) div radix ^ k\<bar> \<le> 2 ^ 62"
    using carry_limb_bound[OF assms(1,2), of k] Suc.prems assms(3) by simp
  have f: "\<bar>q ! Suc k\<bar> \<le> 2 ^ 61" using limbs_within_nth[OF assms(1), of "Suc k"] Suc.prems assms(3) by simp
  have "fold carry_step [0..<Suc k] q = carry_step k (fold carry_step [0..<k] q)" by simp
  also have "\<dots> = digits k (?F k) @ (?F (Suc k) div radix ^ k mod radix) #
      (q ! Suc k + ?F (Suc k) div radix ^ k div radix) # drop (Suc (Suc k)) q"
    using Suc e f d by (simp add: carry_step_eq)
  also have "digits k (?F k) = digits k (?F (Suc k))"
    using Suc.prems len by (intro digits_cong) (simp add: fval_take_Suc)
  also have "q ! Suc k + ?F (Suc k) div radix ^ k div radix = ?F (Suc (Suc k)) div radix ^ Suc k"
    using Suc.prems len fval_take_Suc[of "Suc k" q]
    by (simp add: zdiv_zmult2_eq[symmetric] mult.commute)
  finally show ?case by (simp add: digits_snoc del: digits.simps)
qed

lemma carry_reduce_eq:
  assumes "limbs_within B q" "1 \<le> B" "B \<le> 2 ^ 61"
  shows "carry_reduce q =
     (digits 16 (fval q))[0 := fval q mod radix + 38 * (fval q div radix ^ 16)]"
proof -
  have len: "length q = 16" using assms(1) by (simp add: limbs_within_def)
  define e where "e = fval q div radix ^ 15"
  have "fold carry_step [0..<15] q = digits 15 (fval (take 15 q)) @ [e]"
    using carry_prefix[OF assms, of 15] len by (simp add: e_def)
  moreover have "digits 15 (fval (take 15 q)) = digits 15 (fval q)"
    using fval_take_Suc[of 15 q] len by (intro digits_cong) simp
  ultimately have pre: "fold carry_step [0..<15] q = digits 15 (fval q) @ [e]" by simp
  have "\<bar>e\<bar> \<le> 2 ^ 62" using carry_limb_bound[OF assms(1,2), of 15] assms(3) len by (simp add: e_def)
  then have c: "\<bar>38 * (e div radix)\<bar> \<le> 2 ^ 62" using abs_div_radix[of e] by (simp; linarith)
  have m: "0 \<le> v mod radix \<and> v mod radix < radix" for v :: int by simp
  have w: "s64 (e mod radix) = e mod radix" using m[of e] by (intro s64_id) (simp; linarith)+
  have w2: "s64 (38 * (e div radix)) = 38 * (e div radix)"
    "s64 (fval q mod radix + 38 * (e div radix)) = fval q mod radix + 38 * (e div radix)"
    using c m[of "fval q"] by (rule_tac [!] s64_id) (simp; linarith)+
  have h: "digits 15 (fval q) ! 0 = fval q mod radix" by (rule digits_nth_0) simp
  have "[0..<16] = [0..<15] @ [15]" using upt_Suc_append[of 0 15] by simp
  then have "carry_reduce q = carry_step 15 (digits 15 (fval q) @ [e])"
    by (simp only: carry_reduce_def fold_append comp_apply pre) simp
  also have "\<dots> = (digits 15 (fval q) @ [e mod radix])[0 := fval q mod radix + 38 * (e div radix)]"
    using w w2 h by (simp add: carry_step_def Let_def nth_append list_update_append drop_bit_eq_div
        push_bit_eq_mult minus_div_mult_eq_mod del: digits.simps)
  also have "digits 15 (fval q) @ [e mod radix] = digits 16 (fval q)"
    using digits_snoc[of 15 "fval q"] by (simp add: e_def del: digits.simps)
  also have "e div radix = fval q div radix ^ 16"
    by (simp add: e_def zdiv_zmult2_eq[symmetric])
  finally show ?thesis .
qed


lemma radix_16: "radix ^ 16 = 2 * p25519 + 38"
  by (simp add: p25519_def)

lemma mod_p25519_fold: "(v mod radix ^ 16 + 38 * (v div radix ^ 16)) mod p25519 = v mod p25519"
proof -
  define c r where "c = v div radix ^ 16" and "r = v mod radix ^ 16"
  have "v = radix ^ 16 * c + r" unfolding c_def r_def by (rule mult_div_mod_eq[symmetric])
  then have "v = (r + 38 * c) + (2 * c) * p25519" unfolding radix_16 by (simp add: algebra_simps)
  then have "v mod p25519 = (r + 38 * c) mod p25519" by (simp only: mod_mult_self1)
  then show ?thesis by (simp only: c_def r_def)
qed

lemma fval_carry_reduce:
  assumes "limbs_within B q" "1 \<le> B" "B \<le> 2 ^ 61"
  shows "fval (carry_reduce q) = fval q mod radix ^ 16 + 38 * (fval q div radix ^ 16)"
proof -
  have "digits 16 (fval q) ! 0 = fval q mod radix" by (rule digits_nth_0) simp
  then show ?thesis
    unfolding carry_reduce_eq[OF assms] by (simp add: fval_update fval_digits del: digits.simps)
qed

lemma carry_reduce_within:
  assumes "limbs_within B q" "1 \<le> B" "B \<le> 2 ^ 61" "\<bar>fval q div radix ^ 16\<bar> \<le> C"
  shows "limbs_within (radix + 38 * C) (carry_reduce q)"
proof -
  have "x \<in> set (carry_reduce q) \<Longrightarrow> \<bar>x\<bar> \<le> radix + 38 * C" for x
  proof -
    assume "x \<in> set (carry_reduce q)"
    then consider "x \<in> set (digits 16 (fval q))" | "x = fval q mod radix + 38 * (fval q div radix ^ 16)"
      unfolding carry_reduce_eq[OF assms(1-3)] using set_update_subset_insert by fastforce
    then show ?thesis
    proof cases
      case 1
      then show ?thesis using digits_range[of x 16 "fval q"] assms(4) by linarith
    next
      case 2
      moreover have "0 \<le> fval q mod radix" "fval q mod radix < radix" by simp_all
      ultimately show ?thesis using assms(4) by linarith
    qed
  qed
  then show ?thesis by (simp add: limbs_within_def carry_reduce_eq[OF assms(1-3)] del: digits.simps)
qed

lemma fold_carry_small:
  fixes N v w :: int
  assumes "w = v mod N + 38 * (v div N)" "\<bar>v div N\<bar> \<le> 2 ^ 50" "2 ^ 56 \<le> N" "0 < N"
  shows "\<bar>w div N\<bar> \<le> 1"
proof -
  have "0 \<le> v mod N" "v mod N < N" using assms(4) by simp_all
  then have b: "- N \<le> w" "w < N * 2" using assms(1-3) by (simp; linarith)+
  have "w = N * (w div N) + w mod N" "0 \<le> w mod N" "w mod N < N" using assms(4) by simp_all
  then have "N * (w div N) < N * 2" "N * (- 2) < N * (w div N)" using b by linarith+
  then have "w div N < 2" "- 2 < w div N"
    using assms(4) by (simp_all only: mult_less_cancel_left_pos)
  then show ?thesis by linarith
qed

lemma carry_reduce_twice:
  assumes "limbs_within B q" "1 \<le> B" "B \<le> 2 ^ 50"
  shows "limbs_within (2 ^ 17) (carry_reduce (carry_reduce q))"
    and "fval (carry_reduce (carry_reduce q)) mod p25519 = fval q mod p25519"
proof -
  define v where "v = fval q"
  have v: "\<bar>v div radix ^ 16\<bar> \<le> B"
    unfolding v_def using assms by (intro abs_fval_div) (auto simp: limbs_within_def)
  let ?q1 = "carry_reduce q"
  have q1: "limbs_within (radix + 38 * B) ?q1" "fval ?q1 = v mod radix ^ 16 + 38 * (v div radix ^ 16)"
    using carry_reduce_within[of B q B] fval_carry_reduce[of B q] assms v by (simp_all add: v_def)
  have c: "\<bar>fval ?q1 div radix ^ 16\<bar> \<le> 1"
  proof (rule fold_carry_small)
    show "fval ?q1 = v mod radix ^ 16 + 38 * (v div radix ^ 16)" by (rule q1)
    show "\<bar>v div radix ^ 16\<bar> \<le> 2 ^ 50" using v assms(3) by linarith
    show "(2 :: int) ^ 56 \<le> radix ^ 16" "0 < radix ^ 16" by simp_all
  qed
  have "radix + 38 * B \<le> 2 ^ 61" "1 \<le> radix + 38 * B" using assms by simp_all
  note B1 = this
  have "limbs_within (radix + 38 * 1) (carry_reduce ?q1)"
    using carry_reduce_within[OF q1(1) B1(2,1) c] .
  then show "limbs_within (2 ^ 17) (carry_reduce ?q1)" by (rule limbs_within_mono) simp
  show "fval (carry_reduce ?q1) mod p25519 = fval q mod p25519"
    by (simp only: fval_carry_reduce[OF q1(1) B1(2,1)] mod_p25519_fold q1(2) v_def)
qed


subsection \<open>Multiplication\<close>

definition entries_within :: "int \<Rightarrow> int list \<Rightarrow> bool" where
  "entries_within K p \<longleftrightarrow> length p = 31 \<and> (\<forall>x \<in> set p. \<bar>x\<bar> \<le> K)"

lemma entries_within_update:
  "entries_within K p \<Longrightarrow> K \<le> L \<Longrightarrow> \<bar>x\<bar> \<le> L \<Longrightarrow> entries_within L (p[i := x])"
  unfolding entries_within_def by (auto dest!: set_update_subset_insert[THEN subsetD] intro: order_trans)

lemma entries_within_nth: "entries_within K p \<Longrightarrow> i < 31 \<Longrightarrow> \<bar>p ! i\<bar> \<le> K"
  by (simp add: entries_within_def)

lemma abs_product_le:
  assumes "limbs_within (2 ^ 18) a" "limbs_within (2 ^ 18) b" "i < 16" "j < 16"
  shows "\<bar>a ! i * b ! j\<bar> \<le> 2 ^ 36"
proof -
  have "\<bar>a ! i\<bar> * \<bar>b ! j\<bar> \<le> 2 ^ 18 * 2 ^ 18"
    using limbs_within_nth[OF assms(1,3)] limbs_within_nth[OF assms(2,4)] by (intro mult_mono) simp_all
  then show ?thesis by (simp add: abs_mult)
qed

lemma product_row_prefix:
  assumes "limbs_within (2 ^ 18) a" "limbs_within (2 ^ 18) b" "i < 16" "n \<le> 16"
    and "entries_within (2 ^ 36 * K) p" "0 \<le> K" "K \<le> 240"
  defines "r \<equiv> fold (\<lambda>j p. p[i + j := s64 (p ! (i + j) + s64 (a ! i * b ! j))]) [0..<n] p"
  shows "entries_within (2 ^ 36 * (K + int n)) r \<and>
         fval r = fval p + a ! i * radix ^ i * fval (take n b)"
  using assms(4) unfolding r_def
proof (induction n)
  case 0
  then show ?case using assms(5) by simp
next
  case (Suc n)
  define r where "r = fold (\<lambda>j p. p[i + j := s64 (p ! (i + j) + s64 (a ! i * b ! j))]) [0..<n] p"
  have IH: "entries_within (2 ^ 36 * (K + int n)) r" "fval r = fval p + a ! i * radix ^ i * fval (take n b)"
    using Suc by (simp_all add: r_def)
  have lt: "i + n < 31" "n < 16" using Suc.prems assms(3) by simp_all
  have b: "length b = 16" using assms(2) by (simp add: limbs_within_def)
  have prod: "\<bar>a ! i * b ! n\<bar> \<le> 2 ^ 36" by (rule abs_product_le) (use assms lt in simp_all)
  have ent: "\<bar>r ! (i + n)\<bar> \<le> 2 ^ 36 * (K + int n)" by (rule entries_within_nth[OF IH(1) lt(1)])
  have sum: "\<bar>r ! (i + n) + a ! i * b ! n\<bar> \<le> 2 ^ 36 * (K + int (Suc n))"
    using prod ent by (simp add: distrib_left)
  moreover have "2 ^ 36 * (K + int (Suc n)) \<le> 2 ^ 36 * 256" using assms(7) lt by simp
  ultimately have w: "s64 (a ! i * b ! n) = a ! i * b ! n"
    "s64 (r ! (i + n) + a ! i * b ! n) = r ! (i + n) + a ! i * b ! n"
    using prod by (rule_tac [!] s64_id) (simp; linarith)+
  have "fold (\<lambda>j p. p[i + j := s64 (p ! (i + j) + s64 (a ! i * b ! j))]) [0..<Suc n] p =
      r[i + n := r ! (i + n) + a ! i * b ! n]"
    using w by (simp add: r_def)
  moreover have "entries_within (2 ^ 36 * (K + int (Suc n))) (r[i + n := r ! (i + n) + a ! i * b ! n])"
    by (rule entries_within_update[OF IH(1) _ sum]) simp
  moreover have "fval (r[i + n := r ! (i + n) + a ! i * b ! n]) =
      fval p + a ! i * radix ^ i * fval (take (Suc n) b)"
    using IH lt b by (simp add: fval_update entries_within_def fval_take_Suc power_add algebra_simps)
  ultimately show ?case by simp
qed

lemma product_rows:
  assumes "limbs_within (2 ^ 18) a" "limbs_within (2 ^ 18) b" "n \<le> 16"
  shows "entries_within (2 ^ 36 * (16 * int n)) (fold (product_row a b) [0..<n] (replicate 31 0)) \<and>
         fval (fold (product_row a b) [0..<n] (replicate 31 0)) = fval (take n a) * fval b"
  using assms(3)
proof (induction n)
  case 0
  have "fval (replicate k 0) = 0" for k by (induction k) simp_all
  then show ?case by (simp add: entries_within_def)
next
  case (Suc n)
  let ?p = "fold (product_row a b) [0..<n] (replicate 31 0)"
  have IH: "entries_within (2 ^ 36 * (16 * int n)) ?p" "fval ?p = fval (take n a) * fval b"
    using Suc by simp_all
  have "length a = 16" "length b = 16" using assms by (simp_all add: limbs_within_def)
  moreover have "entries_within (2 ^ 36 * (16 * int n + 16)) (product_row a b n ?p) \<and>
      fval (product_row a b n ?p) = fval ?p + a ! n * radix ^ n * fval (take 16 b)"
    using product_row_prefix[OF assms(1,2) _ order_refl IH(1)] Suc.prems by (simp add: product_row_def)
  ultimately show ?case
    using IH(2) Suc.prems by (simp add: fval_take_Suc algebra_simps)
qed


lemma product_fold_prefix:
  assumes "entries_within K p" "0 \<le> K" "K \<le> 2 ^ 44" "n \<le> 15"
  defines "r \<equiv> fold (\<lambda>i p. p[i := s64 (p ! i + s64 (38 * p ! (i + 16)))]) [0..<n] p"
  shows "length r = 31 \<and> drop 16 r = drop 16 p \<and> (\<forall>x \<in> set r. \<bar>x\<bar> \<le> 39 * K) \<and>
         (\<forall>i < 31. n \<le> i \<longrightarrow> r ! i = p ! i) \<and>
         fval (take 16 r) = fval (take 16 p) + 38 * fval (take n (drop 16 p))"
  using assms(4) unfolding r_def
proof (induction n)
  case 0
  then show ?case using assms(1,2) by (auto simp: entries_within_def intro: order_trans)
next
  case (Suc n)
  define r where "r = fold (\<lambda>i p. p[i := s64 (p ! i + s64 (38 * p ! (i + 16)))]) [0..<n] p"
  have IH: "length r = 31" "drop 16 r = drop 16 p" "\<forall>x \<in> set r. \<bar>x\<bar> \<le> 39 * K"
    "\<forall>i < 31. n \<le> i \<longrightarrow> r ! i = p ! i"
    "fval (take 16 r) = fval (take 16 p) + 38 * fval (take n (drop 16 p))"
    using Suc by (simp_all add: r_def)
  have len: "length p = 31" using assms(1) by (simp add: entries_within_def)
  have rn: "r ! n = p ! n" "r ! (n + 16) = p ! (n + 16)" using IH(4) Suc.prems by simp_all
  have b: "\<bar>p ! n\<bar> \<le> K" "\<bar>p ! (n + 16)\<bar> \<le> K"
    using entries_within_nth[OF assms(1)] Suc.prems by simp_all
  define v where "v = p ! n + 38 * p ! (n + 16)"
  have v: "\<bar>v\<bar> \<le> 39 * K" using b unfolding v_def by linarith
  have w: "s64 (38 * p ! (n + 16)) = 38 * p ! (n + 16)" "s64 v = v"
    using b v assms(3) by (rule_tac [!] s64_id) (simp; linarith)+
  have step: "fold (\<lambda>i p. p[i := s64 (p ! i + s64 (38 * p ! (i + 16)))]) [0..<Suc n] p = r[n := v]"
    using w rn by (simp add: r_def[symmetric]) (simp add: v_def)
  have "fval (take 16 (r[n := v])) = fval ((take 16 r)[n := v])" by (simp add: take_update_swap)
  also have "\<dots> = fval (take 16 r) + 38 * p ! (n + 16) * radix ^ n"
    using Suc.prems IH(1) rn by (simp add: fval_update v_def)
  also have "\<dots> = fval (take 16 p) + 38 * fval (take (Suc n) (drop 16 p))"
    using IH(5) Suc.prems len by (simp add: fval_take_Suc algebra_simps)
  finally have "fval (take 16 (r[n := v])) = fval (take 16 p) + 38 * fval (take (Suc n) (drop 16 p))" .
  moreover have "\<forall>x \<in> set (r[n := v]). \<bar>x\<bar> \<le> 39 * K"
    using IH(3) v set_update_subset_insert[of r n v] by auto
  ultimately show ?case unfolding step using IH(1,2,4) Suc.prems by simp
qed

lemma multiply_correct:
  assumes "limbs_within (2 ^ 18) a" "limbs_within (2 ^ 18) b"
  shows "limbs_within (2 ^ 17) (multiply a b)"
    and "fval (multiply a b) mod p25519 = fval a * fval b mod p25519"
proof -
  define p where "p = fold (product_row a b) [0..<16] (replicate 31 0)"
  define r where "r = product_fold p"
  have p: "entries_within (2 ^ 44) p" "fval p = fval a * fval b"
    using product_rows[OF assms order_refl] assms by (simp_all add: p_def limbs_within_def)
  have len: "length p = 31" using p(1) by (simp add: entries_within_def)
  have r: "length r = 31" "\<forall>x \<in> set r. \<bar>x\<bar> \<le> 39 * 2 ^ 44"
    "fval (take 16 r) = fval (take 16 p) + 38 * fval (drop 16 p)"
    using product_fold_prefix[OF p(1), of 15] len by (simp_all add: r_def product_fold_def)
  have q: "limbs_within (2 ^ 50) (take 16 r)"
    using r(1,2) by (fastforce simp: limbs_within_def dest: in_set_takeD)
  have m: "multiply a b = carry_reduce (carry_reduce (take 16 r))"
    by (simp add: multiply_def Let_def p_def r_def)
  show "limbs_within (2 ^ 17) (multiply a b)" unfolding m by (rule carry_reduce_twice[OF q]) simp_all
  have "fval p = fval (take 16 p) + (2 * p25519 + 38) * fval (drop 16 p)"
    using fval_append[of "take 16 p" "drop 16 p"] len by (simp only: radix_16[symmetric]) simp
  then have "fval p = fval (take 16 r) + (2 * fval (drop 16 p)) * p25519"
    unfolding r(3) by (simp add: algebra_simps)
  then have "fval p mod p25519 = fval (take 16 r) mod p25519" by (simp only: mod_mult_self1)
  then show "fval (multiply a b) mod p25519 = fval a * fval b mod p25519"
    unfolding m carry_reduce_twice(2)[OF q _ order_refl, simplified] p(2)[symmetric] by simp
qed

end
