(* ===== verification/X25519_Correct.thy ===== *)
theory X25519_Correct
  imports X25519_Field
begin

text \<open>
  \<^verbatim>\<open>x25519\<close> computes the X25519 function of RFC 7748 (without the clamping of the
  scalar, which \<^verbatim>\<open>point_d\<close> does when it draws the key): \<open>rfc7748_x25519\<close> is the ladder
  of section 5 over integers modulo \<open>2 ^ 255 - 19\<close>. The proof is a simulation, limb
  representation against residue, through the 255 steps, the inversion and the
  reduction to the canonical residue in \<^verbatim>\<open>pack\<close>.
\<close>

type_synonym montgomery = "int \<times> int \<times> int \<times> int"

fun rfc7748_cswap :: "bool \<Rightarrow> montgomery \<Rightarrow> montgomery" where
  "rfc7748_cswap b (x2, z2, x3, z3) = (if b then (x3, z3, x2, z2) else (x2, z2, x3, z3))"

fun rfc7748_step :: "int \<Rightarrow> montgomery \<Rightarrow> montgomery" where
  "rfc7748_step x1 (x2, z2, x3, z3) =
     (let A = x2 + z2; AA = A ^ 2; B = x2 - z2; BB = B ^ 2; E = AA - BB;
          C = x3 + z3; D = x3 - z3; DA = D * A; CB = C * B
      in (AA * BB mod p25519, E * (AA + 121665 * E) mod p25519,
          (DA + CB) ^ 2 mod p25519, x1 * (DA - CB) ^ 2 mod p25519))"

definition rfc7748_ladder :: "nat \<Rightarrow> int \<Rightarrow> montgomery" where
  "rfc7748_ladder k x1 =
     fold (\<lambda>t s. rfc7748_cswap (bit k t) (rfc7748_step x1 (rfc7748_cswap (bit k t) s)))
       (rev [0..<255]) (1, 0, x1, 1)"

definition rfc7748_x25519 :: "nat \<Rightarrow> int \<Rightarrow> int" where
  "rfc7748_x25519 k u =
     (let (x2, z2, x3, z3) = rfc7748_ladder k u in x2 * z2 ^ nat (p25519 - 2) mod p25519)"

subsection \<open>Field operations\<close>

definition fe :: "field_t \<Rightarrow> int \<Rightarrow> bool" where
  "fe q v \<longleftrightarrow> limbs_within (2 ^ 17) q \<and> fval q mod p25519 = v mod p25519"

definition fe_wide :: "field_t \<Rightarrow> int \<Rightarrow> bool" where
  "fe_wide q v \<longleftrightarrow> limbs_within (2 ^ 18) q \<and> fval q mod p25519 = v mod p25519"

lemma fe_imp_wide: "fe q v \<Longrightarrow> fe_wide q v"
  by (auto simp: fe_def fe_wide_def elim: limbs_within_mono)

lemma fe_mod: "fe q v \<Longrightarrow> fe q (v mod p25519)"
  by (simp add: fe_def)

lemma multiply_fe:
  assumes "fe_wide a x" "fe_wide b y"
  shows "fe (multiply a b) (x * y)"
proof -
  have "fval a * fval b mod p25519 = x * y mod p25519"
    using assms by (simp add: fe_wide_def) (metis mod_mult_cong)
  then show ?thesis using multiply_correct[of a b] assms by (simp add: fe_def fe_wide_def)
qed

lemma square_fe: "fe_wide a x \<Longrightarrow> fe (square a) (x ^ 2)"
  using multiply_fe[of a x a x] by (simp add: square_def power2_eq_square)

lemma fval_map2:
  assumes "length a = length b"
  shows "fval (map2 (+) a b) = fval a + fval b" "fval (map2 (-) a b) = fval a - fval b"
  using assms by (induction a b rule: list_induct2) (simp_all add: algebra_simps)

lemma map_upt_16:
  assumes "length a = 16" "length b = 16"
  shows "map (\<lambda>i. f (a ! i) (b ! i)) [0..<16] = map2 f a b"
  using assms by (intro nth_equalityI) simp_all

lemma limbwise_s64:
  assumes "limbs_within (2 ^ 17) a" "limbs_within (2 ^ 17) b" "i < 16"
  shows "s64 (a ! i + b ! i) = a ! i + b ! i" "s64 (a ! i - b ! i) = a ! i - b ! i"
    "\<bar>a ! i + b ! i\<bar> \<le> 2 ^ 18" "\<bar>a ! i - b ! i\<bar> \<le> 2 ^ 18"
proof -
  have "\<bar>a ! i\<bar> \<le> 131072" "\<bar>b ! i\<bar> \<le> 131072"
    using limbs_within_nth[OF assms(1,3)] limbs_within_nth[OF assms(2,3)] by simp_all
  then show "\<bar>a ! i + b ! i\<bar> \<le> 2 ^ 18" "\<bar>a ! i - b ! i\<bar> \<le> 2 ^ 18" by (simp; linarith)+
  then show "s64 (a ! i + b ! i) = a ! i + b ! i" "s64 (a ! i - b ! i) = a ! i - b ! i"
    by (rule_tac [!] s64_id) (simp; linarith)+
qed

lemma add_fe:
  assumes "fe a x" "fe b y"
  shows "fe_wide (add a b) (x + y)" "fe_wide (add_inplace a b) (x + y)"
proof -
  have ab: "limbs_within (2 ^ 17) a" "limbs_within (2 ^ 17) b" using assms by (simp_all add: fe_def)
  then have l: "length a = 16" "length b = 16" by (simp_all add: limbs_within_def)
  have "add a b = map (\<lambda>i. a ! i + b ! i) [0..<16]"
    unfolding add_def using limbwise_s64(1)[OF ab] by (intro map_cong) simp_all
  moreover from this have "fval (add a b) = fval a + fval b" using l by (simp add: map_upt_16 fval_map2)
  ultimately have "fe_wide (add a b) (x + y)"
    using limbwise_s64(3)[OF ab] assms
    by (auto simp: fe_wide_def fe_def limbs_within_def intro: mod_add_cong)
  then show "fe_wide (add a b) (x + y)" "fe_wide (add_inplace a b) (x + y)"
    by (simp_all add: add_def add_inplace_def)
qed

lemma subtract_fe:
  assumes "fe a x" "fe b y"
  shows "fe_wide (subtract a b) (x - y)" "fe_wide (subtract_inplace a b) (x - y)"
proof -
  have ab: "limbs_within (2 ^ 17) a" "limbs_within (2 ^ 17) b" using assms by (simp_all add: fe_def)
  then have l: "length a = 16" "length b = 16" by (simp_all add: limbs_within_def)
  have "subtract a b = map (\<lambda>i. a ! i - b ! i) [0..<16]"
    unfolding subtract_def using limbwise_s64(2)[OF ab] by (intro map_cong) simp_all
  moreover from this have "fval (subtract a b) = fval a - fval b" using l by (simp add: map_upt_16 fval_map2)
  ultimately have "fe_wide (subtract a b) (x - y)"
    using limbwise_s64(4)[OF ab] assms
    by (auto simp: fe_wide_def fe_def limbs_within_def intro: mod_diff_cong)
  then show "fe_wide (subtract a b) (x - y)" "fe_wide (subtract_inplace a b) (x - y)"
    by (simp_all add: subtract_def subtract_inplace_def)
qed

lemma swap_sel:
  assumes "length a = 16" "length b = 16"
  shows "swap a b 0 = (a, b)" "swap a b 1 = (b, a)"
proof -
  have x: "x XOR (x XOR y) = y" "x XOR (y XOR x) = y" for x y :: int
    by (simp_all flip: xor.assoc) (metis xor.assoc xor.commute xor_self_eq xor.right_neutral)
  have "map ((!) a) [0..<16] = a" "map ((!) b) [0..<16] = b" using assms by (metis map_nth)+
  then show "swap a b 0 = (a, b)" "swap a b 1 = (b, a)"
    by (simp_all add: swap_def x xor.commute)
qed

lemma c1db41_fe: "fe c1db41 121665"
  by (simp add: fe_def limbs_within_def c1db41_def numeral_eq_Suc)

subsection \<open>Inversion\<close>

lemma inverse_step_fe:
  assumes "fe e (v ^ n)" "fe q v"
  shows "fe (inverse_step q i e) (v ^ (if i \<noteq> 251 \<and> i \<noteq> 249 then 2 * n + 1 else 2 * n))"
proof -
  have s: "fe (square e) (v ^ (2 * n))" using square_fe[OF fe_imp_wide[OF assms(1)]] by (simp add: power_mult[symmetric] mult.commute)
  show ?thesis
    using s multiply_fe[OF fe_imp_wide[OF s] fe_imp_wide[OF assms(2)]] by (auto simp: inverse_step_def Let_def mult.commute)
qed

primrec inverse_exponent :: "nat \<Rightarrow> nat" where
  "inverse_exponent 0 = 1"
| "inverse_exponent (Suc i) =
     (if i \<noteq> 251 \<and> i \<noteq> 249 then 2 * inverse_exponent i + 1 else 2 * inverse_exponent i)"

lemma inverse_prefix_fe:
  "fe q v \<Longrightarrow> fe (fold (inverse_step q) [0..<n] q) (v ^ inverse_exponent n)"
proof (induction n)
  case (Suc n)
  then show ?case using inverse_step_fe[of "fold (inverse_step q) [0..<n] q" v "inverse_exponent n" q n]
    by simp
qed simp

lemma inverse_exponent_ones: "n \<le> 249 \<Longrightarrow> inverse_exponent n + 1 = 2 ^ (n + 1)"
  by (induction n) auto

lemma inverse_exponent_254: "int (inverse_exponent 254) = p25519 - 2"
proof -
  have "inverse_exponent 249 + 1 = 2 ^ 250" using inverse_exponent_ones[of 249] by simp
  then have "int (inverse_exponent 249) = 2 ^ 250 - 1" by (simp add: algebra_simps flip: of_nat_Suc)
  then show ?thesis
    using inverse_exponent.simps(2)[of 249] inverse_exponent.simps(2)[of 250]
      inverse_exponent.simps(2)[of 251] inverse_exponent.simps(2)[of 252]
      inverse_exponent.simps(2)[of 253]
    by (simp add: p25519_def)
qed

lemma inverse_fe_correct: "fe q v \<Longrightarrow> fe (inverse_fe q) (v ^ nat (p25519 - 2))"
  using inverse_prefix_fe[of q v 254] inverse_exponent_254 by (metis inverse_fe_def nat_int)


subsection \<open>The ladder\<close>

fun lad :: "ladder_t \<Rightarrow> montgomery \<Rightarrow> bool" where
  "lad s (x2, z2, x3, z3) \<longleftrightarrow>
     fe (inputs0 s) x2 \<and> fe (inputs2 s) z2 \<and> fe (inputs1 s) x3 \<and> fe (inputs3 s) z3"

lemma ladder_swap_lad:
  assumes "lad s st"
  shows "lad (ladder_swap (of_bool b) s) (rfc7748_cswap b st)"
proof -
  obtain x2 z2 x3 z3 where st: "st = (x2, z2, x3, z3)" by (metis prod_cases4)
  have "length (inputs0 s) = 16" "length (inputs1 s) = 16" "length (inputs2 s) = 16" "length (inputs3 s) = 16"
    using assms by (simp_all add: st fe_def limbs_within_def)
  then show ?thesis using assms by (cases b) (simp_all add: st ladder_swap_def swap_sel)
qed

lemma ladder_formulas_lad:
  assumes "fe x x1" "lad s st"
  shows "lad (ladder_formulas x s) (rfc7748_step x1 st)"
proof -
  obtain x2 z2 x3 z3 where st: "st = (x2, z2, x3, z3)" by (metis prod_cases4)
  have i: "fe (inputs0 s) x2" "fe (inputs2 s) z2" "fe (inputs1 s) x3" "fe (inputs3 s) z3"
    using assms(2) by (simp_all add: st)
  define v1 v2 v3 v4 where "v1 = add (inputs0 s) (inputs2 s)"
    and "v2 = subtract_inplace (inputs0 s) (inputs2 s)"
    and "v3 = add (inputs1 s) (inputs3 s)" and "v4 = subtract_inplace (inputs1 s) (inputs3 s)"
  define A B C D where "A = x2 + z2" and "B = x2 - z2" and "C = x3 + z3" and "D = x3 - z3"
  have v: "fe_wide v1 A" "fe_wide v2 B" "fe_wide v3 C" "fe_wide v4 D"
    unfolding v1_def v2_def v3_def v4_def A_def B_def C_def D_def
    using i add_fe subtract_fe by simp_all
  define v5 v6 v7 v8 where "v5 = square v1" and "v6 = square v2"
    and "v7 = multiply v3 v2" and "v8 = multiply v4 v1"
  have w: "fe v5 (A ^ 2)" "fe v6 (B ^ 2)" "fe v7 (C * B)" "fe v8 (D * A)"
    unfolding v5_def v6_def v7_def v8_def using v square_fe multiply_fe by simp_all
  define v9 v10 v12 where "v9 = add v7 v8" and "v10 = subtract_inplace v7 v8" and "v12 = subtract v5 v6"
  define E where "E = A ^ 2 - B ^ 2"
  have u: "fe_wide v9 (C * B + D * A)" "fe_wide v10 (C * B - D * A)" "fe_wide v12 E"
    unfolding v9_def v10_def v12_def E_def using w add_fe subtract_fe by simp_all
  define v11 v13 where "v11 = square v10" and "v13 = multiply v12 c1db41"
  have t: "fe v11 ((C * B - D * A) ^ 2)" "fe v13 (E * 121665)"
    unfolding v11_def v13_def using u square_fe multiply_fe fe_imp_wide[OF c1db41_fe] by simp_all
  have y: "fe_wide (add_inplace v13 v5) (E * 121665 + A ^ 2)" using t(2) w(1) by (rule add_fe)
  have "ladder_formulas x s = \<lparr>inputs0 = multiply v5 v6, inputs1 = square v9,
      inputs2 = multiply v12 (add_inplace v13 v5), inputs3 = multiply v11 x\<rparr>"
    by (simp add: ladder_formulas_def Let_def v1_def v2_def v3_def v4_def v5_def v6_def v7_def v8_def
        v9_def v10_def v11_def v12_def v13_def)
  moreover have "fe (multiply v5 v6) (A ^ 2 * B ^ 2)" "fe (square v9) ((C * B + D * A) ^ 2)"
    "fe (multiply v12 (add_inplace v13 v5)) (E * (E * 121665 + A ^ 2))"
    "fe (multiply v11 x) ((C * B - D * A) ^ 2 * x1)"
    using w u t y assms(1) multiply_fe square_fe fe_imp_wide by simp_all
  moreover have "(C * B - D * A) ^ 2 * x1 = x1 * (D * A - C * B) ^ 2"
    "E * (E * 121665 + A ^ 2) = E * (A ^ 2 + 121665 * E)" "(C * B + D * A) ^ 2 = (D * A + C * B) ^ 2"
    by algebra+
  ultimately show ?thesis
    unfolding st rfc7748_step.simps Let_def A_def[symmetric] B_def[symmetric] C_def[symmetric]
      D_def[symmetric] E_def[symmetric] lad.simps by (auto intro!: fe_mod)
qed

lemma bit_le_value:
  assumes "length bs = 32" "n < 256"
  shows "bit (le_value bs) n \<longleftrightarrow> bit (bs ! (n div 8)) (n mod 8)"
proof -
  have "bit (le_pack bs :: 256 word) n \<longleftrightarrow> bit (le_value bs) n"
    using assms(2) by (simp add: le_pack_value bit_of_nat_iff)
  moreover have "n div 8 < 32" using assms(2) by (simp add: less_mult_imp_div_less)
  ultimately show ?thesis using assms by (simp add: bit_le_pack)
qed

lemma ladder_bit_eq:
  assumes "length key = 32" "i < 255"
  shows "ladder_bit key i = of_bool (bit (le_value key) i)"
proof -
  have "drop_bit n w AND 1 = of_bool (bit w n)" for n and w :: int
    by (simp add: and_one_eq bit_iff_odd_drop_bit mod_2_eq_odd)
  then show ?thesis using assms by (simp add: ladder_bit_def bit_le_value bit_uint_iff)
qed

lemma ladder_prefix_lad:
  assumes "fe x x1" "length key = 32" "\<forall>i \<in> set ts. i < 255" "lad s st"
  shows "lad (fold (ladder_step x key) ts s)
     (fold (\<lambda>t st. rfc7748_cswap (bit (le_value key) t)
        (rfc7748_step x1 (rfc7748_cswap (bit (le_value key) t) st))) ts st)"
  using assms(3,4)
proof (induction ts arbitrary: s st)
  case (Cons i ts)
  have "lad (ladder_step x key i s) (rfc7748_cswap (bit (le_value key) i)
      (rfc7748_step x1 (rfc7748_cswap (bit (le_value key) i) st)))"
    unfolding ladder_step_def Let_def using Cons.prems assms(1,2)
    by (simp only: ladder_bit_eq list.set insert_iff ball_simps)
      (intro ladder_swap_lad ladder_formulas_lad, simp_all)
  with Cons show ?case by simp
qed simp


subsection \<open>Unpacking\<close>

lemma fval_byte_pairs:
  "length bs = 2 * n \<Longrightarrow>
     fval (map (\<lambda>i. uint (bs ! (2 * i)) + push_bit 8 (uint (bs ! (2 * i + 1)))) [0..<n]) = int (le_value bs)"
proof (induction n arbitrary: bs)
  case (Suc n)
  obtain a bs' where "bs = a # bs'" using Suc.prems by (cases bs) auto
  moreover from this obtain b cs where "bs' = b # cs" using Suc.prems by (cases bs') auto
  ultimately have bs: "bs = a # b # cs" "length cs = 2 * n" using Suc.prems by simp_all
  have "map (\<lambda>i. uint (bs ! (2 * i)) + push_bit 8 (uint (bs ! (2 * i + 1)))) [0..<Suc n] =
      (uint a + push_bit 8 (uint b)) #
      map (\<lambda>i. uint (cs ! (2 * i)) + push_bit 8 (uint (cs ! (2 * i + 1)))) [0..<n]"
    unfolding map_upt_Suc by (simp add: bs)
  then show ?case using Suc.IH[OF bs(2)] by (simp add: bs push_bit_eq_mult algebra_simps)
qed simp

lemma fval_top_masked:
  assumes "length q = 16" "\<forall>x \<in> set q. 0 \<le> x \<and> x < radix"
  shows "fval (q[15 := q ! 15 AND 0x7fff]) = fval q mod 2 ^ 255"
proof -
  have "q ! 15 AND 0x7fff = q ! 15 mod 2 ^ 15"
    using take_bit_eq_mask[of 15 "q ! 15"] by (simp add: take_bit_eq_mod mask_eq_exp_minus_1)
  moreover have v: "fval q = fval (take 15 q) + radix ^ 15 * q ! 15"
    using fval_take_Suc[of 15 q] assms(1) by simp
  moreover have "0 \<le> fval (take 15 q) \<and> fval (take 15 q) < radix ^ 15"
  proof -
    have "(\<forall>x \<in> set xs. 0 \<le> x \<and> x < radix) \<Longrightarrow> 0 \<le> fval xs \<and> fval xs < radix ^ length xs" for xs
      by (induction xs) auto
    from this[of "take 15 q"] show ?thesis using assms by (auto dest: in_set_takeD)
  qed
  moreover have "fval q mod (radix ^ 15 * 2 ^ 15) = radix ^ 15 * (fval q div radix ^ 15 mod 2 ^ 15) + fval q mod radix ^ 15"
    by (rule zmod_zmult2_eq) simp
  ultimately show ?thesis
    using assms(1) by (simp add: fval_update algebra_simps)
qed

lemma unpack_fe:
  assumes "length bs = 32"
  shows "fe (unpack bs) (int (le_value bs) mod 2 ^ 255)"
proof -
  define q where "q = map (\<lambda>i. uint (bs ! (2 * i)) + push_bit 8 (uint (bs ! (2 * i + 1)))) [0..<16]"
  have r: "0 \<le> uint a + push_bit 8 (uint b) \<and> uint a + push_bit 8 (uint b) < radix" for a b :: byte
    using uint_lt2p[of a] uint_lt2p[of b] by (simp add: push_bit_eq_mult)
  have q: "length q = 16" "\<forall>x \<in> set q. 0 \<le> x \<and> x < radix" using r by (auto simp: q_def)
  have u: "unpack bs = q[15 := q ! 15 AND 0x7fff]" by (simp add: unpack_def q_def Let_def)
  have "0 \<le> q ! 15 AND 0x7fff \<and> q ! 15 AND 0x7fff < radix"
    using AND_upper2[of "0x7fff" "q ! 15"] by (simp add: AND_lower)
  then have "limbs_within (2 ^ 17) (unpack bs)"
    using q set_update_subset_insert[of q 15 "q ! 15 AND 0x7fff"] by (fastforce simp: limbs_within_def u)
  moreover have "fval q = int (le_value bs)" unfolding q_def by (rule fval_byte_pairs) (simp add: assms)
  ultimately show ?thesis using fval_top_masked[OF q] by (simp add: fe_def u)
qed


subsection \<open>Packing\<close>

lemma fold_twice_range:
  fixes N v w x K :: int
  assumes "w = v mod N + 38 * (v div N)" "x = w mod N + 38 * (w div N)"
    and "\<bar>38 * (v div N)\<bar> \<le> K" "\<bar>w div N\<bar> \<le> 1" "K + 38 < N" "0 < N"
  shows "0 \<le> x \<and> x < N"
proof -
  define r t where "r = v mod N" and "t = 38 * (v div N)"
  have r: "0 \<le> r" "r < N" "0 \<le> w mod N" "w mod N < N" using assms(6) by (simp_all add: r_def)
  have w: "w = N * (w div N) + w mod N" "w = r + t" "\<bar>t\<bar> \<le> K" "x = w mod N + 38 * (w div N)"
    using assms(1,2,3) by (simp_all add: r_def t_def)
  from assms(4) consider "w div N = 0" | "w div N = 1" | "w div N = - 1" by linarith
  then show ?thesis
  proof cases
    case 1
    then show ?thesis using r w(4) by simp
  next
    case 2
    then have "w mod N = w - N" "x = w mod N + 38" using w(1,4) by simp_all
    then show ?thesis using r w(2,3) assms(5) by linarith
  next
    case 3
    then have "w mod N = w + N" "x = w mod N - 38" using w(1,4) by simp_all
    then show ?thesis using r w(2,3) assms(5) by linarith
  qed
qed

lemma carry_reduce_thrice:
  assumes "limbs_within (2 ^ 17) q"
  shows "\<exists>v. carry_reduce (carry_reduce (carry_reduce q)) = digits 16 v \<and> 0 \<le> v \<and> v < radix ^ 16 \<and>
             v mod p25519 = fval q mod p25519"
proof -
  define N :: int where "N = radix ^ 16"
  have N: "2 ^ 60 \<le> N" "0 < N" by (simp_all add: N_def)
  let ?q1 = "carry_reduce q" and ?q2 = "carry_reduce (carry_reduce q)"
  have c0: "\<bar>fval q div N\<bar> \<le> 2 ^ 17"
    unfolding N_def using assms by (intro abs_fval_div) (auto simp: limbs_within_def)
  have q1: "limbs_within (radix + 38 * 2 ^ 17) ?q1" "fval ?q1 = fval q mod N + 38 * (fval q div N)"
    using carry_reduce_within[OF assms _ _ c0[unfolded N_def]] fval_carry_reduce[OF assms]
    by (simp_all add: N_def)
  have c1: "\<bar>fval ?q1 div N\<bar> \<le> 1"
    using q1(2) c0 N by (intro fold_carry_small) (simp_all, linarith)
  have q2: "limbs_within (radix + 38 * 1) ?q2" "fval ?q2 = fval ?q1 mod N + 38 * (fval ?q1 div N)"
    using carry_reduce_within[OF q1(1) _ _ c1[unfolded N_def]] fval_carry_reduce[OF q1(1)]
    by (simp_all add: N_def)
  have r: "0 \<le> fval ?q2 \<and> fval ?q2 < N"
  proof (rule fold_twice_range[OF q1(2) q2(2) _ c1])
    show "\<bar>38 * (fval q div N)\<bar> \<le> 38 * 2 ^ 17" using c0 by linarith
    show "38 * 2 ^ 17 + 38 < N" using N(1) by simp
  qed (rule N)
  then have z: "fval ?q2 div N = 0" by simp
  have "digits 16 (fval ?q2) ! 0 = fval ?q2 mod radix" by (rule digits_nth_0) simp
  then have "carry_reduce ?q2 = digits 16 (fval ?q2)"
    using carry_reduce_eq[OF q2(1)] z by (simp add: N_def) (metis list_update_id)
  moreover have "fval ?q2 mod p25519 = fval q mod p25519"
    by (simp only: q2(2) q1(2) N_def mod_p25519_fold)
  ultimately show ?thesis using r unfolding N_def by blast
qed

lemma abs_fval_digits_less: "\<forall>x \<in> set q. \<bar>x\<bar> \<le> 65535 \<Longrightarrow> \<bar>fval q\<bar> < radix ^ length q"
  using abs_fval_less[of q 65535] by simp

lemma div_minus1_or_0: "\<bar>v\<bar> < N \<Longrightarrow> v div N = (if v < 0 then - 1 else 0)" for v N :: int
  using int_div_pos_eq[of v N "- 1" "v + N"] by (auto simp: div_pos_pos_trivial)


definition p_limb :: "nat \<Rightarrow> int" where
  "p_limb i = (if i = 0 then 0xffed else if i = 15 then 0x7fff else 0xffff)"

definition p_diff :: "field_t \<Rightarrow> field_t" where
  "p_diff e = map (\<lambda>i. e ! i - p_limb i) [0..<16]"

lemma fval_p_diff:
  assumes "length e = 16"
  shows "fval (p_diff e) = fval e - p25519"
proof -
  let ?p = "map p_limb [0..<16]"
  have "p_diff e = map2 (-) e ?p"
    using assms by (intro nth_equalityI) (simp_all add: p_diff_def)
  moreover have "fval ?p = p25519"
    by (simp add: p_limb_def p25519_def upt_conv_Cons)
  ultimately show ?thesis using assms by (simp add: fval_map2)
qed

lemma p_diff_small:
  assumes "length e = 16" "\<forall>x \<in> set e. 0 \<le> x \<and> x < radix"
  shows "\<forall>x \<in> set (p_diff e). \<bar>x\<bar> \<le> 65535" "length (p_diff e) = 16"
proof -
  have "\<bar>e ! i - p_limb i\<bar> \<le> 65535" if "i < 16" for i
  proof -
    have "0 \<le> e ! i" "e ! i < radix" using assms that by simp_all
    moreover have "0 \<le> p_limb i" "p_limb i \<le> 65535" by (simp_all add: p_limb_def)
    ultimately show ?thesis by linarith
  qed
  then show "\<forall>x \<in> set (p_diff e). \<bar>x\<bar> \<le> 65535" "length (p_diff e) = 16" by (auto simp: p_diff_def)
qed

lemma borrow_limb:
  assumes "\<forall>x \<in> set d. \<bar>x\<bar> \<le> 65535" "length d = 16" "k < 16"
  defines "t \<equiv> fval (take (Suc k) d) div radix ^ k"
  shows "\<bar>t\<bar> \<le> radix" "t div radix = (if t < 0 then - 1 else 0)"
    "t div radix = fval (take (Suc k) d) div radix ^ Suc k"
proof -
  have F: "\<bar>fval (take n d)\<bar> < radix ^ n" if "n \<le> 16" for n
    using abs_fval_digits_less[of "take n d"] assms(1,2) that by (auto dest: in_set_takeD)
  have "t = fval (take k d) div radix ^ k + d ! k"
    using assms(2,3) by (simp add: t_def fval_take_Suc)
  moreover have "fval (take k d) div radix ^ k \<in> {- 1, 0}"
    using div_minus1_or_0[OF F[of k]] assms(3) by simp
  moreover have "\<bar>d ! k\<bar> \<le> 65535" using assms(1,2,3) by simp
  ultimately show "\<bar>t\<bar> \<le> radix" by auto
  show e: "t div radix = fval (take (Suc k) d) div radix ^ Suc k"
    by (simp add: t_def zdiv_zmult2_eq[symmetric] mult.commute)
  have "t < 0 \<longleftrightarrow> fval (take (Suc k) d) < 0" by (simp add: t_def pos_imp_zdiv_neg_iff)
  then show "t div radix = (if t < 0 then - 1 else 0)"
    unfolding e using div_minus1_or_0[OF F[of "Suc k"]] assms(3) by simp
qed

lemma borrow_bit: "\<bar>t\<bar> \<le> radix \<Longrightarrow> t div radix = (if t < 0 then - 1 else 0) \<Longrightarrow>
    drop_bit 16 t AND 1 = - (t div radix)" for t :: int
  by (simp add: drop_bit_eq_div split: if_splits)

lemma and_ffff: "t AND 0xffff = t mod radix" for t :: int
  using take_bit_eq_mask[of 16 t] by (simp add: take_bit_eq_mod mask_eq_exp_minus_1)


lemma pack_step_eq:
  assumes "length xs = k" "k < 15" "\<bar>t\<bar> \<le> radix" "t div radix = (if t < 0 then - 1 else 0)"
    and "\<bar>e ! Suc k - p_limb (Suc k)\<bar> \<le> 65535"
  shows "pack_step e (Suc k) (xs @ t # z # zs) =
     xs @ (t mod radix) # (e ! Suc k - p_limb (Suc k) + t div radix) # zs"
proof -
  have "s64 (e ! Suc k - p_limb (Suc k) + t div radix) = e ! Suc k - p_limb (Suc k) + t div radix"
    using assms(4,5) by (intro s64_id) (simp split: if_splits; linarith)+
  moreover have "(if Suc k = 15 then 0x7fff else 0xffff) = p_limb (Suc k)" by (simp add: p_limb_def)
  ultimately show ?thesis
    using assms(1) borrow_bit[OF assms(3,4)]
    by (simp add: pack_step_def Let_def nth_append list_update_append and_ffff)
qed

lemma pack_prefix:
  assumes "length e = 16" "\<forall>x \<in> set e. 0 \<le> x \<and> x < radix" "k \<le> 15"
  shows "fold (pack_step e) [1..<Suc k] ((replicate 16 0)[0 := s64 (e ! 0 - 0xffed)]) =
     digits k (fval (take k (p_diff e))) @ (fval (take (Suc k) (p_diff e)) div radix ^ k) # replicate (15 - k) 0"
  using assms(3)
proof (induction k)
  case 0
  have e0: "0 \<le> e ! 0" "e ! 0 < radix" using assms by simp_all
  have "s64 (e ! 0 - 0xffed) = e ! 0 - 0xffed" using e0 by (intro s64_id) simp_all
  moreover have "fval (take (Suc 0) (p_diff e)) = e ! 0 - 0xffed"
    by (simp add: fval_take_Suc p_diff_def p_limb_def)
  moreover have "replicate 16 (0 :: int) = 0 # replicate 15 0" by (simp flip: replicate_Suc)
  ultimately show ?case by simp
next
  case (Suc k)
  let ?d = "p_diff e"
  let ?F = "\<lambda>n. fval (take n ?d)"
  define t where "t = ?F (Suc k) div radix ^ k"
  note d = p_diff_small[OF assms(1,2)]
  have k: "k < 15" using Suc.prems by simp
  have t: "\<bar>t\<bar> \<le> radix" "t div radix = (if t < 0 then - 1 else 0)" "t div radix = ?F (Suc k) div radix ^ Suc k"
    unfolding t_def by (rule borrow_limb[OF d]; use k in simp)+
  have dk: "?d ! Suc k = e ! Suc k - p_limb (Suc k)" using k by (simp add: p_diff_def)
  have "?d ! Suc k \<in> set ?d" using d(2) k by (intro nth_mem) simp
  then have dk': "\<bar>e ! Suc k - p_limb (Suc k)\<bar> \<le> 65535" using d(1) dk by fastforce
  have r: "replicate (15 - k) (0 :: int) = 0 # replicate (15 - Suc k) 0"
    using k by (metis Suc_diff_Suc replicate_Suc)
  have "fold (pack_step e) [1..<Suc (Suc k)] ((replicate 16 0)[0 := s64 (e ! 0 - 0xffed)]) =
      pack_step e (Suc k) (digits k (?F k) @ t # 0 # replicate (15 - Suc k) 0)"
    using Suc by (simp add: t_def r)
  also have "\<dots> = digits k (?F k) @ (t mod radix) # (?d ! Suc k + t div radix) # replicate (15 - Suc k) 0"
    using pack_step_eq[OF _ k t(1,2) dk'] by (simp add: dk)
  also have "digits k (?F k) = digits k (?F (Suc k))"
    using k d(2) by (intro digits_cong) (simp add: fval_take_Suc)
  also have "?d ! Suc k + t div radix = ?F (Suc (Suc k)) div radix ^ Suc k"
    unfolding t(3) using k d(2) fval_take_Suc[of "Suc k" ?d] by simp
  finally show ?case by (simp add: t_def digits_snoc del: digits.simps)
qed

lemma pack_round_eq:
  assumes "0 \<le> v" "v < radix ^ 16"
  shows "pack_round (digits 16 v) = digits 16 (if p25519 \<le> v then v - p25519 else v)"
proof -
  let ?e = "digits 16 v" let ?d = "p_diff ?e"
  have e: "length ?e = 16" "\<forall>x \<in> set ?e. 0 \<le> x \<and> x < radix" using digits_range by (simp, blast)
  note d = p_diff_small[OF e]
  have fv: "fval ?d = v - p25519" using assms by (simp add: fval_p_diff fval_digits del: digits.simps)
  define t where "t = (v - p25519) div radix ^ 15"
  have "take 16 ?d = ?d" "take (Suc 15) ?d = ?d" using d(2) by simp_all
  then have t: "\<bar>t\<bar> \<le> radix" "t div radix = (if t < 0 then - 1 else 0)"
    using borrow_limb[OF d, of 15] by (simp_all add: fv t_def)
  define m where "m = fold (pack_step ?e) [1..<16] ((replicate 16 0)[0 := s64 (?e ! 0 - 0xffed)])"
  have m15: "m = digits 15 (fval (take 15 ?d)) @ [t]"
    using pack_prefix[OF e, of 15] d(2) by (simp add: m_def fv t_def del: digits.simps)
  also have "digits 15 (fval (take 15 ?d)) = digits 15 (v - p25519)"
    using fval_take_Suc[of 15 ?d] d(2) fv by (intro digits_cong) simp
  finally have m: "m = digits 15 (v - p25519) @ [t]" .
  have lm: "length m = 16" by (simp add: m)
  have pr: "pack_round ?e = fst (swap ?e m (1 + t div radix))"
    unfolding pack_round_def Let_def m_def[symmetric]
    using borrow_bit[OF t] by (simp add: m nth_append del: digits.simps)
  have neg: "t < 0 \<longleftrightarrow> v < p25519" by (simp add: t_def pos_imp_zdiv_neg_iff)
  show ?thesis
  proof (cases "v < p25519")
    case True
    then have "t div radix = - 1" using t(2) neg by simp
    then show ?thesis using True pr swap_sel(1)[OF e(1) lm] by simp
  next
    case False
    then have "t div radix = 0" using t(2) neg by simp
    moreover from this have "t = t mod radix" by (metis add_cancel_right_left div_mult_mod_eq mult_zero_left)
    then have "m = digits 16 (v - p25519)" using digits_snoc[of 15 "v - p25519"] m by (simp add: t_def del: digits.simps)
    ultimately show ?thesis using False pr swap_sel(2)[OF e(1) lm] by simp
  qed
qed


lemma pack_rounds_canonical:
  assumes "0 \<le> v" "v < radix ^ 16"
  shows "pack_round (pack_round (digits 16 v)) = digits 16 (v mod p25519)"
proof -
  have p: "0 < p25519" by (simp add: p25519_def)
  have "v < 3 * p25519" "v < radix ^ 16" using assms(2) by (simp_all add: p25519_def)
  define w where "w = (if p25519 \<le> v then v - p25519 else v)"
  have w: "0 \<le> w" "w < radix ^ 16" "w mod p25519 = v mod p25519" "w < 2 * p25519"
    using assms p \<open>v < 3 * p25519\<close> by (auto simp: w_def)
  have "(if p25519 \<le> w then w - p25519 else w) = w mod p25519"
  proof (cases "p25519 \<le> w")
    case True
    have "(w - p25519) mod p25519 = w - p25519" using True w(4) by (intro mod_pos_pos_trivial) simp_all
    with True show ?thesis by simp
  qed (use w(1) in simp)
  then show ?thesis
    using pack_round_eq[OF assms] pack_round_eq[OF w(1,2)] w(3) by (simp add: w_def)
qed

lemma nth_digits: "i < n \<Longrightarrow> digits n v ! i = v div radix ^ i mod radix"
proof (induction n arbitrary: i v)
  case (Suc n)
  then show ?case by (cases i) (simp_all add: zdiv_zmult2_eq[symmetric])
qed simp

lemma concat_pairs: "concat (map (\<lambda>i. [f (2 * i), f (Suc (2 * i))]) [0..<n]) = map f [0..<2 * n]"
  by (induction n) simp_all

lemma word_byte_eqI: "a mod 256 = b mod 256 \<Longrightarrow> (word_of_int a :: byte) = word_of_int b"
  by (simp add: word_of_int_eq_iff take_bit_eq_mod)

lemma limb_bytes:
  "(word_of_int (drop_bit 0 (v div radix ^ i mod radix) AND 0xff) :: byte) = word_of_int (v div 256 ^ (2 * i))"
  "(word_of_int (drop_bit 8 (v div radix ^ i mod radix) AND 0xff) :: byte) = word_of_int (v div 256 ^ Suc (2 * i))"
proof -
  have r: "radix ^ i = 256 ^ (2 * i)" by (simp add: power_mult)
  have a: "x AND 0xff = x mod 256" for x :: int
    using take_bit_eq_mask[of 8 x] by (simp add: take_bit_eq_mod mask_eq_exp_minus_1)
  show "(word_of_int (drop_bit 0 (v div radix ^ i mod radix) AND 0xff) :: byte) = word_of_int (v div 256 ^ (2 * i))"
    by (rule word_byte_eqI) (simp add: a r mod_mod_cancel)
  have "x mod radix div 256 mod 256 = x div 256 mod 256" for x :: int
  proof -
    have "x mod (256 * 256) = 256 * (x div 256 mod 256) + x mod 256" by (rule zmod_zmult2_eq) simp
    then show ?thesis by simp
  qed
  then show "(word_of_int (drop_bit 8 (v div radix ^ i mod radix) AND 0xff) :: byte) =
      word_of_int (v div 256 ^ Suc (2 * i))"
    by (intro word_byte_eqI) (simp add: a r drop_bit_eq_div zdiv_zmult2_eq[symmetric] mult.commute)
qed

lemma digits_bytes:
  assumes "0 \<le> v" "v < radix ^ 16"
  shows "concat (map (\<lambda>i. [word_of_int (drop_bit 0 (digits 16 v ! i) AND 0xff),
                            word_of_int (drop_bit 8 (digits 16 v ! i) AND 0xff)]) [0..<16]) =
     le_unpack 32 (word_of_int v :: 256 word)"
proof -
  have "concat (map (\<lambda>i. [word_of_int (drop_bit 0 (digits 16 v ! i) AND 0xff),
                            word_of_int (drop_bit 8 (digits 16 v ! i) AND 0xff)]) [0..<16]) =
      concat (map (\<lambda>i. [word_of_int (v div 256 ^ (2 * i)) :: byte, word_of_int (v div 256 ^ Suc (2 * i))]) [0..<16])"
    by (intro arg_cong[where f = concat] map_cong)
      (simp_all only: set_upt atLeastLessThan_iff nth_digits limb_bytes)
  also have "\<dots> = map (\<lambda>n. word_of_int (v div 256 ^ n)) [0..<2 * 16]" by (rule concat_pairs)
  also have "\<dots> = map (\<lambda>n. ucast (drop_bit (8 * n) (word_of_int v :: 256 word))) [0..<32]"
  proof (rule map_cong)
    fix n assume "n \<in> set [0..<32]"
    moreover have "(256 :: int) ^ n = 2 ^ (8 * n)" by (simp add: power_mult)
    ultimately show "(word_of_int (v div 256 ^ n) :: byte) = ucast (drop_bit (8 * n) (word_of_int v :: 256 word))"
      by (intro bit_word_eqI) (auto simp: bit_simps simp flip: drop_bit_eq_div)
  qed simp
  finally show ?thesis by (simp add: le_unpack_def)
qed

lemma pack_fe:
  assumes "fe q v"
  shows "pack q = le_unpack 32 (word_of_int (v mod p25519) :: 256 word)"
proof -
  obtain u where u: "carry_reduce (carry_reduce (carry_reduce q)) = digits 16 u" "0 \<le> u"
    "u < radix ^ 16" "u mod p25519 = fval q mod p25519"
    using carry_reduce_thrice assms unfolding fe_def by blast
  have r: "0 \<le> v mod p25519" "v mod p25519 < radix ^ 16"
    using pos_mod_bound[of p25519 v] by (simp_all add: p25519_def)
  have "u mod p25519 = v mod p25519" using u(4) assms by (simp add: fe_def)
  then show ?thesis
    unfolding pack_def Let_def u(1) pack_rounds_canonical[OF u(2,3)] by (simp only: digits_bytes[OF r])
qed

subsection \<open>Properties\<close>

text \<open>C16: \<^verbatim>\<open>x25519\<close> is the X25519 function of RFC 7748 on a scalar that is taken as it is given;
  the clamping of the scalar is done by \<^verbatim>\<open>point_d\<close> before the call. For every 32-byte scalar and
  u-coordinate it returns the little-endian bytes of the canonical residue the
  Montgomery ladder gives over the integers modulo \<open>2 ^ 255 - 19\<close>: the wrap-around
  of the 64-bit limbs never shows in the result.\<close>

theorem x25519_is_rfc7748:
  assumes "length secret = 32" "length basepoint = 32"
  shows "x25519 secret basepoint =
     le_unpack 32 (word_of_int (rfc7748_x25519 (le_value secret) (int (le_value basepoint) mod 2 ^ 255)) :: 256 word)"
proof -
  define x1 where "x1 = int (le_value basepoint) mod 2 ^ 255"
  have x: "fe (unpack basepoint) x1" unfolding x1_def by (rule unpack_fe[OF assms(2)])
  define s0 where "s0 = \<lparr>inputs0 = (replicate 16 0)[0 := 1], inputs1 = unpack basepoint,
      inputs2 = replicate 16 0, inputs3 = (replicate 16 0)[0 := 1]\<rparr>"
  have "fe (replicate 16 0) 0" "fe ((replicate 16 0)[0 := 1]) 1"
    by (simp_all add: fe_def limbs_within_def numeral_eq_Suc)
  then have "lad s0 (1, 0, x1, 1)" using x by (simp add: s0_def)
  then have l: "lad (fold (ladder_step (unpack basepoint) secret) (rev [0..<255]) s0) (rfc7748_ladder (le_value secret) x1)"
    using ladder_prefix_lad[OF x assms(1), of "rev [0..<255]" s0 "(1, 0, x1, 1)"] by (simp add: rfc7748_ladder_def)
  define s where "s = fold (ladder_step (unpack basepoint) secret) (rev [0..<255]) s0"
  obtain x2 z2 x3 z3 where st: "rfc7748_ladder (le_value secret) x1 = (x2, z2, x3, z3)" by (metis prod_cases4)
  have "fe (multiply (inputs0 s) (inverse_fe (inputs2 s))) (x2 * z2 ^ nat (p25519 - 2))"
    using l by (intro multiply_fe fe_imp_wide inverse_fe_correct) (simp_all add: st s_def)
  from pack_fe[OF this] show ?thesis
    unfolding x1_def[symmetric] rfc7748_x25519_def st
    using assms(1) by (simp add: x25519_def Let_def s_def s0_def)
qed

theorem x25519_is_rfc7748_witness:
  "length (9 # replicate 31 (0 :: byte)) = 32 \<and>
   x25519 (replicate 32 1) (9 # replicate 31 0) =
     le_unpack 32 (word_of_int (rfc7748_x25519 (le_value (replicate 32 1))
       (int (le_value (9 # replicate 31 0)) mod 2 ^ 255)) :: 256 word)"
  using x25519_is_rfc7748[of "replicate 32 1" "9 # replicate 31 0"] by simp

end
