(* ===== verification/Key_Exchange.thy ===== *)
theory Key_Exchange
  imports Sha256 X25519 Messages
begin

text \<open>
  \<^verbatim>\<open>common/key-exchange.c\<close>: the key exchange between a client and the daemon and the
  ring exchange among all clients, which the daemon relays.

  \<^item> A connection is the pair of the receiving and the sending side of a socket; the
    daemon's functions work on the map \<open>net_t\<close> from descriptors to connections.
  \<^item> The bytes each \<^verbatim>\<open>xgetrandom\<close> call delivers are parameters in the order of the
    calls, \<open>None\<close> when the call fails (the buffer then keeps its zeros).
  \<^item> A key written through a pointer is an \<open>option\<close>: \<open>None\<close> when the function returns
    without writing it.
\<close>

record conn_t =
  conn_rx :: "recv_event list"
  conn_tx :: tx_t

type_synonym net_t = "int \<Rightarrow> conn_t"

datatype key_type_t =
    KEY_TYPE_NONE
  | KEY_CLIENT_PUBLIC
  | KEY_SERVER_PUBLIC
  | KEY_EX_INIT_ROUND
  | KEY_EX_INTERMEDIATE
  | KEY_EX_LAST_ROUND

primrec key_type_value :: "key_type_t \<Rightarrow> byte" where
  "key_type_value KEY_TYPE_NONE = 0"
| "key_type_value KEY_CLIENT_PUBLIC = 1"
| "key_type_value KEY_SERVER_PUBLIC = 2"
| "key_type_value KEY_EX_INIT_ROUND = 3"
| "key_type_value KEY_EX_INTERMEDIATE = 4"
| "key_type_value KEY_EX_LAST_ROUND = 5"

definition conn_send :: "conn_t \<Rightarrow> byte list \<Rightarrow> bool \<times> conn_t" where
  "conn_send c bytes = (let (ok, tx) = xsendall (conn_tx c) bytes in (ok, c\<lparr>conn_tx := tx\<rparr>))"

subsection \<open>Keys on the wire\<close>

definition ke_bytes :: "key_type_t \<Rightarrow> byte list \<Rightarrow> byte list" where
  "ke_bytes type key = key_type_value type # take KEY_LEN key"

definition ke_snd :: "conn_t \<Rightarrow> key_type_t \<Rightarrow> byte list \<Rightarrow> bool \<times> conn_t" where
  "ke_snd sock type key = conn_send sock (ke_bytes type key)"

definition ke_rcv :: "conn_t \<Rightarrow> key_type_t \<Rightarrow> (byte list option \<times> conn_t) c_result" where
  "ke_rcv sock type =
     c_bind (xrecvall (conn_rx sock) 33 33) (\<lambda>(ok, ke, rx).
       let sock = sock\<lparr>conn_rx := rx\<rparr>
       in if \<not> ok then Inr (None, sock)
          else if ke ! 0 \<noteq> key_type_value type then Inr (None, sock)
          else Inr (Some (drop 1 ke), sock))"

subsection \<open>Key material\<close>

definition sha256_key_digest :: "byte list \<Rightarrow> byte list" where
  "sha256_key_digest key = sha256_finish (sha256_append sha256_init (take 32 key))"

definition point_d :: "byte list option \<Rightarrow> byte list" where
  "point_d rand =
     (let dst = (case rand of None \<Rightarrow> replicate KEY_LEN 0 | Some bytes \<Rightarrow> bytes);
          dst = dst[0x00 := dst ! 0x00 AND 0xf8];
          dst = dst[0x1f := dst ! 0x1f AND 0x7f];
          dst = dst[0x1f := dst ! 0x1f OR 0x40]
      in dst)"

definition basepoint :: "byte list" where
  "basepoint = 9 # replicate 31 0"

definition point_q :: "byte list \<Rightarrow> bool \<Rightarrow> byte list \<times> byte list option" where
  "point_q secret_key want_fingerprint =
     (let public_key = x25519 secret_key basepoint
      in (public_key,
          if want_fingerprint then Some (take 16 (sha256_key_digest public_key)) else None))"

definition point_kx :: "byte list \<Rightarrow> byte list \<Rightarrow> byte list" where
  "point_kx secret_key public_key = x25519 secret_key public_key"

subsection \<open>Client and daemon\<close>

definition two_party_client :: "byte list option \<Rightarrow> conn_t \<Rightarrow> (byte list option \<times> conn_t) c_result" where
  "two_party_client rand socket =
     (let secret_key = point_d rand;
          (public_key, _) = point_q secret_key False;
          (ok, socket) = ke_snd socket KEY_CLIENT_PUBLIC public_key
      in if \<not> ok then Inr (None, socket)
         else c_bind (ke_rcv socket KEY_SERVER_PUBLIC) (\<lambda>(server_public_key, socket).
           case server_public_key of
             None \<Rightarrow> Inr (None, socket)
           | Some server_public_key \<Rightarrow>
               let shared_secret = point_kx secret_key server_public_key
               in c_bind (recv_cable (conn_rx socket)) (\<lambda>(cable, rx).
                  let socket = socket\<lparr>conn_rx := rx\<rparr>
                  in case cable of
                       None \<Rightarrow> Inr (None, socket)
                     | Some (cable, len) \<Rightarrow>
                         c_bind (get_cabled_wire cable) (\<lambda>(bytes, wire_len).
                         c_bind (wire_of_bytes bytes) (\<lambda>wire.
                         c_bind (decrypt_wire (Some wire) wire_len shared_secret None) (\<lambda>(ok, wire).
                         if \<not> ok then Inr (None, socket)
                         else if wire_get_type wire \<noteq> wire_type_value TYPE_SESSION_KEY then Inl AssertFailed
                         else c_bind (mem_read (wire_data wire) 0 KEY_LEN) (\<lambda>ctrl_key.
                              Inr (Some ctrl_key, socket))))))))"

definition two_party_server ::
  "byte list option \<Rightarrow> byte list option \<Rightarrow> conn_t \<Rightarrow> byte list \<Rightarrow> (bool \<times> conn_t) c_result" where
  "two_party_server rand rand_iv socket session_key =
     c_bind (ke_rcv socket KEY_CLIENT_PUBLIC) (\<lambda>(public_key, socket).
       case public_key of
         None \<Rightarrow> Inr (False, socket)
       | Some public_key \<Rightarrow>
           let secret_key = point_d rand;
               (server_public_key, _) = point_q secret_key False;
               (ok, socket) = ke_snd socket KEY_SERVER_PUBLIC server_public_key
           in if \<not> ok then Inr (False, socket)
              else
                let shared_secret = point_kx secret_key public_key;
                    sk = take KEY_LEN session_key
                in c_bind (init_wire_from_session_key rand_iv sk) (\<lambda>wire.
                   c_bind (transmit_cabled_wire (conn_tx socket) wire (Some shared_secret)) (\<lambda>(ok, wire, tx).
                   Inr (ok, socket\<lparr>conn_tx := tx\<rparr>))))"

subsection \<open>The ring\<close>

text \<open>\<open>sock_at\<close> is \<^verbatim>\<open>sockets[i]\<close>, a fault beyond the end of the array.\<close>

definition sock_at :: "int list \<Rightarrow> nat \<Rightarrow> int c_result" where
  "sock_at sockets i = (if i < length sockets then Inr (sockets ! i) else Inl OutOfBounds)"

fun send_to_slots :: "net_t \<Rightarrow> int list \<Rightarrow> byte list \<Rightarrow> nat list \<Rightarrow> (bool \<times> net_t) c_result" where
  "send_to_slots net sockets bytes [] = Inr (True, net)"
| "send_to_slots net sockets bytes (i # slots) =
     c_bind (sock_at sockets i) (\<lambda>fd.
       let (ok, c) = conn_send (net fd) bytes;
           net = net(fd := c)
       in if \<not> ok then Inr (False, net) else send_to_slots net sockets bytes slots)"

definition server_send_ctrl_key ::
  "byte list option \<Rightarrow> byte list option \<Rightarrow> net_t \<Rightarrow> int list \<Rightarrow> nat \<Rightarrow> byte list \<Rightarrow>
   (bool \<times> byte list \<times> net_t) c_result" where
  "server_send_ctrl_key rand rand_iv net sockets count ctrl_key =
     (case rand of
        None \<Rightarrow> Inr (False, ctrl_key, net)
      | Some renewed_key \<Rightarrow>
          c_bind (init_ctrl_key_cable rand_iv (of_nat count - 1) renewed_key ctrl_key) (\<lambda>cable.
          c_bind (cable_get_total_len cable) (\<lambda>len.
          let ctrl_key = renewed_key
          in c_bind (mem_read cable 0 (unat len)) (\<lambda>bytes.
             c_bind (send_to_slots net sockets bytes [1..<count + 1]) (\<lambda>(ok, net).
             Inr (ok, ctrl_key, net))))))"

fun rotate_slots :: "net_t \<Rightarrow> int list \<Rightarrow> nat \<Rightarrow> nat list \<Rightarrow> (bool \<times> net_t) c_result" where
  "rotate_slots net sockets count [] = Inr (True, net)"
| "rotate_slots net sockets count (i # slots) =
     c_bind (sock_at sockets i) (\<lambda>fd.
     c_bind (ke_rcv (net fd) KEY_EX_INTERMEDIATE) (\<lambda>(intermediate_key, c).
       let net = net(fd := c)
       in case intermediate_key of
            None \<Rightarrow> Inr (False, net)
          | Some key \<Rightarrow>
              let next = (if i = count then 1 else i + 1)
              in c_bind (sock_at sockets next) (\<lambda>fd.
                 let (ok, c) = ke_snd (net fd) KEY_EX_INTERMEDIATE key;
                     net = net(fd := c)
                 in if \<not> ok then Inr (False, net) else rotate_slots net sockets count slots)))"

definition rotate_intermediates :: "net_t \<Rightarrow> int list \<Rightarrow> nat \<Rightarrow> (bool \<times> net_t) c_result" where
  "rotate_intermediates net sockets count = rotate_slots net sockets count [1..<count + 1]"

fun n_party_rounds :: "net_t \<Rightarrow> int list \<Rightarrow> nat \<Rightarrow> nat \<Rightarrow> (bool \<times> net_t) c_result" where
  "n_party_rounds net sockets count 0 = Inr (True, net)"
| "n_party_rounds net sockets count (Suc rounds) =
     c_bind (rotate_intermediates net sockets count) (\<lambda>(ok, net).
       if \<not> ok then Inr (False, net) else n_party_rounds net sockets count rounds)"

definition n_party_server ::
  "byte list option \<Rightarrow> byte list option \<Rightarrow> net_t \<Rightarrow> int list \<Rightarrow> nat \<Rightarrow> byte list \<Rightarrow>
   (bool \<times> byte list \<times> net_t) c_result" where
  "n_party_server rand rand_iv net sockets connection_count ctrl_key =
     (if connection_count = 0 then Inl AssertFailed
      else
        let rounds = connection_count - 1
        in if rounds < 1 then Inr (True, ctrl_key, net)
           else
             c_bind (server_send_ctrl_key rand rand_iv net sockets connection_count ctrl_key)
               (\<lambda>(ok, ctrl_key, net).
             if \<not> ok then Inr (False, ctrl_key, net)
             else c_bind (n_party_rounds net sockets connection_count rounds) (\<lambda>(ok, net).
                  Inr (ok, ctrl_key, net))))"

text \<open>The client's loop with \<open>n\<close> rounds to go; the last round writes the key.\<close>

fun n_party_client_rounds ::
  "byte list \<Rightarrow> conn_t \<Rightarrow> nat \<Rightarrow> (bool \<times> byte list option \<times> conn_t) c_result" where
  "n_party_client_rounds secret_key socket 0 = Inr (True, None, socket)"
| "n_party_client_rounds secret_key socket (Suc n) =
     c_bind (ke_rcv socket KEY_EX_INTERMEDIATE) (\<lambda>(intermediate_public, socket).
       case intermediate_public of
         None \<Rightarrow> Inr (False, None, socket)
       | Some intermediate_public \<Rightarrow>
           let shared_secret = point_kx secret_key intermediate_public
           in if n = 0 then Inr (True, Some (sha256_key_digest shared_secret), socket)
              else
                let (ok, socket) = ke_snd socket KEY_EX_INTERMEDIATE shared_secret
                in if \<not> ok then Inr (False, None, socket)
                   else n_party_client_rounds secret_key socket n)"

definition n_party_client ::
  "byte list option \<Rightarrow> conn_t \<Rightarrow> nat \<Rightarrow> (bool \<times> byte list option \<times> conn_t) c_result" where
  "n_party_client rand socket rounds =
     (let secret_key = point_d rand;
          (public_key, _) = point_q secret_key False;
          (ok, socket) = ke_snd socket KEY_EX_INTERMEDIATE public_key
      in if \<not> ok then Inr (False, None, socket)
         else n_party_client_rounds secret_key socket rounds)"

end
