(* ===== verification/Key_Agreement.thy ===== *)
theory Key_Agreement
  imports Key_Exchange "HOL-Library.Multiset"
begin

text \<open>
  The key exchange of \<^theory_text>\<open>Key_Exchange\<close> composed: the bytes each party sends are the bytes
  the other receives. \<open>slots_are\<close> describes the daemon's sockets in the slots
  \<open>1..n\<close> by what waits to be read and what was sent; \<open>ring_key\<close> is the key a client
  holds after a number of rounds, as the function of the secrets it should be.
\<close>

lemma length_x25519 [simp]: "length (x25519 s b) = 32"
proof -
  have "length (concat (map (\<lambda>i. [f i, g i]) [0..<n])) = 2 * n" for f g :: "nat \<Rightarrow> byte" and n
    by (induction n) simp_all
  then show ?thesis by (simp add: x25519_def pack_def Let_def)
qed

subsection \<open>Connections\<close>

definition sends_ok :: "conn_t \<Rightarrow> bool" where
  "sends_ok c \<longleftrightarrow> SendError \<notin> set (plan (conn_tx c))"

abbreviation inb :: "conn_t \<Rightarrow> byte list" where "inb c \<equiv> rx_bytes (conn_rx c)"
abbreviation outb :: "conn_t \<Rightarrow> byte list" where "outb c \<equiv> sent (conn_tx c)"

lemma xsendall_plan: "set (plan (snd (xsendall tx data))) \<subseteq> set (plan tx)"
proof (induction tx data rule: xsendall.induct)
  case (1 tx data)
  show ?case
  proof (cases "data = [] \<or> fst (xsend tx data) = - 1")
    case True
    then show ?thesis
      by (subst xsendall.simps) (auto simp: xsend.simps split: list.splits send_event.splits)
  next
    case False
    then have "xsendall tx data = xsendall (snd (xsend tx data)) (drop (nat (fst (xsend tx data))) data)"
      by (subst xsendall.simps) (simp add: split_beta)
    moreover have "set (plan (snd (xsend tx data))) \<subseteq> set (plan tx)"
      by (auto simp: xsend.simps split: list.splits send_event.splits)
    ultimately show ?thesis using 1[of "fst (xsend tx data)" "snd (xsend tx data)"] False by auto
  qed
qed

lemma xsendall_good:
  assumes "SendError \<notin> set (plan tx)"
  shows "\<exists>tx'. xsendall tx bytes = (True, tx') \<and> sent tx' = sent tx @ bytes \<and> SendError \<notin> set (plan tx')"
proof -
  obtain ok tx' where x: "xsendall tx bytes = (ok, tx')" by (cases "xsendall tx bytes")
  with xsendall_prefix[of bytes tx] assms have ok: "ok" "sent tx' = sent tx @ bytes" by auto
  moreover have "SendError \<notin> set (plan tx')" using xsendall_plan[of tx bytes] x assms by auto
  ultimately show ?thesis using x by simp
qed

lemma conn_send_good:
  assumes "sends_ok c"
  shows "\<exists>c'. conn_send c bytes = (True, c') \<and> sends_ok c' \<and> conn_rx c' = conn_rx c \<and> outb c' = outb c @ bytes"
  using xsendall_good[of "conn_tx c" bytes] assms by (auto simp: conn_send_def sends_ok_def)

lemma ke_snd_good:
  assumes "sends_ok c"
  shows "\<exists>c'. ke_snd c t key = (True, c') \<and> sends_ok c' \<and> conn_rx c' = conn_rx c \<and> outb c' = outb c @ ke_bytes t key"
  using conn_send_good[OF assms] by (simp add: ke_snd_def)

lemma ke_rcv_message:
  assumes "inb c = ke_bytes t key @ rest" "length key = 32"
  shows "\<exists>c'. ke_rcv c t = Inr (Some key, c') \<and> inb c' = rest \<and> conn_tx c' = conn_tx c"
proof -
  obtain rx where "xrecvall (conn_rx c) 33 33 = Inr (True, ke_bytes t key, rx)" "rx_bytes rx = rest"
    using sock.get_prefix[of "conn_rx c" "ke_bytes t key" rest 33 33] assms by (auto simp: ke_bytes_def)
  with assms(2) show ?thesis by (auto simp: ke_rcv_def ke_bytes_def)
qed

subsection \<open>The client side of the ring\<close>

abbreviation ring_msg :: "byte list \<Rightarrow> byte list" where
  "ring_msg \<equiv> ke_bytes KEY_EX_INTERMEDIATE"

lemma n_party_client_rounds_keys:
  assumes "ks \<noteq> []" "\<forall>k \<in> set ks. length k = 32" "sends_ok c" "inb c = concat (map ring_msg ks) @ rest"
  shows "\<exists>c'. n_party_client_rounds s c (length ks) =
      Inr (True, Some (sha256_key_digest (x25519 s (last ks))), c') \<and> inb c' = rest \<and>
      outb c' = outb c @ concat (map (\<lambda>k. ring_msg (x25519 s k)) (butlast ks))"
  using assms
proof (induction ks arbitrary: c)
  case (Cons k ks)
  obtain c1 where c1: "ke_rcv c KEY_EX_INTERMEDIATE = Inr (Some k, c1)"
    "inb c1 = concat (map ring_msg ks) @ rest" "conn_tx c1 = conn_tx c"
    using ke_rcv_message[of c KEY_EX_INTERMEDIATE k "concat (map ring_msg ks) @ rest"] Cons.prems by auto
  show ?case
  proof (cases "ks = []")
    case True
    then show ?thesis using c1 by (simp add: point_kx_def)
  next
    case False
    have "sends_ok c1" using Cons.prems(3) c1(3) by (simp add: sends_ok_def)
    from ke_snd_good[OF this] obtain c2 where
      c2: "ke_snd c1 KEY_EX_INTERMEDIATE (x25519 s k) = (True, c2)" "sends_ok c2" "conn_rx c2 = conn_rx c1"
        "outb c2 = outb c1 @ ring_msg (x25519 s k)" by blast
    from Cons.IH[of c2] False Cons.prems(2) c1 c2 obtain c' where
      "n_party_client_rounds s c2 (length ks) = Inr (True, Some (sha256_key_digest (x25519 s (last ks))), c')"
      "inb c' = rest" "outb c' = outb c2 @ concat (map (\<lambda>k. ring_msg (x25519 s k)) (butlast ks))" by auto
    then show ?thesis using c1 c2 False by (simp add: point_kx_def)
  qed
qed simp

subsection \<open>The relay\<close>

definition prv :: "nat \<Rightarrow> nat \<Rightarrow> nat" where
  "prv n i = (if i = 1 then n else i - 1)"

definition nxt :: "nat \<Rightarrow> nat \<Rightarrow> nat" where
  "nxt n i = (if i = n then 1 else i + 1)"

lemma nxt_prv [simp]: "i \<in> {1..n} \<Longrightarrow> nxt n (prv n i) = i" "i \<in> {1..n} \<Longrightarrow> prv n (nxt n i) = i"
  by (auto simp: nxt_def prv_def)

lemma prv_range: "i \<in> {1..n} \<Longrightarrow> prv n i \<in> {1..n}" "i \<in> {1..n} \<Longrightarrow> nxt n i \<in> {1..n}"
  by (auto simp: prv_def nxt_def)

definition slots_are :: "net_t \<Rightarrow> int list \<Rightarrow> nat \<Rightarrow> (nat \<Rightarrow> byte list) \<Rightarrow> (nat \<Rightarrow> byte list) \<Rightarrow> bool" where
  "slots_are net sockets n ins outs \<longleftrightarrow>
     n < length sockets \<and> inj_on ((!) sockets) {1..n} \<and>
     (\<forall>i \<in> {1..n}. sends_ok (net (sockets ! i)) \<and> inb (net (sockets ! i)) = ins i \<and>
        outb (net (sockets ! i)) = outs i)"

lemma slots_are_upd:
  assumes "slots_are net sockets n ins outs" "i \<in> {1..n}" "sends_ok c"
  shows "slots_are (net(sockets ! i := c)) sockets n (ins(i := inb c)) (outs(i := outb c))"
  using assms by (auto simp: slots_are_def inj_on_eq_iff)

lemma sock_at_slot: "slots_are net sockets n ins outs \<Longrightarrow> i \<in> {1..n} \<Longrightarrow> sock_at sockets i = Inr (sockets ! i)"
  by (auto simp: slots_are_def sock_at_def)

lemma rotate_slot:
  assumes "slots_are net sockets n ins outs" "i \<in> {1..n}" "ins i = ring_msg k @ rest" "length k = 32"
  shows "\<exists>net'. rotate_slots net sockets n (i # slots) = rotate_slots net' sockets n slots \<and>
     slots_are net' sockets n (ins(i := rest)) (outs(nxt n i := outs (nxt n i) @ ring_msg k))"
proof -
  let ?fd = "sockets ! i" and ?fd' = "sockets ! nxt n i"
  obtain c where c: "ke_rcv (net ?fd) KEY_EX_INTERMEDIATE = Inr (Some k, c)" "inb c = rest"
    "conn_tx c = conn_tx (net ?fd)"
    using ke_rcv_message[of "net ?fd" KEY_EX_INTERMEDIATE k rest] assms by (auto simp: slots_are_def)
  define net1 where "net1 = net(?fd := c)"
  have "sends_ok c" using c(3) assms(1,2) by (auto simp: sends_ok_def slots_are_def)
  from slots_are_upd[OF assms(1,2) this]
  have n1: "slots_are net1 sockets n (ins(i := rest)) outs"
    using c(2,3) assms(1,2) by (auto simp: net1_def slots_are_def fun_upd_def split: if_splits)
  have nx: "nxt n i \<in> {1..n}" by (rule prv_range(2)[OF assms(2)])
  then have "sends_ok (net1 ?fd')" using n1 by (simp add: slots_are_def)
  from ke_snd_good[OF this] obtain c' where c': "ke_snd (net1 ?fd') KEY_EX_INTERMEDIATE k = (True, c')"
    "sends_ok c'" "conn_rx c' = conn_rx (net1 ?fd')" "outb c' = outb (net1 ?fd') @ ring_msg k" by blast
  define net2 where "net2 = net1(?fd' := c')"
  have "slots_are net2 sockets n (ins(i := rest)) (outs(nxt n i := outs (nxt n i) @ ring_msg k))"
    using slots_are_upd[OF n1 nx c'(2)] c'(3,4) n1 nx
    by (auto simp: net2_def slots_are_def fun_upd_def split: if_splits)
  moreover have "rotate_slots net sockets n (i # slots) = rotate_slots net2 sockets n slots"
    using c(1) c'(1) sock_at_slot[OF assms(1,2)] sock_at_slot[OF assms(1) nx]
    by (simp add: net2_def net1_def nxt_def Let_def)
  ultimately show ?thesis by blast
qed


lemma rotate_slots_distinct:
  assumes "slots_are net sockets n ins outs" "set slots \<subseteq> {1..n}" "distinct slots"
    and "\<forall>i \<in> set slots. ins i = ring_msg (k i) @ rest i" "\<forall>i \<in> set slots. length (k i) = 32"
  shows "\<exists>net'. rotate_slots net sockets n slots = Inr (True, net') \<and>
     slots_are net' sockets n (\<lambda>i. if i \<in> set slots then rest i else ins i)
       (\<lambda>i. if prv n i \<in> set slots then outs i @ ring_msg (k (prv n i)) else outs i)"
  using assms
proof (induction slots arbitrary: net ins outs)
  case (Cons i slots)
  let ?ins = "ins(i := rest i)" and ?outs = "outs(nxt n i := outs (nxt n i) @ ring_msg (k i))"
  obtain net1 where net1: "rotate_slots net sockets n (i # slots) = rotate_slots net1 sockets n slots"
    "slots_are net1 sockets n ?ins ?outs"
    using rotate_slot[OF Cons.prems(1), of i "k i" "rest i" slots] Cons.prems(2,4,5) by auto
  obtain net' where net': "rotate_slots net1 sockets n slots = Inr (True, net')"
    "slots_are net' sockets n (\<lambda>j. if j \<in> set slots then rest j else ?ins j)
       (\<lambda>j. if prv n j \<in> set slots then ?outs j @ ring_msg (k (prv n j)) else ?outs j)"
  proof -
    have "\<forall>j \<in> set slots. ?ins j = ring_msg (k j) @ rest j" using Cons.prems(3,4) by auto
    moreover have "set slots \<subseteq> {1..n}" "distinct slots" "\<forall>j \<in> set slots. length (k j) = 32"
      using Cons.prems(2,3,5) by auto
    ultimately show ?thesis using Cons.IH[OF net1(2)] that by blast
  qed
  have i: "i \<in> {1..n}" "i \<notin> set slots" using Cons.prems(2,3) by auto
  have p: "j = nxt n i \<longleftrightarrow> prv n j = i" if "j \<in> {1..n}" for j using that i(1) by auto
  have "slots_are net' sockets n (\<lambda>j. if j \<in> set (i # slots) then rest j else ins j)
       (\<lambda>j. if prv n j \<in> set (i # slots) then outs j @ ring_msg (k (prv n j)) else outs j)"
    unfolding slots_are_def
  proof (intro conjI ballI)
    fix j assume j: "j \<in> {1..n}"
    show "outb (net' (sockets ! j)) =
        (if prv n j \<in> set (i # slots) then outs j @ ring_msg (k (prv n j)) else outs j)"
      using net'(2) j p[OF j] i(2) by (auto simp: slots_are_def)
  qed (use net'(2) in \<open>auto simp: slots_are_def\<close>)
  then show ?case using net1(1) net'(1) by auto
qed simp

lemma slots_are_cong:
  "slots_are net sockets n ins outs \<Longrightarrow> (\<And>i. i \<in> {1..n} \<Longrightarrow> ins i = ins' i \<and> outs i = outs' i) \<Longrightarrow>
   slots_are net sockets n ins' outs'"
  by (auto simp: slots_are_def)

lemma slot_list: "set [1..<n + 1] \<subseteq> {1..n}" "distinct [1..<n + 1]" "i \<in> {1..n} \<Longrightarrow> i \<in> set [1..<n + 1]"
  by auto

lemma rotate_intermediates_relays:
  assumes "slots_are net sockets n (\<lambda>i. ring_msg (k i) @ rest i) outs" "\<And>i. length (k i) = 32"
  shows "\<exists>net'. rotate_intermediates net sockets n = Inr (True, net') \<and>
     slots_are net' sockets n rest (\<lambda>i. outs i @ ring_msg (k (prv n i)))"
proof -
  obtain net' where net': "rotate_intermediates net sockets n = Inr (True, net')"
    "slots_are net' sockets n (\<lambda>i. if i \<in> set [1..<n + 1] then rest i else ring_msg (k i) @ rest i)
       (\<lambda>i. if prv n i \<in> set [1..<n + 1] then outs i @ ring_msg (k (prv n i)) else outs i)"
    unfolding rotate_intermediates_def
    using rotate_slots_distinct[OF assms(1) slot_list(1,2), of k rest] assms(2) by blast
  have "slots_are net' sockets n rest (\<lambda>i. outs i @ ring_msg (k (prv n i)))"
    by (rule slots_are_cong[OF net'(2)]) (simp only: slot_list(3) prv_range(1) if_True)
  with net'(1) show ?thesis by blast
qed

abbreviation ring_stream :: "(nat \<Rightarrow> byte list) \<Rightarrow> nat \<Rightarrow> byte list" where
  "ring_stream k rounds \<equiv> concat (map (\<lambda>r. ring_msg (k r)) [0..<rounds])"

lemma n_party_rounds_relays:
  assumes "slots_are net sockets n (\<lambda>i. ring_stream (k i) rounds) outs" "\<And>i r. length (k i r) = 32"
  shows "\<exists>net'. n_party_rounds net sockets n rounds = Inr (True, net') \<and>
     slots_are net' sockets n (\<lambda>_. []) (\<lambda>i. outs i @ ring_stream (k (prv n i)) rounds)"
  using assms
proof (induction rounds arbitrary: net k outs)
  case (Suc rounds)
  have split: "ring_stream k (Suc rounds) = ring_msg (k 0) @ ring_stream (\<lambda>r. k (Suc r)) rounds" for k
    unfolding upt_rec[of 0 "Suc rounds"] by (simp add: map_Suc_upt[symmetric] comp_def del: upt_Suc)
  obtain net1 where net1: "rotate_intermediates net sockets n = Inr (True, net1)"
    "slots_are net1 sockets n (\<lambda>i. ring_stream (\<lambda>r. k i (Suc r)) rounds) (\<lambda>i. outs i @ ring_msg (k (prv n i) 0))"
    using rotate_intermediates_relays[OF Suc.prems(1)[unfolded split] Suc.prems(2)] that by blast
  from Suc.IH[OF net1(2)] Suc.prems(2) net1(1) show ?case unfolding split by auto
qed simp

lemma send_to_slots_broadcast:
  assumes "slots_are net sockets n ins outs" "set slots \<subseteq> {1..n}" "distinct slots"
  shows "\<exists>net'. send_to_slots net sockets bytes slots = Inr (True, net') \<and>
     slots_are net' sockets n ins (\<lambda>i. if i \<in> set slots then outs i @ bytes else outs i)"
  using assms
proof (induction slots arbitrary: net outs)
  case (Cons i slots)
  let ?c = "net (sockets ! i)"
  have i: "i \<in> {1..n}" and ok: "sends_ok ?c" using Cons.prems(1,2) by (auto simp: slots_are_def)
  from conn_send_good[OF ok] obtain c where c: "conn_send ?c bytes = (True, c)" "sends_ok c"
    "conn_rx c = conn_rx ?c" "outb c = outb ?c @ bytes" by blast
  have "slots_are (net(sockets ! i := c)) sockets n (ins(i := inb c)) (outs(i := outb c))"
    by (rule slots_are_upd[OF Cons.prems(1) i c(2)])
  then have "slots_are (net(sockets ! i := c)) sockets n ins (outs(i := outs i @ bytes))"
    using c(3,4) Cons.prems(1) i by (auto simp: slots_are_def fun_upd_def split: if_splits)
  then obtain net' where
    net': "send_to_slots (net(sockets ! i := c)) sockets bytes slots = Inr (True, net')"
    "slots_are net' sockets n ins
       (\<lambda>j. if j \<in> set slots then (outs(i := outs i @ bytes)) j @ bytes else (outs(i := outs i @ bytes)) j)"
    using Cons.IH Cons.prems(2,3) by (meson distinct.simps(2) set_subset_Cons subset_trans)
  have "slots_are net' sockets n ins (\<lambda>j. if j \<in> set (i # slots) then outs j @ bytes else outs j)"
    by (rule slots_are_cong[OF net'(2)]) (use Cons.prems(3) in auto)
  with net'(1) c(1) sock_at_slot[OF Cons.prems(1) i] show ?case by auto
qed simp

lemma server_send_ctrl_key_broadcast:
  assumes "slots_are net sockets n ins outs" "length rand_iv = 16" "length renewed = 32"
  shows "\<exists>cable net'. init_ctrl_key_cable (Some rand_iv) (of_nat n - 1) renewed ctrl_key = Inr cable \<and>
     server_send_ctrl_key (Some renewed) (Some rand_iv) net sockets n ctrl_key = Inr (True, renewed, net') \<and>
     slots_are net' sockets n ins (\<lambda>i. outs i @ cable)"
proof -
  obtain sealed len where f:
    "init_ctrl_key_cable (Some rand_iv) (of_nat n - 1) renewed ctrl_key =
       Inr (ascii ''parcel'' @ wire_unpack64 len @ wire_bytes sealed)"
    "unat len = 14 + length (wire_bytes sealed)"
    using ctrl_key_cable_bytes[OF assms(2,3), of "of_nat n - 1" ctrl_key None] by blast
  define cable where "cable = ascii ''parcel'' @ wire_unpack64 len @ wire_bytes sealed"
  obtain net' where net': "send_to_slots net sockets cable [1..<n + 1] = Inr (True, net')"
    "slots_are net' sockets n ins (\<lambda>i. if i \<in> set [1..<n + 1] then outs i @ cable else outs i)"
    using send_to_slots_broadcast[OF assms(1) slot_list(1,2)] by blast
  have "slots_are net' sockets n ins (\<lambda>i. outs i @ cable)"
    by (rule slots_are_cong[OF net'(2)]) (simp only: slot_list(3) if_True)
  moreover have "cable_get_total_len cable = Inr len" "mem_read cable 0 (unat len) = Inr cable"
    using f(2) by (simp_all add: cable_def cable_get_total_len_def)
  ultimately show ?thesis
    using f(1) net'(1) by (auto simp: server_send_ctrl_key_def cable_def[symmetric])
qed

subsection \<open>Agreement\<close>

primrec ring_key :: "nat \<Rightarrow> (nat \<Rightarrow> byte list) \<Rightarrow> nat \<Rightarrow> nat \<Rightarrow> byte list" where
  "ring_key n secrets i 0 = x25519 (secrets i) basepoint"
| "ring_key n secrets i (Suc r) = x25519 (secrets i) (ring_key n secrets (prv n i) r)"

lemma length_ring_key [simp]: "length (ring_key n secrets i r) = 32"
  by (cases r) simp_all

lemma n_party_server_relays:
  assumes "slots_are net sockets n (\<lambda>i. ring_stream (k i) (n - 1)) outs" "\<And>i r. length (k i r) = 32"
    and "2 \<le> n" "length rand_iv = 16" "length renewed = 32"
  shows "\<exists>cable net'. init_ctrl_key_cable (Some rand_iv) (of_nat n - 1) renewed ctrl_key = Inr cable \<and>
     n_party_server (Some renewed) (Some rand_iv) net sockets n ctrl_key = Inr (True, renewed, net') \<and>
     slots_are net' sockets n (\<lambda>_. []) (\<lambda>i. outs i @ cable @ ring_stream (k (prv n i)) (n - 1))"
proof -
  obtain cable net1 where c: "init_ctrl_key_cable (Some rand_iv) (of_nat n - 1) renewed ctrl_key = Inr cable"
    "server_send_ctrl_key (Some renewed) (Some rand_iv) net sockets n ctrl_key = Inr (True, renewed, net1)"
    "slots_are net1 sockets n (\<lambda>i. ring_stream (k i) (n - 1)) (\<lambda>i. outs i @ cable)"
    using server_send_ctrl_key_broadcast[OF assms(1,4,5)] by blast
  from n_party_rounds_relays[OF c(3) assms(2)] c(1,2) assms(3) show ?thesis
    by (auto simp: n_party_server_def)
qed

lemma n_party_client_stream:
  assumes "2 \<le> n" "i \<in> {1..n}" "sends_ok c" "inb c = ring_stream (ring_key n secrets (prv n i)) (n - 1)"
    and "secrets i = point_d rand"
  shows "\<exists>c'. n_party_client rand c (n - 1) =
      Inr (True, Some (sha256_key_digest (ring_key n secrets i (n - 1))), c') \<and> inb c' = [] \<and>
      outb c' = outb c @ ring_stream (ring_key n secrets i) (n - 1)"
proof -
  let ?ks = "map (ring_key n secrets (prv n i)) [0..<n - 1]"
  from ke_snd_good[OF assms(3)] obtain c1 where
    c1: "ke_snd c KEY_EX_INTERMEDIATE (x25519 (point_d rand) basepoint) = (True, c1)"
      "sends_ok c1" "conn_rx c1 = conn_rx c" "outb c1 = outb c @ ring_msg (x25519 (point_d rand) basepoint)"
    by blast
  define m where "m = n - 2"
  have m: "n = Suc (Suc m)" using assms(1) by (simp add: m_def)
  have ks: "?ks \<noteq> []" "\<forall>k \<in> set ?ks. length k = 32" "inb c1 = concat (map ring_msg ?ks) @ []"
    using c1(3) assms(4) m by (simp_all add: comp_def del: upt_Suc)
  obtain c' where c': "n_party_client_rounds (point_d rand) c1 (length ?ks) =
      Inr (True, Some (sha256_key_digest (x25519 (point_d rand) (last ?ks))), c')" "inb c' = []"
      "outb c' = outb c1 @ concat (map (\<lambda>k. ring_msg (x25519 (point_d rand) k)) (butlast ?ks))"
    using n_party_client_rounds_keys[OF ks(1,2) c1(2) ks(3)] by blast
  have "ring_stream (ring_key n secrets i) (Suc m) =
      ring_msg (x25519 (point_d rand) basepoint) @
      concat (map (\<lambda>k. ring_msg (x25519 (point_d rand) k)) (butlast ?ks))"
  proof -
    have "butlast ?ks = map (ring_key n secrets (prv n i)) [0..<m]" by (simp add: m)
    then show ?thesis
      unfolding upt_conv_Cons[OF zero_less_Suc] map_Suc_upt[symmetric] by (simp add: comp_def assms(5))
  qed
  moreover have "length ?ks = n - 1" "x25519 (point_d rand) (last ?ks) = ring_key n secrets i (n - 1)"
    by (simp_all add: m assms(5))
  ultimately show ?thesis using c1(1,4) c' by (simp add: n_party_client_def point_q_def m)
qed


primrec chain :: "nat \<Rightarrow> nat \<Rightarrow> nat \<Rightarrow> nat list" where
  "chain n i 0 = [i]"
| "chain n i (Suc r) = chain n (prv n i) r @ [i]"

lemma ring_key_chain: "ring_key n secrets i r = fold x25519 (map secrets (chain n i r)) basepoint"
  by (induction r arbitrary: i) simp_all

lemma chain_upt:
  "i \<in> {1..n} \<Longrightarrow> r < n \<Longrightarrow>
     chain n i r = (if r < i then [i - r..<i + 1] else [n - (r - i)..<n + 1] @ [1..<i + 1])"
proof (induction r arbitrary: i)
  case (Suc r)
  show ?case
  proof (cases "i = 1")
    case True
    then show ?thesis using Suc by (simp add: prv_def)
  next
    case False
    then obtain j where j: "i = Suc j" "1 \<le> j" using Suc.prems by (cases i) auto
    then have "chain n j r = (if r < j then [j - r..<j + 1] else [n - (r - j)..<n + 1] @ [1..<j + 1])"
      using Suc by simp
    with j show ?thesis by (auto simp: prv_def)
  qed
qed simp

lemma chain_all: "i \<in> {1..n} \<Longrightarrow> mset (chain n i (n - 1)) = mset [1..<n + 1]"
proof -
  assume i: "i \<in> {1..n}"
  have "[1..<n + 1] = [1..<i + 1] @ [i + 1..<n + 1]"
    using i upt_add_eq_append[of 1 "i + 1" "n - i"] by simp
  moreover have "chain n i (n - 1) = [i + 1..<n + 1] @ [1..<i + 1]"
    using i by (cases "i = n") (auto simp: chain_upt Suc_diff_Suc simp del: upt_Suc)
  ultimately show ?thesis by (simp del: upt_Suc)
qed

definition exchange_commutes :: "byte list set \<Rightarrow> bool" where
  "exchange_commutes S \<longleftrightarrow> (\<forall>a \<in> S. \<forall>b \<in> S. \<forall>P. length P = 32 \<longrightarrow>
     x25519 a (x25519 b P) = x25519 b (x25519 a P))"

lemma ring_key_agree:
  assumes "exchange_commutes (secrets ` {1..n})" "i \<in> {1..n}" "j \<in> {1..n}"
  shows "ring_key n secrets i (n - 1) = ring_key n secrets j (n - 1)"
proof -
  have "set (chain n i (n - 1)) = {1..n}"
    using arg_cong[OF chain_all[OF assms(2)], of set_mset] by auto
  then have "x25519 a (x25519 b P) = x25519 b (x25519 a P)"
    if "a \<in> set (map secrets (chain n i (n - 1)))" "b \<in> set (map secrets (chain n i (n - 1)))" "length P = 32"
    for a b P using that assms(1) by (auto simp: exchange_commutes_def)
  moreover have "mset (map secrets (chain n i (n - 1))) = mset (map secrets (chain n j (n - 1)))"
    using chain_all[OF assms(2)] chain_all[OF assms(3)] by simp
  ultimately show ?thesis
    unfolding ring_key_chain by (intro fold_permuted_eq[where P = "\<lambda>P. length P = 32"]) (simp_all add: basepoint_def)
qed


subsection \<open>Client and daemon\<close>

lemma two_party_server_sends:
  assumes "inb sc = ke_bytes KEY_CLIENT_PUBLIC public @ rest" "length public = 32" "sends_ok sc"
    and "length rand_iv = 16" "length key = 32"
    and shared_def: "shared = x25519 (point_d rand) public"
  shows "\<exists>w sealed sc' pad. two_party_server rand (Some rand_iv) sc key = Inr (True, sc') \<and> inb sc' = rest \<and> sends_ok sc' \<and>
     outb sc' = outb sc @ ke_bytes KEY_SERVER_PUBLIC (x25519 (point_d rand) basepoint) @
       ascii ''parcel'' @ wire_unpack64 (14 + wire_get_length w) @ wire_bytes sealed \<and>
     unat (14 + wire_get_length w) = 14 + length (wire_bytes sealed) \<and> wf_wire sealed \<and>
     decrypt_wire (Some sealed) (wire_get_length w) shared None = Inr (True, w\<lparr>auth := auth sealed\<rparr>) \<and>
     wire_get_type w = wire_type_value TYPE_SESSION_KEY \<and> wire_data w = key @ pad"
proof -
  obtain c1 where c1: "ke_rcv sc KEY_CLIENT_PUBLIC = Inr (Some public, c1)" "inb c1 = rest" "conn_tx c1 = conn_tx sc"
    using ke_rcv_message[OF assms(1,2)] by blast
  then have "sends_ok c1" using assms(3) by (simp add: sends_ok_def)
  from ke_snd_good[OF this] obtain c2 where
    c2: "ke_snd c1 KEY_SERVER_PUBLIC (x25519 (point_d rand) basepoint) = (True, c2)" "sends_ok c2"
      "conn_rx c2 = conn_rx c1"
      "outb c2 = outb c1 @ ke_bytes KEY_SERVER_PUBLIC (x25519 (point_d rand) basepoint)" by blast
  obtain w pad where w: "init_wire (Some rand_iv) TYPE_SESSION_KEY key 32 = Inr (Some w, wire_get_length w)" "wire_ok w"
    "wire_get_type w = wire_type_value TYPE_SESSION_KEY" "wire_data w = key @ pad" "length (wire_data w) < 48"
    using message_wire[of TYPE_SESSION_KEY rand_iv 32 key] assms(4,5) by auto
  have len: "unat (wire_get_length w) + 14 < 2 ^ 64" using w(2,5) by (simp add: wire_ok_def)
  obtain sealed where sealed: "encrypt_wire (Some w) (Some shared) = Inr (True, Some sealed)" "wf_wire sealed"
    "length (wire_bytes sealed) = unat (wire_get_length w)"
    "decrypt_wire (Some sealed) (wire_get_length w) shared None = Inr (True, w\<lparr>auth := auth sealed\<rparr>)"
    using message_sealed[OF w(2)] by blast
  define frame where "frame = ascii ''parcel'' @ wire_unpack64 (14 + wire_get_length w) @ wire_bytes sealed"
  obtain tx where tx: "xsendall (conn_tx c2) frame = (True, tx)" "sent tx = outb c2 @ frame" "SendError \<notin> set (plan tx)"
    using xsendall_good[of "conn_tx c2" frame] c2(2) by (auto simp: sends_ok_def)
  have "transmit_cabled_wire (conn_tx c2) (Some w) (Some shared) = Inr (True, sealed, tx)"
    using transmit_cabled_wire_eq[OF w(2) len, of shared "conn_tx c2"] sealed(1) tx(1) by (auto simp: frame_def)
  then have "two_party_server rand (Some rand_iv) sc key = Inr (True, c2\<lparr>conn_tx := tx\<rparr>)"
    using c1(1) c2(1) w(1) assms(5)
    by (simp add: two_party_server_def point_q_def point_kx_def init_wire_from_session_key_def shared_def)
  moreover have "unat (14 + wire_get_length w) = 14 + length (wire_bytes sealed)"
    using len sealed(3) by (simp add: unat_add_lem[THEN iffD1])
  ultimately show ?thesis
    using c1 c2 tx(2,3) sealed(2,4) w(3,4)
    by (intro exI[of _ w] exI[of _ sealed] exI[of _ "c2\<lparr>conn_tx := tx\<rparr>"] exI[of _ pad]) (simp add: frame_def sends_ok_def)
qed

lemma two_party_client_receives:
  assumes "sends_ok cc" "length public = 32" "length key = 32"
    and "inb cc = ke_bytes KEY_SERVER_PUBLIC public @ ascii ''parcel'' @ wire_unpack64 n @ wire_bytes sealed @ rest"
    and "unat n = 14 + length (wire_bytes sealed)" "wf_wire sealed"
    and "decrypt_wire (Some sealed) (n - 14) (x25519 (point_d rand) public) None = Inr (True, w)"
    and "wire_get_type w = wire_type_value TYPE_SESSION_KEY" "wire_data w = key @ pad"
  shows "\<exists>cc'. two_party_client rand cc = Inr (Some key, cc') \<and> inb cc' = rest \<and>
     outb cc' = outb cc @ ke_bytes KEY_CLIENT_PUBLIC (x25519 (point_d rand) basepoint)"
proof -
  from ke_snd_good[OF assms(1)] obtain c1 where
    c1: "ke_snd cc KEY_CLIENT_PUBLIC (x25519 (point_d rand) basepoint) = (True, c1)" "conn_rx c1 = conn_rx cc"
      "outb c1 = outb cc @ ke_bytes KEY_CLIENT_PUBLIC (x25519 (point_d rand) basepoint)" by blast
  obtain c2 where c2: "ke_rcv c1 KEY_SERVER_PUBLIC = Inr (Some public, c2)" "conn_tx c2 = conn_tx c1"
    "inb c2 = ascii ''parcel'' @ wire_unpack64 n @ wire_bytes sealed @ rest"
    using ke_rcv_message[OF assms(4)[folded c1(2)] assms(2)] by blast
  obtain rx where rx: "rx_bytes rx = rest"
    "recv_cable (conn_rx c2) = Inr (Some (ascii ''parcel'' @ wire_unpack64 n @ wire_bytes sealed, n), rx)"
    using recv_cable_frame[OF c2(3) assms(5)] by blast
  have "two_party_client rand cc = Inr (Some key, c2\<lparr>conn_rx := rx\<rparr>)"
    using c1(1) c2(1) rx(2) get_cabled_wire_frame[of n "wire_bytes sealed"] wire_of_bytes_inverse[OF assms(6)] assms(3,7-9)
    by (simp add: two_party_client_def point_q_def point_kx_def)
  then show ?thesis using rx(1) c1(3) c2(2) by simp
qed

subsection \<open>Properties\<close>

text \<open>C21: the exchange with the daemon. When the two secrets commute on the base point (the
  Diffie-Hellman law of X25519), a daemon that has received a client's public key
  answers so that the client, run on exactly the bytes the daemon sent, returns
  with the session key the daemon handed out; and what the client sent is what the
  daemon had received.\<close>

theorem two_party_agreement:
  assumes "x25519 (point_d rand_c) (x25519 (point_d rand_s) basepoint) =
           x25519 (point_d rand_s) (x25519 (point_d rand_c) basepoint)"
    and "inb sc = ke_bytes KEY_CLIENT_PUBLIC (x25519 (point_d rand_c) basepoint)" "sends_ok sc"
    and "length rand_iv = 16" "length key = 32"
  shows "\<exists>sc'. two_party_server rand_s (Some rand_iv) sc key = Inr (True, sc') \<and>
    (\<forall>cc. sends_ok cc \<and> inb cc = drop (length (outb sc)) (outb sc') \<longrightarrow>
      (\<exists>cc'. two_party_client rand_c cc = Inr (Some key, cc') \<and> inb cc' = [] \<and> outb cc' = outb cc @ inb sc))"
proof -
  obtain w sealed sc' pad where s: "two_party_server rand_s (Some rand_iv) sc key = Inr (True, sc')"
    "outb sc' = outb sc @ ke_bytes KEY_SERVER_PUBLIC (x25519 (point_d rand_s) basepoint) @
       ascii ''parcel'' @ wire_unpack64 (14 + wire_get_length w) @ wire_bytes sealed"
    "unat (14 + wire_get_length w) = 14 + length (wire_bytes sealed)" "wf_wire sealed"
    "decrypt_wire (Some sealed) (wire_get_length w) (x25519 (point_d rand_s) (x25519 (point_d rand_c) basepoint)) None
       = Inr (True, w\<lparr>auth := auth sealed\<rparr>)"
    "wire_get_type w = wire_type_value TYPE_SESSION_KEY" "wire_data w = key @ pad"
    using two_party_server_sends[OF _ length_x25519 assms(3-5) refl, of "point_d rand_c" basepoint "[]" rand_s] assms(2)
    by auto
  have "\<exists>cc'. two_party_client rand_c cc = Inr (Some key, cc') \<and> inb cc' = [] \<and> outb cc' = outb cc @ inb sc"
    if "sends_ok cc" "inb cc = drop (length (outb sc)) (outb sc')" for cc
    unfolding assms(2)
    by (rule two_party_client_receives[OF that(1) length_x25519 assms(5), of "point_d rand_s" basepoint
          "14 + wire_get_length w" sealed "[]" rand_c "w\<lparr>auth := auth sealed\<rparr>" pad])
      (use that(2) s assms(1) in \<open>simp_all add: wire_get_type_def\<close>)
  with s(1) show ?thesis by blast
qed

theorem two_party_agreement_witness:
  "\<exists>sc sc' cc cc'. two_party_server (Some (replicate 32 1)) (Some (replicate 16 7)) sc (replicate 32 9) = Inr (True, sc') \<and>
     sends_ok cc \<and> inb cc = outb sc' \<and>
     two_party_client (Some (replicate 32 1)) cc = Inr (Some (replicate 32 9), cc') \<and> outb cc' = inb sc"
proof -
  let ?tx = "\<lparr>plan = [Takes 5], sent = []\<rparr>"
  define sc where "sc = \<lparr>conn_rx = [Segment (ke_bytes KEY_CLIENT_PUBLIC (x25519 (point_d (Some (replicate 32 1))) basepoint))],
    conn_tx = ?tx\<rparr>"
  obtain sc' where sc': "two_party_server (Some (replicate 32 1)) (Some (replicate 16 7)) sc (replicate 32 9) = Inr (True, sc')"
    "\<forall>cc. sends_ok cc \<and> inb cc = drop (length (outb sc)) (outb sc') \<longrightarrow>
      (\<exists>cc'. two_party_client (Some (replicate 32 1)) cc = Inr (Some (replicate 32 9), cc') \<and> inb cc' = [] \<and>
        outb cc' = outb cc @ inb sc)"
    using two_party_agreement[of "Some (replicate 32 1)" "Some (replicate 32 1)" sc "replicate 16 7" "replicate 32 9"]
    by (auto simp: sc_def sends_ok_def)
  define cc where "cc = \<lparr>conn_rx = [Segment (outb sc')], conn_tx = ?tx\<rparr>"
  have "sends_ok cc" "inb cc = outb sc'" by (simp_all add: cc_def sends_ok_def)
  moreover have "outb sc = []" "outb cc = []" by (simp_all add: sc_def cc_def)
  ultimately show ?thesis using sc' by (metis append_Nil drop0 list.size(3))
qed

lemma n_party_exchange:
  fixes rand :: "nat \<Rightarrow> byte list option"
  defines "secrets \<equiv> \<lambda>i. point_d (rand i)"
  assumes "2 \<le> n" "exchange_commutes (secrets ` {1..n})" "length rand_iv = 16" "length renewed = 32"
    and "slots_are net sockets n (\<lambda>i. ring_stream (ring_key n secrets i) (n - 1)) outs"
  shows "\<exists>cable net' session_key.
    init_ctrl_key_cable (Some rand_iv) (of_nat n - 1) renewed ctrl_key = Inr cable \<and>
    n_party_server (Some renewed) (Some rand_iv) net sockets n ctrl_key = Inr (True, renewed, net') \<and>
    (\<forall>i \<in> {1..n}. \<exists>relay. outb (net' (sockets ! i)) = outs i @ cable @ relay \<and>
      (\<forall>c. sends_ok c \<and> inb c = relay \<longrightarrow>
        (\<exists>c'. n_party_client (rand i) c (n - 1) = Inr (True, Some session_key, c') \<and> inb c' = [] \<and>
              outb c' = outb c @ inb (net (sockets ! i)))))"
proof -
  obtain cable net' where s:
    "init_ctrl_key_cable (Some rand_iv) (of_nat n - 1) renewed ctrl_key = Inr cable"
    "n_party_server (Some renewed) (Some rand_iv) net sockets n ctrl_key = Inr (True, renewed, net')"
    "slots_are net' sockets n (\<lambda>_. []) (\<lambda>i. outs i @ cable @ ring_stream (ring_key n secrets (prv n i)) (n - 1))"
    using n_party_server_relays[OF assms(6) length_ring_key assms(2,4,5)] by blast
  have "\<exists>c'. n_party_client (rand i) c (n - 1) =
          Inr (True, Some (sha256_key_digest (ring_key n secrets 1 (n - 1))), c') \<and> inb c' = [] \<and>
        outb c' = outb c @ inb (net (sockets ! i))"
    if i: "i \<in> {1..n}" and c: "sends_ok c" "inb c = ring_stream (ring_key n secrets (prv n i)) (n - 1)" for i c
  proof -
    have "ring_key n secrets i (n - 1) = ring_key n secrets 1 (n - 1)"
      using ring_key_agree[OF assms(3) i] assms(2) by simp
    with n_party_client_stream[OF assms(2) i c] show ?thesis
      using assms(6) i by (simp add: secrets_def slots_are_def)
  qed
  with s show ?thesis
    by (intro exI[of _ cable] exI[of _ net'] exI[of _ "sha256_key_digest (ring_key n secrets 1 (n - 1))"])
      (simp add: slots_are_def)
qed

text \<open>C5: the ring. With at least two clients in the slots whose secrets commute (the
  Diffie-Hellman law of X25519) and working sockets, \<^verbatim>\<open>n_party_server\<close> sends every
  client the control cable with the renewed key and then relays keys so that every
  client, run on exactly the bytes relayed to it, finishes with the same session
  key; and what each client sent is what the daemon had read from its slot.\<close>

theorem n_party_agreement:
  fixes rand :: "nat \<Rightarrow> byte list option"
  defines "secrets \<equiv> \<lambda>i. point_d (rand i)"
  assumes "2 \<le> n" "exchange_commutes (secrets ` {1..n})" "length rand_iv = 16" "length renewed = 32"
    and "slots_are net sockets n (\<lambda>i. ring_stream (ring_key n secrets i) (n - 1)) outs"
  shows "\<exists>cable net' session_key.
    init_ctrl_key_cable (Some rand_iv) (of_nat n - 1) renewed ctrl_key = Inr cable \<and>
    n_party_server (Some renewed) (Some rand_iv) net sockets n ctrl_key = Inr (True, renewed, net') \<and>
    (\<forall>i \<in> {1..n}. \<exists>relay. outb (net' (sockets ! i)) = outs i @ cable @ relay \<and>
      (\<forall>c. sends_ok c \<and> inb c = relay \<longrightarrow>
        (\<exists>c'. n_party_client (rand i) c (n - 1) = Inr (True, Some session_key, c') \<and> inb c' = [] \<and>
              outb c' = outb c @ inb (net (sockets ! i)))))"
  using n_party_exchange assms unfolding secrets_def by blast

theorem n_party_agreement_witness:
  "\<exists>net net' cable session_key. let sockets = [3, 5, 6, 7] in
     n_party_server (Some (replicate 32 9)) (Some (replicate 16 7)) net sockets 3 (replicate 32 4) =
       Inr (True, replicate 32 9, net') \<and>
     (\<forall>i \<in> {1..3}. \<exists>c c'. outb (net' (sockets ! i)) = cable @ inb c \<and>
        n_party_client (Some (replicate 32 1)) c 2 = Inr (True, Some session_key, c') \<and>
        outb c' = inb (net (sockets ! i)))"
proof -
  let ?rand = "\<lambda>_ :: nat. Some (replicate 32 1) :: byte list option" and ?s = "[3, 5, 6, 7] :: int list"
  let ?sec = "\<lambda>i :: nat. point_d (?rand i)" and ?tx = "\<lparr>plan = [Takes 5], sent = []\<rparr>"
  define net :: net_t where
    "net fd = \<lparr>conn_rx = [Segment (ring_stream (ring_key 3 ?sec (nat fd - 4)) 2)], conn_tx = ?tx\<rparr>" for fd
  have three: "{1..3} = {1, 2, 3 :: nat}" by auto
  have "slots_are net ?s 3 (\<lambda>i. ring_stream (ring_key 3 ?sec i) (3 - 1)) (\<lambda>_. [])"
    unfolding slots_are_def three by (auto simp: net_def sends_ok_def inj_on_def)
  moreover have "exchange_commutes (?sec ` {1..3})" by (simp add: exchange_commutes_def)
  ultimately obtain cable net' session_key where s:
    "n_party_server (Some (replicate 32 9)) (Some (replicate 16 7)) net ?s 3 (replicate 32 4) =
       Inr (True, replicate 32 9, net')"
    "\<forall>i \<in> {1..3}. \<exists>relay. outb (net' (?s ! i)) = [] @ cable @ relay \<and>
      (\<forall>c. sends_ok c \<and> inb c = relay \<longrightarrow>
        (\<exists>c'. n_party_client (?rand i) c (3 - 1) = Inr (True, Some session_key, c') \<and> inb c' = [] \<and>
              outb c' = outb c @ inb (net (?s ! i))))"
    using n_party_agreement[of 3 ?rand "replicate 16 7" "replicate 32 9" net ?s "\<lambda>_. []" "replicate 32 4"] by auto
  have "\<exists>c c'. outb (net' (?s ! i)) = cable @ inb c \<and>
      n_party_client (Some (replicate 32 1)) c 2 = Inr (True, Some session_key, c') \<and> outb c' = inb (net (?s ! i))"
    if i: "i \<in> {1..3}" for i
  proof -
    obtain relay where r: "outb (net' (?s ! i)) = [] @ cable @ relay"
      "\<forall>c. sends_ok c \<and> inb c = relay \<longrightarrow>
        (\<exists>c'. n_party_client (?rand i) c (3 - 1) = Inr (True, Some session_key, c') \<and> inb c' = [] \<and>
              outb c' = outb c @ inb (net (?s ! i)))"
      using s(2) i by blast
    let ?c = "\<lparr>conn_rx = [Segment relay], conn_tx = ?tx\<rparr>"
    have "sends_ok ?c \<and> inb ?c = relay" by (simp add: sends_ok_def)
    with r(2) obtain c' where "n_party_client (?rand i) ?c (3 - 1) = Inr (True, Some session_key, c')"
      "outb c' = outb ?c @ inb (net (?s ! i))" by blast
    with r(1) show ?thesis by (intro exI[of _ ?c] exI[of _ c']) simp
  qed
  with s(1) show ?thesis unfolding Let_def by blast
qed

end
