(* ===== verification/Platform.thy ===== *)
theory Platform
  imports Key_Exchange
begin

text \<open>
  The wrappers of \<^verbatim>\<open>common/xplatform.c\<close> the daemon's loop rests on, on a POSIX target:
  descriptor sets and the largest descriptor, and the peer address of
  \<^verbatim>\<open>common/xutils.c\<close>. What the operating system answers is a parameter.

  A descriptor set is a set of descriptors; \<^verbatim>\<open>FD_SET\<close> and \<^verbatim>\<open>FD_CLR\<close> on a descriptor that
  is not below \<^verbatim>\<open>FD_SETSIZE\<close> access memory outside of the set.
\<close>

abbreviation (input) FD_SETSIZE :: nat where "FD_SETSIZE \<equiv> 1024"

definition FD_SET :: "int \<Rightarrow> int set \<Rightarrow> int set c_result" where
  "FD_SET fd fset = (if 0 \<le> fd \<and> fd < int FD_SETSIZE then Inr (insert fd fset) else Inl OutOfBounds)"

definition FD_CLR :: "int \<Rightarrow> int set \<Rightarrow> int set c_result" where
  "FD_CLR fd fset = (if 0 \<le> fd \<and> fd < int FD_SETSIZE then Inr (fset - {fd}) else Inl OutOfBounds)"

definition xfd_isset :: "int set \<Rightarrow> int set \<Rightarrow> nat \<Rightarrow> int" where
  "xfd_isset fds fset index = (if int index \<in> fset then int index else 0)"

definition xfd_inset :: "int set \<Rightarrow> nat \<Rightarrow> int" where
  "xfd_inset fset index = (if int index \<in> fset then int index else 0)"

definition xfd_count :: "int \<Rightarrow> nat \<Rightarrow> nat" where
  "xfd_count fd count = (if fd > int count then nat fd else count)"

definition xfd_init_count :: "int \<Rightarrow> nat" where
  "xfd_init_count fd = nat fd"

definition xstartup :: int where
  "xstartup = 0"

subsection \<open>Peer addresses\<close>

record sockaddr_in =
  sin_port :: u16
  sin_addr :: "byte list"

fun decimal :: "nat \<Rightarrow> string" where
  "decimal n = (if n < 10 then [char_of (48 + n)] else decimal (n div 10) @ [char_of (48 + n mod 10)])"

declare decimal.simps [simp del]

definition inet_ntop :: "byte list \<Rightarrow> string" where
  "inet_ntop addr =
     decimal (unat (addr ! 0)) @ ''.'' @ decimal (unat (addr ! 1)) @ ''.'' @
     decimal (unat (addr ! 2)) @ ''.'' @ decimal (unat (addr ! 3))"

definition ntohs :: "u16 \<Rightarrow> u16" where
  "ntohs n = push_bit 8 n OR drop_bit 8 n"

text \<open>\<open>None\<close> stands for a nonzero answer of \<^verbatim>\<open>getpeername\<close>.\<close>

definition xgetpeeraddr :: "sockaddr_in option \<Rightarrow> (string \<times> u16) option" where
  "xgetpeeraddr peername =
     (case peername of
        None \<Rightarrow> None
      | Some client_sockaddr \<Rightarrow> Some (inet_ntop (sin_addr client_sockaddr), ntohs (sin_port client_sockaddr)))"

lemma xgetpeeraddr_None [simp]: "xgetpeeraddr p = None \<longleftrightarrow> p = None"
  by (cases p) (simp_all add: xgetpeeraddr_def)

end
