(* ===== verification/Daemon.thy ===== *)
theory Daemon
  imports Platform Key_Agreement
begin

text \<open>
  \<^verbatim>\<open>parceld/daemon.c\<close>: the table of client sockets, the arrival and departure of a
  client, the fan-out of cables, and the loop of \<^verbatim>\<open>main_thread\<close>.

  \<^item> \<open>server_t\<close> is the struct, with the connections behind the descriptors as the field
    \<open>net\<close>. \<open>env_t\<close> holds what the operating system answers to the calls one iteration
    of the loop makes.
  \<^item> \<open>daemon_step\<close> is the loop: \<open>Waiting\<close> is before \<^verbatim>\<open>select\<close>, \<open>Scanning\<close> inside the inner
    loop at index \<open>i\<close>; \<open>Returned\<close> and \<open>Crashed\<close> have left it. What the clients send may
    arrive at any time.
\<close>

record server_t =
  server_port :: "byte list"
  max_queue :: u64
  server_key :: "byte list"
  fds :: "int set"
  nfds :: nat
  sfds :: "int list"
  cnt :: nat
  net :: net_t

record env_t =
  accepted :: int
  accepted_conn :: conn_t
  peername :: "sockaddr_in option"
  close_ret :: int
  kx_rand :: "byte list option"
  kx_iv :: "byte list option"
  ring_rand :: "byte list option"
  ring_iv :: "byte list option"

subsection \<open>Start\<close>

text \<open>What the calls on one address of \<^verbatim>\<open>getaddrinfo\<close> answer.\<close>

record bind_env =
  socket_ret :: int
  setsockopt_ret :: int
  bind_ret :: int
  bind_close_ret :: int

text \<open>The loop over the addresses: \<open>Some False\<close> is the early return, \<open>None\<close> the end of the
  list, \<open>Some True\<close> the \<^verbatim>\<open>break\<close> after a successful \<^verbatim>\<open>bind\<close>.\<close>

fun init_bind :: "bind_env list \<Rightarrow> int list \<Rightarrow> bool option \<times> int list" where
  "init_bind [] socks = (None, socks)"
| "init_bind (node # nodes) socks =
     (let socks = socks[0 := socket_ret node]
      in if socket_ret node < 0 then init_bind nodes socks
         else if setsockopt_ret node < 0 then (Some False, socks)
         else if bind_ret node < 0
              then if bind_close_ret node \<noteq> 0 then (Some False, socks) else init_bind nodes socks
         else (Some True, socks))"

definition init_daemon ::
  "int \<Rightarrow> bind_env list \<Rightarrow> int \<Rightarrow> byte list option \<Rightarrow> server_t \<Rightarrow> (bool \<times> server_t) c_result" where
  "init_daemon getaddrinfo_ret nodes listen_ret rand ctx =
     (if xstartup \<noteq> 0 then Inr (False, ctx)
      else
        let ctx = ctx\<lparr>sfds := replicate FD_SETSIZE 0, cnt := 0\<rparr>
        in if getaddrinfo_ret \<noteq> 0 then Inr (False, ctx)
           else
             let (bound, socks) = init_bind nodes (sfds ctx);
                 ctx = ctx\<lparr>sfds := socks\<rparr>
             in if bound \<noteq> Some True then Inr (False, ctx)
                else if listen_ret < 0 then Inr (False, ctx)
                else c_bind (FD_SET (sfds ctx ! 0) {}) (\<lambda>set.
                  let ctx = ctx\<lparr>fds := set, nfds := xfd_init_count (sfds ctx ! 0)\<rparr>
                  in case rand of
                       None \<Rightarrow> Inr (False, ctx)
                     | Some key \<Rightarrow> Inr (True, ctx\<lparr>server_key := key\<rparr>)))"

subsection \<open>Clients\<close>

fun socket_index_from :: "int list \<Rightarrow> int \<Rightarrow> nat list \<Rightarrow> nat c_result" where
  "socket_index_from socks socket [] = Inr 0"
| "socket_index_from socks socket (i # is) =
     c_bind (sock_at socks i) (\<lambda>s. if s = socket then Inr i else socket_index_from socks socket is)"

definition socket_index :: "server_t \<Rightarrow> int \<Rightarrow> nat c_result" where
  "socket_index srv socket = socket_index_from (sfds srv) socket [1..<FD_SETSIZE + 1]"

fun fill_slot :: "int list \<Rightarrow> int \<Rightarrow> nat list \<Rightarrow> int list" where
  "fill_slot socks new_client [] = socks"
| "fill_slot socks new_client (i # is) =
     (if socks ! i = 0 then socks[i := new_client] else fill_slot socks new_client is)"

definition add_client :: "env_t \<Rightarrow> server_t \<Rightarrow> (int \<times> server_t) c_result" where
  "add_client env srv =
     (let new_client = accepted env
      in if new_client < 0 then Inr (- 1, srv)
         else
           let srv = srv\<lparr>net := (net srv)(new_client := accepted_conn env)\<rparr>
           in if cnt srv + 1 = FD_SETSIZE then Inr (1, srv)
              else c_bind (FD_SET new_client (fds srv)) (\<lambda>set.
                let srv = srv\<lparr>fds := set, nfds := xfd_count new_client (nfds srv), cnt := cnt srv + 1\<rparr>
                in case xgetpeeraddr (peername env) of
                     None \<Rightarrow> Inr (- 1, srv)
                   | Some _ \<Rightarrow>
                       let srv = srv\<lparr>sfds := fill_slot (sfds srv) new_client [1..<FD_SETSIZE]\<rparr>
                       in c_bind (two_party_server (kx_rand env) (kx_iv env) (net srv new_client) (server_key srv))
                            (\<lambda>(ok, c).
                          let srv = srv\<lparr>net := (net srv)(new_client := c)\<rparr>
                          in if \<not> ok then Inr (- 1, srv)
                             else if cnt srv > 1
                             then c_bind (n_party_server (ring_rand env) (ring_iv env) (net srv) (sfds srv) (cnt srv)
                                     (server_key srv)) (\<lambda>(ok, key, ns).
                                  let srv = srv\<lparr>server_key := key, net := ns\<rparr>
                                  in if \<not> ok then Inr (- 1, srv) else Inr (0, srv))
                             else Inr (0, srv))))"

fun transfer_to :: "net_t \<Rightarrow> int list \<Rightarrow> byte list \<Rightarrow> nat \<Rightarrow> nat list \<Rightarrow> (bool \<times> net_t) c_result" where
  "transfer_to ns socks bytes sender_index [] = Inr (True, ns)"
| "transfer_to ns socks bytes sender_index (i # is) =
     (if i = sender_index then transfer_to ns socks bytes sender_index is
      else c_bind (sock_at socks i) (\<lambda>fd.
        let (ok, c) = conn_send (ns fd) bytes;
            ns = ns(fd := c)
        in if \<not> ok then Inr (False, ns) else transfer_to ns socks bytes sender_index is))"

definition transfer_message :: "server_t \<Rightarrow> nat \<Rightarrow> cable_t \<Rightarrow> (bool \<times> server_t) c_result" where
  "transfer_message srv sender_index cable =
     c_bind (cable_get_total_len cable) (\<lambda>len.
     c_bind (mem_read cable 0 (unat len)) (\<lambda>bytes.
     c_bind (transfer_to (net srv) (sfds srv) bytes sender_index [1..<cnt srv + 1]) (\<lambda>(ok, ns).
     Inr (ok, srv\<lparr>net := ns\<rparr>))))"

definition disconnect_client :: "env_t \<Rightarrow> server_t \<Rightarrow> nat \<Rightarrow> (int \<times> server_t) c_result" where
  "disconnect_client env ctx client_index =
     c_bind (sock_at (sfds ctx) client_index) (\<lambda>fd.
     c_bind (FD_CLR fd (fds ctx)) (\<lambda>set.
     let ctx = ctx\<lparr>fds := set\<rparr>;
         ret = close_ret env
     in c_bind (if cnt ctx = 1 then Inr ((sfds ctx)[client_index := 0])
                else c_bind (sock_at (sfds ctx) (cnt ctx)) (\<lambda>last.
                       Inr ((sfds ctx)[client_index := last, cnt ctx := 0]))) (\<lambda>socks.
        Inr (ret, ctx\<lparr>sfds := socks, cnt := (cnt ctx + (2 ^ 64 - 1)) mod 2 ^ 64\<rparr>))))"

text \<open>The argument \<^verbatim>\<open>clean\<close> and the peer's address only reach the log.\<close>

definition daemon_handle_disconnect ::
  "env_t \<Rightarrow> server_t \<Rightarrow> nat \<Rightarrow> bool \<Rightarrow> (bool \<times> server_t) c_result" where
  "daemon_handle_disconnect env srv client_id clean =
     c_bind (disconnect_client env srv client_id) (\<lambda>(ret, srv).
       if ret \<noteq> 0 then Inr (False, srv)
       else c_bind (n_party_server (ring_rand env) (ring_iv env) (net srv) (sfds srv) (cnt srv) (server_key srv))
              (\<lambda>(ok, key, ns). Inr (ok, srv\<lparr>server_key := key, net := ns\<rparr>)))"

definition recv_client :: "env_t \<Rightarrow> server_t \<Rightarrow> nat \<Rightarrow> (bool \<times> server_t) c_result" where
  "recv_client env srv sender_index =
     c_bind (sock_at (sfds srv) sender_index) (\<lambda>fd.
       let (ret, bytes, rx) = xrecv (conn_rx (net srv fd)) sizeof_cable_header_t;
           cable = mem_write alloc_cable 0 bytes;
           srv = srv\<lparr>net := (net srv)(fd := net srv fd\<lparr>conn_rx := rx\<rparr>)\<rparr>
       in if ret \<le> 0 then daemon_handle_disconnect env srv sender_index (ret = 0)
          else c_bind (cable_recv_data rx cable) (\<lambda>(len, cable, rx).
            let srv = srv\<lparr>net := (net srv)(fd := net srv fd\<lparr>conn_rx := rx\<rparr>)\<rparr>
            in if len = 0 then Inr (False, srv)
               else transfer_message srv sender_index cable))"

subsection \<open>The loop\<close>

text \<open>The body of the inner loop for a ready descriptor; the flag says that the loop goes on,
  otherwise \<^verbatim>\<open>main_thread\<close> returns \<open>- 1\<close>.\<close>

definition serve_fd :: "env_t \<Rightarrow> server_t \<Rightarrow> int \<Rightarrow> (bool \<times> server_t) c_result" where
  "serve_fd env server fd =
     c_bind (sock_at (sfds server) 0) (\<lambda>listener.
       if fd = listener
       then c_bind (add_client env server) (\<lambda>(ret, server). Inr (ret \<noteq> - 1, server))
       else c_bind (socket_index server fd) (\<lambda>sender_index. recv_client env server sender_index))"

datatype run_t =
    Waiting server_t
  | Scanning server_t "int set" nat
  | Returned int
  | Crashed c_fault

text \<open>\<^verbatim>\<open>accept\<close> answers with an error or a descriptor that is not open; 0 is open, as the
  standard input.\<close>

definition env_ok :: "env_t \<Rightarrow> server_t \<Rightarrow> bool" where
  "env_ok env srv \<longleftrightarrow> accepted env < 0 \<or> (0 < accepted env \<and> accepted env \<notin> fds srv)"

inductive daemon_step :: "run_t \<Rightarrow> run_t \<Rightarrow> bool" where
  select_fails: "daemon_step (Waiting srv) (Returned (- 1))"
| select: "rdy \<subseteq> fds srv \<Longrightarrow> daemon_step (Waiting srv) (Scanning srv rdy 0)"
| arrive: "daemon_step (Scanning srv rdy i) (Scanning (srv\<lparr>net := ns\<rparr>) rdy i)"
| skip: "i \<le> nfds srv \<Longrightarrow> xfd_isset (fds srv) rdy i = 0 \<Longrightarrow>
    daemon_step (Scanning srv rdy i) (Scanning srv rdy (i + 1))"
| serve: "i \<le> nfds srv \<Longrightarrow> fd = xfd_isset (fds srv) rdy i \<Longrightarrow> fd \<noteq> 0 \<Longrightarrow> env_ok env srv \<Longrightarrow>
    serve_fd env srv fd = Inr (True, srv') \<Longrightarrow> daemon_step (Scanning srv rdy i) (Scanning srv' rdy (i + 1))"
| stop: "i \<le> nfds srv \<Longrightarrow> fd = xfd_isset (fds srv) rdy i \<Longrightarrow> fd \<noteq> 0 \<Longrightarrow> env_ok env srv \<Longrightarrow>
    serve_fd env srv fd = Inr (False, srv') \<Longrightarrow> daemon_step (Scanning srv rdy i) (Returned (- 1))"
| crash: "i \<le> nfds srv \<Longrightarrow> fd = xfd_isset (fds srv) rdy i \<Longrightarrow> fd \<noteq> 0 \<Longrightarrow> env_ok env srv \<Longrightarrow>
    serve_fd env srv fd = Inl fault \<Longrightarrow> daemon_step (Scanning srv rdy i) (Crashed fault)"
| again: "nfds srv < i \<Longrightarrow> daemon_step (Scanning srv rdy i) (Waiting srv)"

inductive_cases daemon_stepE: "daemon_step s t"

end
