(* ===== verification/Daemon_Table.thy ===== *)
theory Daemon_Table
  imports Daemon
begin

text \<open>The table of \<^verbatim>\<open>daemon.c\<close> as a list of clients.\<close>

definition table :: "int \<Rightarrow> int list \<Rightarrow> server_t \<Rightarrow> bool" where
  "table listener clients srv \<longleftrightarrow>
     sfds srv = listener # clients @ replicate (FD_SETSIZE - 1 - length clients) 0 \<and>
     cnt srv = length clients \<and> length clients < FD_SETSIZE \<and> distinct (listener # clients) \<and>
     fds srv = set (listener # clients) \<and>
     (\<forall>fd \<in> fds srv. 0 < fd \<and> fd < int FD_SETSIZE \<and> fd \<le> int (nfds srv))"

definition remove_slot :: "int list \<Rightarrow> nat \<Rightarrow> int list" where
  "remove_slot clients i = butlast (clients[i - 1 := last clients])"

lemma table_net [simp]: "table listener clients (srv\<lparr>net := ns\<rparr>) = table listener clients srv"
  "table listener clients (srv\<lparr>server_key := key\<rparr>) = table listener clients srv"
  by (simp_all add: table_def)

lemma sfds_nth:
  assumes "table listener clients srv"
  shows "length (sfds srv) = FD_SETSIZE" "sfds srv ! 0 = listener"
    "1 \<le> i \<Longrightarrow> i \<le> length clients \<Longrightarrow> sfds srv ! i = clients ! (i - 1)"
    "length clients < i \<Longrightarrow> i < FD_SETSIZE \<Longrightarrow> sfds srv ! i = 0"
  using assms by (auto simp: table_def nth_Cons nth_append split: nat.splits)

lemma fill_slot_first:
  "k \<le> m \<Longrightarrow> m < n \<Longrightarrow> (\<And>j. k \<le> j \<Longrightarrow> j < m \<Longrightarrow> socks ! j \<noteq> 0) \<Longrightarrow> socks ! m = 0 \<Longrightarrow>
     fill_slot socks fd [k..<n] = socks[m := fd]"
proof (induction "m - k" arbitrary: k)
  case 0
  then show ?case by (simp add: upt_conv_Cons)
next
  case (Suc d)
  then have "k < m" by simp
  moreover have "fill_slot socks fd [Suc k..<n] = socks[m := fd]" using Suc by auto
  ultimately show ?case using Suc.prems by (simp add: upt_conv_Cons)
qed

lemma fill_slot_table:
  assumes "table listener clients srv" "length clients + 1 < FD_SETSIZE"
  shows "fill_slot (sfds srv) fd [1..<FD_SETSIZE] =
     listener # (clients @ [fd]) @ replicate (FD_SETSIZE - 1 - length (clients @ [fd])) 0"
proof -
  have "clients ! j \<noteq> 0" if "j < length clients" for j
    using assms(1) nth_mem[OF that] by (auto simp: table_def)
  then have "fill_slot (sfds srv) fd [1..<FD_SETSIZE] = (sfds srv)[length clients + 1 := fd]"
    using assms by (intro fill_slot_first) (simp_all add: sfds_nth)
  also have "\<dots> = listener # (clients @ fd # replicate (FD_SETSIZE - 2 - length clients) 0)"
  proof -
    have "replicate (FD_SETSIZE - 1 - length clients) 0 = 0 # replicate (FD_SETSIZE - 2 - length clients) (0 :: int)"
      using assms(2) by (simp flip: replicate_Suc)
    then show ?thesis using assms(1) by (simp add: table_def)
  qed
  finally show ?thesis by simp
qed

lemma socket_index_from_first:
  "k \<le> m \<Longrightarrow> m < n \<Longrightarrow> m < length socks \<Longrightarrow> (\<And>j. k \<le> j \<Longrightarrow> j < m \<Longrightarrow> socks ! j \<noteq> fd) \<Longrightarrow> socks ! m = fd \<Longrightarrow>
     socket_index_from socks fd [k..<n] = Inr m"
proof (induction "m - k" arbitrary: k)
  case 0
  then show ?case by (simp add: upt_conv_Cons sock_at_def)
next
  case (Suc d)
  then have "k < m" by simp
  moreover have "socket_index_from socks fd [Suc k..<n] = Inr m" using Suc by auto
  ultimately show ?case using Suc.prems by (simp add: upt_conv_Cons sock_at_def)
qed

lemma socket_index_table:
  assumes "table listener clients srv" "fd \<in> set clients"
  shows "\<exists>i. socket_index srv fd = Inr i \<and> 1 \<le> i \<and> i \<le> length clients \<and> clients ! (i - 1) = fd"
proof -
  obtain k where k: "k < length clients" "clients ! k = fd" using assms(2) by (auto simp: in_set_conv_nth)
  have "clients ! j \<noteq> fd" if "j < k" for j
    using assms(1) k that by (auto simp: table_def nth_eq_iff_index_eq)
  then have "socket_index srv fd = Inr (k + 1)"
    using assms(1) k unfolding socket_index_def
    by (intro socket_index_from_first) (auto simp: nth_append table_def)
  with k show ?thesis by auto
qed

lemma socket_index_missing:
  assumes "length (sfds srv) = FD_SETSIZE" "fd \<notin> set (tl (sfds srv))"
  shows "socket_index srv fd = Inl OutOfBounds"
proof -
  have "sfds srv ! j \<noteq> fd" if "1 \<le> j" "j < FD_SETSIZE" for j
    using assms that by (cases "sfds srv") (auto simp: nth_Cons split: nat.splits)
  then have "socket_index_from (sfds srv) fd [k..<FD_SETSIZE + 1] = Inl OutOfBounds" if "1 \<le> k" "k \<le> FD_SETSIZE" for k
    using that assms(1)
  proof (induction "FD_SETSIZE - k" arbitrary: k)
    case 0
    then show ?case by (simp add: sock_at_def upt_conv_Cons del: upt_Suc)
  next
    case (Suc d)
    then have "socket_index_from (sfds srv) fd [Suc k..<FD_SETSIZE + 1] = Inl OutOfBounds" by auto
    with Suc show ?case by (simp add: sock_at_def upt_conv_Cons del: upt_Suc)
  qed
  then show ?thesis by (simp add: socket_index_def del: upt_Suc)
qed

lemma add_client_fields:
  assumes "add_client env srv = Inr (ret, srv')" "ret \<noteq> - 1" "cnt srv + 1 \<noteq> FD_SETSIZE"
  shows "FD_SET (accepted env) (fds srv) = Inr (fds srv')" "ret = 0" "cnt srv' = cnt srv + 1"
    "sfds srv' = fill_slot (sfds srv) (accepted env) [1..<FD_SETSIZE]" "nfds srv' = xfd_count (accepted env) (nfds srv)"
  using assms
  by (cases "xgetpeeraddr (peername env)";
      auto simp: add_client_def Let_def c_bind_eq_Inr simp del: upt_Suc xgetpeeraddr_None
        split: if_splits prod.splits)+

lemma add_client_table:
  assumes "table listener clients srv" "env_ok env srv" "add_client env srv = Inr (ret, srv')" "ret \<noteq> - 1"
  shows "ret = 1 \<and> length clients + 1 = FD_SETSIZE \<and> table listener clients srv' \<or>
         ret = 0 \<and> length clients + 1 < FD_SETSIZE \<and> accepted env \<notin> set (listener # clients) \<and>
           table listener (clients @ [accepted env]) srv'"
proof -
  let ?fd = "accepted env"
  have fd: "0 < ?fd" "?fd \<notin> fds srv"
    using assms(2-4) by (auto simp: env_ok_def add_client_def split: if_splits)
  show ?thesis
  proof (cases "length clients + 1 = FD_SETSIZE")
    case True
    then show ?thesis using assms(1,3) fd by (auto simp: add_client_def table_def)
  next
    case False
    then have lt: "length clients + 1 < FD_SETSIZE" "cnt srv + 1 \<noteq> FD_SETSIZE"
      using assms(1) by (simp_all add: table_def)
    note f = add_client_fields[OF assms(3,4) lt(2)]
    have "fd \<le> int (xfd_count ?fd (nfds srv))" if "fd \<in> fds srv" for fd
      using assms(1) that by (fastforce simp: xfd_count_def table_def)
    moreover have "?fd \<le> int (xfd_count ?fd (nfds srv))" by (simp add: xfd_count_def)
    moreover have "fds srv' = insert ?fd (fds srv)" "?fd < int FD_SETSIZE"
      using f(1) by (auto simp: FD_SET_def split: if_splits)
    ultimately have "table listener (clients @ [?fd]) srv'"
      using assms(1) lt(1) fd f(3-5) fill_slot_table[OF assms(1) lt(1), of ?fd] by (auto simp: table_def)
    then show ?thesis using lt(1) fd(2) f(2) assms(1) by (auto simp: table_def)
  qed
qed

lemma set_remove_slot:
  assumes "distinct clients" "1 \<le> i" "i \<le> length clients"
  shows "set (remove_slot clients i) = set clients - {clients ! (i - 1)}" "distinct (remove_slot clients i)"
proof -
  obtain xs l where c: "clients = xs @ [l]" using assms(2,3) by (cases clients rule: rev_cases) auto
  have "remove_slot clients i = (if i - 1 < length xs then xs[i - 1 := l] else xs)"
    by (auto simp: remove_slot_def c butlast_append list_update_append split: nat.splits)
  moreover have "set (xs[k := l]) = insert l (set xs - {xs ! k})" if "k < length xs" for k
    using assms(1) that by (simp add: c set_update_distinct)
  ultimately show "set (remove_slot clients i) = set clients - {clients ! (i - 1)}" "distinct (remove_slot clients i)"
    using assms by (auto simp: c nth_append distinct_list_update)
qed

lemma disconnect_client_table:
  assumes "table listener clients srv" "1 \<le> i" "i \<le> length clients"
  shows "\<exists>srv'. disconnect_client env srv i = Inr (close_ret env, srv') \<and>
     table listener (remove_slot clients i) srv' \<and> net srv' = net srv \<and> server_key srv' = server_key srv"
proof -
  obtain xs l where c: "clients = xs @ [l]" using assms(2,3) by (cases clients rule: rev_cases) auto
  let ?fd = "clients ! (i - 1)" and ?zs = "replicate (FD_SETSIZE - 1 - length xs) (0 :: int)"
  have fd: "sock_at (sfds srv) i = Inr ?fd" "?fd \<in> set clients"
    using assms by (auto simp: sock_at_def nth_append table_def)
  have clr: "FD_CLR ?fd (fds srv) = Inr (fds srv - {?fd})"
    using assms(1) fd(2) by (fastforce simp: FD_CLR_def table_def)
  let ?socks = "if cnt srv = 1 then (sfds srv)[i := 0] else (sfds srv)[i := sfds srv ! cnt srv, cnt srv := 0]"
  have d: "disconnect_client env srv i =
      Inr (close_ret env, srv\<lparr>fds := fds srv - {?fd}, sfds := ?socks, cnt := length clients - 1\<rparr>)"
    using assms fd(1) clr c by (auto simp: disconnect_client_def sock_at_def table_def)
  have "sfds srv = listener # xs @ l # replicate (FD_SETSIZE - 2 - length xs) 0"
    using assms(1) by (simp add: table_def c)
  moreover have zs: "?zs = 0 # replicate (FD_SETSIZE - 2 - length xs) 0"
  proof -
    have "length xs < 1023" using assms(1) by (simp add: table_def c)
    then have "FD_SETSIZE - 1 - length xs = Suc (FD_SETSIZE - 2 - length xs)" by arith
    then show ?thesis by simp
  qed
  ultimately have "?socks = listener # remove_slot clients i @ ?zs"
    unfolding zs using assms(1-3)
    by (auto simp: remove_slot_def table_def c nth_append butlast_append list_update_append split: nat.splits)
  moreover have "length (remove_slot clients i) = length xs" by (simp add: remove_slot_def c)
  ultimately show ?thesis
    using set_remove_slot[OF _ assms(2,3)] assms(1) fd(2) d
    by (auto simp: table_def c)
qed

lemma handle_disconnect_table:
  assumes "table listener clients srv" "1 \<le> i" "i \<le> length clients"
    and "daemon_handle_disconnect env srv i clean = Inr (ok, srv')"
  shows "table listener (remove_slot clients i) srv'"
  using disconnect_client_table[OF assms(1-3), of env] assms(4)
  by (auto simp: daemon_handle_disconnect_def c_bind_eq_Inr split: if_splits prod.splits)

lemma transfer_message_table:
  assumes "table listener clients srv" "transfer_message srv i cable = Inr (ok, srv')"
  shows "table listener clients srv'"
  using assms by (auto simp: transfer_message_def c_bind_eq_Inr)

lemma recv_client_table:
  assumes "table listener clients srv" "1 \<le> i" "i \<le> length clients" "recv_client env srv i = Inr (True, srv')"
  shows "table listener
     (if fst (xrecv (conn_rx (net srv (clients ! (i - 1)))) 14) \<le> 0 then remove_slot clients i else clients) srv'"
proof -
  let ?fd = "clients ! (i - 1)"
  have fd: "sock_at (sfds srv) i = Inr ?fd" using assms(1-3) by (auto simp: sock_at_def nth_append table_def)
  obtain ret bytes rx where x: "xrecv (conn_rx (net srv ?fd)) 14 = (ret, bytes, rx)"
    by (cases "xrecv (conn_rx (net srv ?fd)) 14")
  show ?thesis
  proof (cases "ret \<le> 0")
    case True
    then have "\<exists>ns. daemon_handle_disconnect env (srv\<lparr>net := ns\<rparr>) i (ret = 0) = Inr (True, srv')"
      using assms(4) fd x by (auto simp: recv_client_def Let_def)
    then have "table listener (remove_slot clients i) srv'"
      using handle_disconnect_table[OF _ assms(2,3)] assms(1) by (metis table_net(1))
    then show ?thesis using x True by simp
  next
    case False
    then have "\<exists>ns cable. transfer_message (srv\<lparr>net := ns\<rparr>) i cable = Inr (True, srv')"
      using assms(4) fd x by (auto simp: recv_client_def Let_def c_bind_eq_Inr split: if_splits)
    then have "table listener clients srv'" using transfer_message_table assms(1) by (metis table_net(1))
    then show ?thesis using x False by simp
  qed
qed

lemma serve_fd_client:
  assumes "table listener clients srv" "fd \<in> set clients"
  shows "\<exists>i. 1 \<le> i \<and> i \<le> length clients \<and> clients ! (i - 1) = fd \<and> sock_at (sfds srv) i = Inr fd \<and>
     serve_fd env srv fd = recv_client env srv i"
proof -
  from socket_index_table[OF assms] obtain i where
    i: "socket_index srv fd = Inr i" "1 \<le> i" "i \<le> length clients" "clients ! (i - 1) = fd" by blast
  have "fd \<noteq> listener" using assms by (auto simp: table_def)
  then have "serve_fd env srv fd = recv_client env srv i"
    using i(1) assms(1) by (simp add: serve_fd_def sock_at_def sfds_nth)
  moreover have "sock_at (sfds srv) i = Inr fd"
    using assms(1) i(2-4) by (auto simp: sock_at_def nth_append table_def)
  ultimately show ?thesis using i(2-4) by blast
qed

subsection \<open>The group of clients\<close>

text \<open>What the daemon is for, seen from outside: a set of connected clients, and the events
  that change it. A step of the group carries the event it is taken for.\<close>

datatype group_event = Idle | Join int | Leave int

inductive group_step :: "int set \<Rightarrow> group_event \<Rightarrow> int set \<Rightarrow> bool" where
  idle: "group_step M Idle M"
| join: "fd \<notin> M \<Longrightarrow> group_step M (Join fd) (insert fd M)"
| leave: "fd \<in> M \<Longrightarrow> group_step M (Leave fd) (M - {fd})"

inductive_simps group_step_simps [simp]:
  "group_step M Idle M'" "group_step M (Join fd) M'" "group_step M (Leave fd) M'"

definition members :: "server_t \<Rightarrow> int set" where
  "members srv = fds srv - {sfds srv ! 0}"

text \<open>The event of serving a descriptor that is ready: at the listening socket one client
  joins, unless the table is full; a client leaves exactly when \<^verbatim>\<open>recv\<close> reports the end of
  its stream or an error.\<close>

definition serve_event :: "server_t \<Rightarrow> int \<Rightarrow> group_event \<Rightarrow> bool" where
  "serve_event srv fd e \<longleftrightarrow>
     (if fd = sfds srv ! 0
      then if cnt srv + 1 = FD_SETSIZE then e = Idle else \<exists>new. e = Join new \<and> new \<noteq> fd
      else e = (if fst (xrecv (conn_rx (net srv fd)) 14) \<le> 0 then Leave fd else Idle))"

fun observes :: "run_t \<Rightarrow> run_t \<Rightarrow> group_event \<Rightarrow> bool" where
  "observes (Scanning srv rdy i) (Scanning srv' rdy' j) e =
     (if j = i + 1 \<and> int i \<in> rdy then serve_event srv (int i) e else e = Idle)"
| "observes s t e = (e = Idle)"

fun run_server :: "run_t \<Rightarrow> server_t option" where
  "run_server (Waiting srv) = Some srv"
| "run_server (Scanning srv rdy i) = Some srv"
| "run_server s = None"

locale simulation =
  fixes rel :: "'c \<Rightarrow> 'a \<Rightarrow> bool" and cstep :: "'c \<Rightarrow> 'c \<Rightarrow> bool"
    and astep :: "'a \<Rightarrow> 'e \<Rightarrow> 'a \<Rightarrow> bool" and obs :: "'c \<Rightarrow> 'c \<Rightarrow> 'e \<Rightarrow> bool"
  assumes sim: "rel c a \<Longrightarrow> cstep c c' \<Longrightarrow> \<exists>e a'. astep a e a' \<and> obs c c' e \<and> rel c' a'"
begin

lemma invariant:
  assumes "cstep\<^sup>*\<^sup>* c c'" "rel c a"
  shows "\<exists>a'. rel c' a'"
  using assms by (induction rule: rtranclp_induct) (use sim in blast)+

lemma step:
  assumes "cstep\<^sup>*\<^sup>* c0 c" "rel c0 a0" "cstep c c'"
  shows "\<exists>a e a'. rel c a \<and> astep a e a' \<and> obs c c' e \<and> rel c' a'"
  using invariant[OF assms(1,2)] sim assms(3) by blast

end

fun group_rel :: "int \<Rightarrow> run_t \<Rightarrow> int set \<Rightarrow> bool" where
  "group_rel listener (Waiting srv) M = (\<exists>clients. table listener clients srv \<and> M = set clients)"
| "group_rel listener (Scanning srv rdy i) M =
     ((\<exists>clients. table listener clients srv \<and> M = set clients) \<and>
      (\<forall>fd \<in> rdy. int i \<le> fd \<longrightarrow> fd \<in> fds srv))"
| "group_rel listener (Returned ret) M = True"
| "group_rel listener (Crashed fault) M = True"

lemma table_fds: "table listener clients srv \<Longrightarrow> fds srv = set (listener # clients)"
  by (simp add: table_def)

lemma table_members:
  "table listener clients srv \<Longrightarrow> members srv = set clients \<and> card (set clients) = cnt srv"
  by (auto simp: table_def members_def distinct_card)

lemma group_rel_server:
  assumes "group_rel listener s M" "run_server s = Some srv"
  shows "members srv = M \<and> card M = cnt srv \<and> sfds srv ! 0 = listener"
  using assms table_members sfds_nth(2) by (cases s) auto

lemma serve_fd_group:
  assumes "table listener clients srv" "env_ok env srv" "fd \<in> fds srv" "serve_fd env srv fd = Inr (True, srv')"
  shows "\<exists>clients' e. table listener clients' srv' \<and> group_step (set clients) e (set clients') \<and>
     serve_event srv fd e \<and> fds srv - {fd} \<subseteq> fds srv'"
proof (cases "fd = listener")
  case True
  then obtain ret where "add_client env srv = Inr (ret, srv')" "ret \<noteq> - 1"
    using assms(1,4) by (auto simp: serve_fd_def sock_at_def sfds_nth c_bind_eq_Inr)
  from add_client_table[OF assms(1,2) this] show ?thesis
  proof (elim disjE conjE)
    assume "accepted env \<notin> set (listener # clients)" "table listener (clients @ [accepted env]) srv'" "length clients + 1 < FD_SETSIZE"
    with assms(1) True show ?thesis
      by (intro exI[of _ "clients @ [accepted env]"] exI[of _ "Join (accepted env)"])
        (auto simp: table_def serve_event_def)
  next
    assume "table listener clients srv'" "length clients + 1 = FD_SETSIZE"
    with assms(1) True show ?thesis
      by (intro exI[of _ clients] exI[of _ Idle]) (auto simp: table_def serve_event_def)
  qed
next
  case False
  with assms(1,3) have mem: "fd \<in> set clients" by (simp add: table_def)
  from serve_fd_client[OF assms(1) this, of env] assms(4) obtain i where
    i: "1 \<le> i" "i \<le> length clients" "clients ! (i - 1) = fd" "recv_client env srv i = Inr (True, srv')" by auto
  note t = recv_client_table[OF assms(1) i(1,2,4), unfolded i(3)]
  have s: "set (remove_slot clients i) = set clients - {fd}"
    using set_remove_slot(1)[OF _ i(1,2)] assms(1) i(3) by (simp add: table_def)
  show ?thesis
  proof (cases "fst (xrecv (conn_rx (net srv fd)) 14) \<le> 0")
    case True
    then have t': "table listener (remove_slot clients i) srv'" using t by simp
    then have "fds srv' = fds srv - {fd}" using table_fds[OF assms(1)] table_fds[OF t'] False s by auto
    then show ?thesis using True False t' s mem sfds_nth(2)[OF assms(1)]
      by (intro exI[of _ "remove_slot clients i"] exI[of _ "Leave fd"]) (auto simp: serve_event_def)
  next
    case stays: False
    then have t': "table listener clients srv'" using t by simp
    then show ?thesis using stays False table_fds[OF assms(1)] table_fds[OF t'] sfds_nth(2)[OF assms(1)]
      by (intro exI[of _ clients] exI[of _ Idle]) (auto simp: serve_event_def)
  qed
qed

interpretation group: simulation "group_rel listener" daemon_step group_step observes for listener
proof unfold_locales
  fix c c' M
  assume rel: "group_rel listener c M" and "daemon_step c c'"
  from this(2) show "\<exists>e M'. group_step M e M' \<and> observes c c' e \<and> group_rel listener c' M'"
  proof cases
    case (serve i srv fd rdy env srv')
    then obtain clients where t: "table listener clients srv" "M = set clients"
      "\<forall>fd \<in> rdy. int i \<le> fd \<longrightarrow> fd \<in> fds srv" using rel by auto
    have fd: "fd = int i" "fd \<in> rdy" using serve(4,5) by (auto simp: xfd_isset_def split: if_splits)
    then have "fd \<in> fds srv" using t(3) by simp
    from serve_fd_group[OF t(1) serve(6) this serve(7)] obtain clients' e where
      c': "table listener clients' srv'" "group_step (set clients) e (set clients')" "serve_event srv fd e"
        "fds srv - {fd} \<subseteq> fds srv'" by blast
    then have "\<forall>x \<in> rdy. int (i + 1) \<le> x \<longrightarrow> x \<in> fds srv'" using t(3) fd by force
    then show ?thesis using c' t(2) serve(1,2) fd by (intro exI[of _ e] exI[of _ "set clients'"]) auto
  next
    case (skip i srv rdy)
    have "int i \<notin> rdy"
    proof
      assume "int i \<in> rdy"
      then have "int i \<in> fds srv" "i = 0" using rel skip(1,4) by (auto simp: xfd_isset_def)
      moreover have "0 \<notin> fds srv" using rel skip(1) by (auto simp: table_def)
      ultimately show False by simp
    qed
    then show ?thesis using rel skip by (intro exI[of _ Idle] exI[of _ M]) auto
  qed (use rel in \<open>auto simp: group_step.simps\<close>)
qed

lemma init_bind_bound:
  assumes "init_bind nodes socks = (Some True, socks')" "\<forall>node \<in> set nodes. socket_ret node \<noteq> 0" "socks \<noteq> []"
  shows "\<exists>fd. 0 < fd \<and> socks' = socks[0 := fd]"
  using assms
proof (induction nodes arbitrary: socks)
  case (Cons node nodes)
  let ?socks = "socks[0 := socket_ret node]"
  show ?case
  proof (cases "init_bind (node # nodes) socks = init_bind nodes ?socks")
    case True
    with Cons.IH[of ?socks] Cons.prems show ?thesis by auto
  next
    case False
    then have "socks' = ?socks" "0 \<le> socket_ret node"
      using Cons.prems(1) by (auto simp: Let_def split: if_splits)
    with Cons.prems(2) show ?thesis by (intro exI[of _ "socket_ret node"]) auto
  qed
qed simp

lemma init_daemon_table:
  assumes "init_daemon gai nodes lst rand ctx = Inr (True, srv)" "\<forall>node \<in> set nodes. socket_ret node \<noteq> 0"
  shows "table (sfds srv ! 0) [] srv"
proof -
  obtain socks where b: "init_bind nodes (replicate FD_SETSIZE 0) = (Some True, socks)"
    "sfds srv = socks" "cnt srv = 0" "FD_SET (socks ! 0) {} = Inr (fds srv)" "nfds srv = nat (socks ! 0)"
    using assms(1)
    by (auto simp: init_daemon_def Let_def c_bind_eq_Inr xfd_init_count_def split: if_splits prod.splits option.splits)
  moreover obtain fd where "0 < fd" "socks = (replicate FD_SETSIZE 0)[0 := fd]"
    using init_bind_bound[OF b(1) assms(2)] by auto
  moreover have "(replicate FD_SETSIZE 0)[0 := fd] = fd # replicate (FD_SETSIZE - 1) 0"
    by (simp add: list_update_code(2) numeral_eq_Suc)
  ultimately show ?thesis by (auto simp: table_def FD_SET_def split: if_splits)
qed


subsection \<open>Fan-out\<close>

lemma transfer_to_all:
  assumes "\<forall>i \<in> set is. i < length socks \<and> sends_ok (ns (socks ! i))" "inj_on ((!) socks) (set is)" "distinct is"
  shows "\<exists>ns'. transfer_to ns socks bytes sender is = Inr (True, ns') \<and>
     (\<forall>i \<in> set is - {sender}. conn_rx (ns' (socks ! i)) = conn_rx (ns (socks ! i)) \<and>
        outb (ns' (socks ! i)) = outb (ns (socks ! i)) @ bytes) \<and>
     (\<forall>fd. fd \<notin> (!) socks ` (set is - {sender}) \<longrightarrow> ns' fd = ns fd)"
  using assms
proof (induction "is" arbitrary: ns)
  case (Cons i "is")
  show ?case
  proof (cases "i = sender")
    case True
    with Cons.prems have "sender \<notin> set is" by simp
    with Cons.IH[of ns] Cons.prems True show ?thesis by (auto simp: inj_on_def)
  next
    case False
    let ?c = "ns (socks ! i)"
    have i: "i < length socks" "sends_ok ?c" using Cons.prems(1) by simp_all
    from conn_send_good[OF i(2)] obtain c where c: "conn_send ?c bytes = (True, c)" "sends_ok c"
      "conn_rx c = conn_rx ?c" "outb c = outb ?c @ bytes" by blast
    define ns1 where "ns1 = ns(socks ! i := c)"
    have ne: "socks ! j \<noteq> socks ! i" if "j \<in> set is" for j
      using Cons.prems(2,3) that by (auto simp: inj_on_def)
    then have "\<forall>j \<in> set is. j < length socks \<and> sends_ok (ns1 (socks ! j))"
      using Cons.prems(1) by (simp add: ns1_def)
    then obtain ns' where ns': "transfer_to ns1 socks bytes sender is = Inr (True, ns')"
      "\<forall>j \<in> set is - {sender}. conn_rx (ns' (socks ! j)) = conn_rx (ns1 (socks ! j)) \<and>
         outb (ns' (socks ! j)) = outb (ns1 (socks ! j)) @ bytes"
      "\<forall>fd. fd \<notin> (!) socks ` (set is - {sender}) \<longrightarrow> ns' fd = ns1 fd"
      using Cons.IH[of ns1] Cons.prems(2,3) by (auto simp: inj_on_def)
    have "socks ! i \<notin> (!) socks ` (set is - {sender})" using ne by force
    then have "ns' (socks ! i) = c" using ns'(3) by (simp add: ns1_def)
    moreover have "transfer_to ns socks bytes sender (i # is) = Inr (True, ns')"
      using False c(1) i(1) ns'(1) by (simp add: sock_at_def ns1_def)
    moreover have "set (i # is) - {sender} = insert i (set is - {sender})" using False by auto
    ultimately show ?thesis using ns'(2,3) c(3,4) ne by (simp add: ns1_def)
  qed
qed simp

lemma slots_inj:
  assumes "table listener clients srv"
  shows "inj_on ((!) (sfds srv)) (set [1..<cnt srv + 1])"
    "(!) (sfds srv) ` (set [1..<cnt srv + 1] - {i}) = (\<lambda>j. clients ! (j - 1)) ` ({1..length clients} - {i})"
proof -
  have r: "set [1..<cnt srv + 1] = {1..length clients}" using assms by (auto simp: table_def)
  have n: "sfds srv ! j = clients ! (j - 1)" if "j \<in> {1..length clients}" for j
    using sfds_nth(3)[OF assms] that by auto
  show "inj_on ((!) (sfds srv)) (set [1..<cnt srv + 1])"
    unfolding r inj_on_def using assms n by (force simp: table_def nth_eq_iff_index_eq)
  show "(!) (sfds srv) ` (set [1..<cnt srv + 1] - {i}) = (\<lambda>j. clients ! (j - 1)) ` ({1..length clients} - {i})"
    unfolding r by (intro image_cong refl) (simp add: n)
qed

lemma other_clients:
  assumes "table listener clients srv" "1 \<le> i" "i \<le> length clients"
  shows "(\<lambda>j. clients ! (j - 1)) ` ({1..length clients} - {i}) = set clients - {clients ! (i - 1)}"
proof -
  have "distinct clients" using assms(1) by (simp add: table_def)
  then have "(!) clients ` ({..<length clients} - {i - 1}) = (!) clients ` {..<length clients} - {clients ! (i - 1)}"
    using assms(2,3) by (subst inj_on_image_set_diff[where C = "{..<length clients}"]) (auto simp: inj_on_nth)
  moreover have "{..<length clients} - {i - 1} = (\<lambda>j. j - 1) ` ({1..length clients} - {i})"
  proof -
    have "x \<in> (\<lambda>j. j - 1) ` ({1..length clients} - {i})" if "x < length clients" "x \<noteq> i - 1" for x
      using that by (intro image_eqI[of _ _ "x + 1"]) auto
    then show ?thesis using assms(2) by auto
  qed
  moreover have "(!) clients ` {..<length clients} = set clients" by (auto simp: in_set_conv_nth)
  ultimately show ?thesis by (simp add: image_image)
qed

lemma transfer_message_all:
  assumes "table listener clients srv" "1 \<le> i" "i \<le> length clients" "\<forall>fd \<in> set clients. sends_ok (net srv fd)"
    and "cable_get_total_len cable = Inr n" "unat n = length cable"
  shows "\<exists>ns. transfer_message srv i cable = Inr (True, srv\<lparr>net := ns\<rparr>) \<and>
     (\<forall>fd \<in> set clients - {clients ! (i - 1)}. inb (ns fd) = inb (net srv fd) \<and>
        outb (ns fd) = outb (net srv fd) @ cable) \<and>
     (\<forall>fd. fd \<notin> set clients - {clients ! (i - 1)} \<longrightarrow> ns fd = net srv fd)"
proof -
  let ?is = "[1..<cnt srv + 1]"
  have c: "cnt srv = length clients" "length clients < FD_SETSIZE" using assms(1) by (simp_all add: table_def)
  have ok: "\<forall>j \<in> set ?is. j < length (sfds srv) \<and> sends_ok (net srv (sfds srv ! j))"
  proof
    fix j assume "j \<in> set ?is"
    then have "1 \<le> j" "j \<le> length clients" "j - 1 < length clients" using c by auto
    then show "j < length (sfds srv) \<and> sends_ok (net srv (sfds srv ! j))"
      using assms(4) c(2) sfds_nth[OF assms(1)] by auto
  qed
  have others: "(!) (sfds srv) ` (set ?is - {i}) = set clients - {clients ! (i - 1)}"
    using slots_inj(2)[OF assms(1)] other_clients[OF assms(1-3)] by simp
  obtain ns where ns: "transfer_to (net srv) (sfds srv) cable i ?is = Inr (True, ns)"
    "\<forall>j \<in> set ?is - {i}. conn_rx (ns (sfds srv ! j)) = conn_rx (net srv (sfds srv ! j)) \<and>
        outb (ns (sfds srv ! j)) = outb (net srv (sfds srv ! j)) @ cable"
    "\<forall>fd. fd \<notin> (!) (sfds srv) ` (set ?is - {i}) \<longrightarrow> ns fd = net srv fd"
    using transfer_to_all[OF ok slots_inj(1)[OF assms(1)] distinct_upt] by blast
  have "transfer_message srv i cable = Inr (True, srv\<lparr>net := ns\<rparr>)"
    using ns(1) assms(5,6) by (simp add: transfer_message_def del: upt_Suc)
  moreover have "\<forall>fd \<in> (!) (sfds srv) ` (set ?is - {i}). inb (ns fd) = inb (net srv fd) \<and>
      outb (ns fd) = outb (net srv fd) @ cable"
    using ns(2) by simp
  ultimately show ?thesis using ns(3) unfolding others by blast
qed


lemma xrecv_segment:
  assumes "conn_rx c = Segment seg # rx" "14 \<le> length seg" "inb c = hdr @ rest" "length hdr = 14"
  shows "\<exists>rx'. xrecv (conn_rx c) 14 = (14, hdr, rx') \<and> rx_bytes rx' = rest"
proof -
  have s: "seg @ rx_bytes rx = hdr @ rest" using assms(1,3) by simp
  have "take 14 (seg @ rx_bytes rx) = take 14 (hdr @ rest)" "drop 14 (seg @ rx_bytes rx) = drop 14 (hdr @ rest)"
    by (simp_all only: s)
  then have "take 14 seg = hdr" "drop 14 seg @ rx_bytes rx = rest" using assms(2,4) by simp_all
  then show ?thesis using assms(1,2) by auto
qed

lemma cable_recv_data_frame:
  assumes "rx_bytes rx = body @ rest" "unat n = 14 + length body"
  shows "\<exists>rx'. cable_recv_data rx (ascii ''parcel'' @ wire_unpack64 n) =
     Inr (n, ascii ''parcel'' @ wire_unpack64 n @ body, rx') \<and> rx_bytes rx' = rest"
proof -
  have "unat (n - 14) = length body" using assms(2) by (simp add: unat_sub word_le_nat_alt)
  then obtain rx' where "xrecvall rx (length body) (n - 14) = Inr (True, body, rx')" "rx_bytes rx' = rest"
    using sock.get_prefix[OF assms(1), of "n - 14" "length body"] by auto
  then show ?thesis
    using assms(2)
    by (simp add: cable_recv_data_def cable_check_signature_def cable_recv_remaining_def cable_get_total_len_def
        xrealloc_def mem_write_def Let_def)
qed

subsection \<open>Joining\<close>

text \<open>A client that sends its public key, and whose peers all send their part of the ring, is
  let in.\<close>

lemma table_slots_are:
  assumes "table listener clients srv"
    and "\<And>i. i < length clients \<Longrightarrow> sends_ok (net srv (clients ! i)) \<and> inb (net srv (clients ! i)) = ins (i + 1)"
  shows "slots_are (net srv) (sfds srv) (cnt srv) ins (\<lambda>i. outb (net srv (sfds srv ! i)))"
proof -
  have c: "cnt srv = length clients" "length clients < FD_SETSIZE" using assms(1) by (simp_all add: table_def)
  have "sends_ok (net srv (sfds srv ! i)) \<and> inb (net srv (sfds srv ! i)) = ins i" if "i \<in> {1..cnt srv}" for i
    using assms(2)[of "i - 1"] sfds_nth(3)[OF assms(1), of i] that c by auto
  moreover have "set [1..<cnt srv + 1] = {1..cnt srv}" by auto
  ultimately show ?thesis
    using slots_inj(1)[OF assms(1)] sfds_nth(1)[OF assms(1)] c by (simp add: slots_are_def del: upt_Suc set_upt)
qed

lemma table_add_slot:
  assumes "table listener clients srv" "length clients + 1 < FD_SETSIZE" "0 < new" "new < int FD_SETSIZE" "new \<notin> fds srv"
  shows "table listener (clients @ [new]) (srv\<lparr>net := ns, fds := insert new (fds srv),
     nfds := xfd_count new (nfds srv), cnt := cnt srv + 1, sfds := fill_slot (sfds srv) new [1..<FD_SETSIZE]\<rparr>)"
proof -
  have "fd \<le> int (xfd_count new (nfds srv))" if "fd \<in> fds srv" for fd
    using assms(1) that by (fastforce simp: xfd_count_def table_def)
  then show ?thesis
    using assms fill_slot_table[OF assms(1,2), of new] by (auto simp: table_def xfd_count_def simp del: upt_Suc)
qed

lemma joined_slots:
  assumes "table listener (clients @ [new]) srv" "sends_ok (net srv new)" "inb (net srv new) = ins (length clients + 1)"
    and "\<And>i. i < length clients \<Longrightarrow> sends_ok (net srv (clients ! i)) \<and> inb (net srv (clients ! i)) = ins (i + 1)"
  shows "slots_are (net srv) (sfds srv) (length clients + 1) ins (\<lambda>i. outb (net srv (sfds srv ! i)))"
proof -
  have "sends_ok (net srv ((clients @ [new]) ! i)) \<and> inb (net srv ((clients @ [new]) ! i)) = ins (i + 1)"
    if "i < length (clients @ [new])" for i
    using that assms(2-4) by (cases "i < length clients") (auto simp: nth_append less_Suc_eq)
  from table_slots_are[OF assms(1) this] show ?thesis using assms(1) by (simp add: table_def)
qed

lemma serve_fd_joins:
  assumes "table listener clients srv" "length clients + 1 < FD_SETSIZE" "length (server_key srv) = 32"
    and "0 < accepted env" "accepted env < int FD_SETSIZE" "accepted env \<notin> fds srv" "peername env \<noteq> None"
    and "kx_iv env = Some kiv" "length kiv = 16" "ring_rand env = Some renewed" "length renewed = 32"
    and "ring_iv env = Some riv" "length riv = 16"
    and "sends_ok (accepted_conn env)" "length public = 32" "\<And>i r. length (k i r) = 32"
    and "inb (accepted_conn env) =
      ke_bytes KEY_CLIENT_PUBLIC public @ ring_stream (k (length clients + 1)) (length clients)"
    and "\<And>i. i < length clients \<Longrightarrow> sends_ok (net srv (clients ! i)) \<and>
      inb (net srv (clients ! i)) = ring_stream (k (i + 1)) (length clients)"
  shows "\<exists>srv'. serve_fd env srv listener = Inr (True, srv') \<and> table listener (clients @ [accepted env]) srv'"
proof -
  let ?fd = "accepted env" and ?n = "length clients + 1"
  obtain c where c: "two_party_server (kx_rand env) (Some kiv) (accepted_conn env) (server_key srv) = Inr (True, c)"
    "inb c = ring_stream (k ?n) (length clients)" "sends_ok c"
    using two_party_server_sends[OF assms(17,15,14,9,3) refl] by blast
  define srv1 where "srv1 = srv\<lparr>net := (net srv)(?fd := c), fds := insert ?fd (fds srv),
    nfds := xfd_count ?fd (nfds srv), cnt := cnt srv + 1, sfds := fill_slot (sfds srv) ?fd [1..<FD_SETSIZE]\<rparr>"
  have t1: "table listener (clients @ [?fd]) srv1"
    using table_add_slot[OF assms(1,2,4-6)] by (simp add: srv1_def)
  have n1: "cnt srv1 = ?n" "cnt srv = length clients" "?fd \<notin> set clients"
    using assms(1,6) by (auto simp: srv1_def table_def)
  have "sends_ok (net srv1 (clients ! i)) \<and> inb (net srv1 (clients ! i)) = ring_stream (k (i + 1)) (length clients)"
    if "i < length clients" for i
  proof -
    have "clients ! i \<noteq> ?fd" using n1(3) nth_mem[OF that] by metis
    then show ?thesis using assms(18)[OF that] by (simp add: srv1_def)
  qed
  with joined_slots[OF t1, of "\<lambda>i. ring_stream (k i) (length clients)"] c(2,3) have slots:
    "slots_are (net srv1) (sfds srv1) ?n (\<lambda>i. ring_stream (k i) (?n - 1)) (\<lambda>i. outb (net srv1 (sfds srv1 ! i)))"
    by (simp add: srv1_def)
  obtain peer where peer: "xgetpeeraddr (peername env) = Some peer" using assms(7) by (cases "xgetpeeraddr (peername env)") auto
  have add: "add_client env srv =
      (if 1 < ?n
       then c_bind (n_party_server (Some renewed) (Some riv) (net srv1) (sfds srv1) ?n (server_key srv)) (\<lambda>(ok, key, ns).
              if \<not> ok then Inr (- 1, srv1\<lparr>server_key := key, net := ns\<rparr>) else Inr (0, srv1\<lparr>server_key := key, net := ns\<rparr>))
       else Inr (0, srv1))"
    using assms(2,4,5) n1(2) peer c(1) assms(8,10,12)
    by (simp add: add_client_def FD_SET_def Let_def srv1_def del: upt_Suc cong: if_cong)
  have listener: "sock_at (sfds srv) 0 = Inr listener" using sfds_nth[OF assms(1)] by (simp add: sock_at_def)
  have "\<exists>key ns. serve_fd env srv listener = Inr (True, srv1\<lparr>server_key := key, net := ns\<rparr>)"
  proof (cases "clients = []")
    case True
    then show ?thesis using add listener
      by (intro exI[of _ "server_key srv1"] exI[of _ "net srv1"]) (simp add: serve_fd_def)
  next
    case False
    then have "2 \<le> ?n" by (cases clients) auto
    from n_party_server_relays[OF slots assms(16) this assms(13,11), of "server_key srv"] obtain ns where
      "n_party_server (Some renewed) (Some riv) (net srv1) (sfds srv1) ?n (server_key srv) = Inr (True, renewed, ns)"
      by blast
    then show ?thesis using add listener \<open>2 \<le> ?n\<close> by (auto simp: serve_fd_def)
  qed
  then show ?thesis using t1 by auto
qed

subsection \<open>A small daemon\<close>

definition example_nodes :: "bind_env list" where
  "example_nodes = [\<lparr>socket_ret = 3, setsockopt_ret = 0, bind_ret = 0, bind_close_ret = 0\<rparr>]"

lemma example_init:
  "\<exists>srv. init_daemon 0 example_nodes 0 (Some (replicate 32 1)) ctx = Inr (True, srv) \<and>
     fds srv = {3} \<and> nfds srv = 3 \<and> cnt srv = 0 \<and> sfds srv ! 0 = 3 \<and> length (server_key srv) = 32 \<and> (\<forall>node \<in> set example_nodes. socket_ret node \<noteq> 0)"
  by (simp add: init_daemon_def example_nodes_def FD_SET_def xfd_init_count_def xstartup_def)

lemma example_scan:
  assumes "fds srv = {3}" "nfds srv = 3"
  shows "daemon_step\<^sup>*\<^sup>* (Waiting srv) (Scanning srv {3} 3)"
proof -
  have "daemon_step (Waiting srv) (Scanning srv {3} 0)" using assms by (intro daemon_step.select) simp
  moreover have "daemon_step (Scanning srv {3} k) (Scanning srv {3} (k + 1))" if "k < 3" for k
    using that assms by (intro daemon_step.skip) (simp_all add: xfd_isset_def)
  from this[of 0] this[of 1] this[of 2] have "daemon_step\<^sup>*\<^sup>* (Scanning srv {3} 0) (Scanning srv {3} 3)"
    by (simp add: numeral_2_eq_2 numeral_3_eq_3)
  ultimately show ?thesis by simp
qed

definition example_srv :: "net_t \<Rightarrow> int list \<Rightarrow> server_t" where
  "example_srv ns clients = \<lparr>server_port = [], max_queue = 32, server_key = replicate 32 4, fds = set (3 # clients), nfds = 9,
     sfds = 3 # clients @ replicate (FD_SETSIZE - 1 - length clients) 0, cnt = length clients, net = ns\<rparr>"

lemma example_table:
  "table 3 [4, 5, 6] (example_srv ns [4, 5, 6])" "table 3 [4] (example_srv ns [4])" "net (example_srv ns clients) = ns"
  "fds (example_srv ns clients) = set (3 # clients)"
  by (simp_all add: table_def example_srv_def)

definition example_env :: env_t where
  "example_env = \<lparr>accepted = - 1, accepted_conn = \<lparr>conn_rx = [], conn_tx = \<lparr>plan = [], sent = []\<rparr>\<rparr>, peername = None,
     close_ret = 0, kx_rand = None, kx_iv = None, ring_rand = None, ring_iv = None\<rparr>"

text \<open>A client on descriptor 7 that sends its public key and then \<open>ring\<close>.\<close>

definition joining_env :: "byte list \<Rightarrow> env_t" where
  "joining_env ring = example_env\<lparr>accepted := 7,
     accepted_conn := \<lparr>conn_rx = [Segment (ke_bytes KEY_CLIENT_PUBLIC (replicate 32 9) @ ring)],
       conn_tx = \<lparr>plan = [Takes 5], sent = []\<rparr>\<rparr>,
     peername := Some \<lparr>sin_port = 80, sin_addr = [127, 0, 0, 1]\<rparr>, kx_iv := Some (replicate 16 7),
     ring_rand := Some (replicate 32 9), ring_iv := Some (replicate 16 7)\<rparr>"

subsection \<open>Properties\<close>

text \<open>C6: the socket table. In every state the daemon's loop reaches from a successful
  \<^verbatim>\<open>init_daemon\<close>, slot 0 holds the listening socket, the slots \<open>1..cnt\<close> hold the clients,
  all different and positive, every later slot is free, and the descriptor set is
  exactly these sockets, none above \<^verbatim>\<open>nfds\<close>.\<close>

theorem daemon_table_invariant:
  assumes "init_daemon gai nodes lst rand ctx = Inr (True, srv)" "\<forall>node \<in> set nodes. socket_ret node \<noteq> 0"
    and "daemon_step\<^sup>*\<^sup>* (Waiting srv) s" "s = Waiting srv' \<or> s = Scanning srv' rdy i"
  shows "length (sfds srv') = FD_SETSIZE \<and> cnt srv' < FD_SETSIZE \<and>
     distinct (take (cnt srv' + 1) (sfds srv')) \<and> (\<forall>j \<in> {cnt srv' + 1..<FD_SETSIZE}. sfds srv' ! j = 0) \<and>
     fds srv' = set (take (cnt srv' + 1) (sfds srv')) \<and> (\<forall>fd \<in> fds srv'. 0 < fd \<and> fd \<le> int (nfds srv'))"
proof -
  have "group_rel (sfds srv ! 0) (Waiting srv) {}" using init_daemon_table[OF assms(1,2)] by auto
  from group.invariant[OF assms(3) this] assms(4) obtain listener clients where
    t: "table listener clients srv'" by auto
  then have "take (cnt srv' + 1) (sfds srv') = listener # clients" by (simp add: table_def)
  then show ?thesis using t sfds_nth[OF t] by (simp add: table_def)
qed

theorem daemon_table_invariant_witness:
  "\<exists>ctx srv. init_daemon 0 example_nodes 0 (Some (replicate 32 1)) ctx = Inr (True, srv) \<and>
     daemon_step\<^sup>*\<^sup>* (Waiting srv) (Scanning srv {3} 3) \<and> length (sfds srv) = FD_SETSIZE \<and>
     fds srv = set (take (cnt srv + 1) (sfds srv)) \<and> (\<forall>j \<in> {cnt srv + 1..<FD_SETSIZE}. sfds srv ! j = 0)"
proof -
  obtain ctx srv where i: "init_daemon 0 example_nodes 0 (Some (replicate 32 1)) ctx = Inr (True, srv)"
    "fds srv = {3}" "nfds srv = 3" "\<forall>node \<in> set example_nodes. socket_ret node \<noteq> 0"
    using example_init by blast
  show ?thesis
    using daemon_table_invariant[OF i(1,4) example_scan[OF i(2,3)], of srv "{3}" 3] i(1) example_scan[OF i(2,3)] by blast
qed

text \<open>C7: refinement, step by step. In every run of the loop from a successful \<^verbatim>\<open>init_daemon\<close>,
  however its calls fail and whatever arrives, each single step is a step of the group of
  connected clients, for the event that can be read off the step: one new client when the
  listening socket is served and the table has room, the client that is served when \<^verbatim>\<open>recv\<close>
  on its socket reports the end or an error, nobody in every other step. The listening
  socket stays, \<^verbatim>\<open>cnt\<close> counts the clients, and the run starts with none.\<close>

theorem daemon_refines_group:
  assumes "init_daemon gai nodes lst rand ctx = Inr (True, srv)" "\<forall>node \<in> set nodes. socket_ret node \<noteq> 0"
    and "daemon_step\<^sup>*\<^sup>* (Waiting srv) s" "daemon_step s t" "run_server s = Some a" "run_server t = Some b"
  shows "members srv = {} \<and> card (members b) = cnt b \<and> sfds b ! 0 = sfds srv ! 0 \<and>
     (\<exists>e. group_step (members a) e (members b) \<and> observes s t e)"
proof -
  note t = init_daemon_table[OF assms(1,2)]
  then have "group_rel (sfds srv ! 0) (Waiting srv) {}" by auto
  from group.step[OF assms(3) this assms(4)] obtain M e M' where
    "group_rel (sfds srv ! 0) s M" "group_step M e M'" "observes s t e" "group_rel (sfds srv ! 0) t M'" by blast
  with assms(5,6) group_rel_server have "members a = M" "members b = M'" "card M' = cnt b" "sfds b ! 0 = sfds srv ! 0"
    by blast+
  with \<open>group_step M e M'\<close> \<open>observes s t e\<close> table_members[OF t] show ?thesis by auto
qed

theorem daemon_refines_group_witness:
  "\<exists>ctx srv b. init_daemon 0 example_nodes 0 (Some (replicate 32 1)) ctx = Inr (True, srv) \<and>
     daemon_step\<^sup>*\<^sup>* (Waiting srv) (Scanning srv {3} 3) \<and> daemon_step (Scanning srv {3} 3) (Scanning b {3} 4) \<and>
     (\<exists>e. group_step {} e (members b) \<and> observes (Scanning srv {3} 3) (Scanning b {3} 4) e \<and> e = Join 7) \<and>
     members b = {7} \<and> cnt b = 1"
proof -
  obtain ctx srv where i: "init_daemon 0 example_nodes 0 (Some (replicate 32 1)) ctx = Inr (True, srv)"
    "fds srv = {3}" "nfds srv = 3" "sfds srv ! 0 = 3" "\<forall>node \<in> set example_nodes. socket_ret node \<noteq> 0"
    "length (server_key srv) = 32" "cnt srv = 0"
    using example_init by blast
  have "table 3 [] srv" using init_daemon_table[OF i(1,5)] i(4) by simp
  from serve_fd_joins[OF this, of "joining_env []" "replicate 16 7" "replicate 32 9" "replicate 16 7" "replicate 32 9" "\<lambda>_ _. replicate 32 9"]
  obtain b where b: "serve_fd (joining_env []) srv 3 = Inr (True, b)" "table 3 [7] b"
    using i(2,6) by (auto simp: joining_env_def sends_ok_def)
  have s: "daemon_step (Scanning srv {3} 3) (Scanning b {3} (3 + 1))"
    using b(1) i(2,3) by (intro daemon_step.serve[of _ _ 3]) (simp_all add: xfd_isset_def env_ok_def joining_env_def)
  have m: "members b = {7}" "cnt b = 1" using table_members[OF b(2)] by auto
  obtain e where e: "members srv = {}" "group_step (members srv) e (members b)"
    "observes (Scanning srv {3} 3) (Scanning b {3} (3 + 1)) e"
    using daemon_refines_group[OF i(1,5) example_scan[OF i(2,3)] s, of srv b] by auto
  have "e = Join 7" using e m i(4,7) by (auto simp: serve_event_def)
  with e m s i(1) example_scan[OF i(2,3)] show ?thesis by (intro exI[of _ ctx] exI[of _ srv] exI[of _ b]) auto
qed

text \<open>C23: every ready descriptor the loop serves is the listening socket or the socket of a
  client in the table, so \<^verbatim>\<open>socket_index\<close> finds its slot; for a socket that is not in the
  table it would have read one element beyond the array.\<close>

theorem daemon_serves_known_sockets:
  assumes "init_daemon gai nodes lst rand ctx = Inr (True, srv)" "\<forall>node \<in> set nodes. socket_ret node \<noteq> 0"
    and "daemon_step\<^sup>*\<^sup>* (Waiting srv) (Scanning srv' rdy i)" "fd = xfd_isset (fds srv') rdy i" "fd \<noteq> 0"
  shows "(fd = sfds srv' ! 0 \<or>
      (\<exists>slot. socket_index srv' fd = Inr slot \<and> slot \<in> {1..cnt srv'} \<and> sfds srv' ! slot = fd)) \<and>
     (stranger \<notin> fds srv' \<longrightarrow> stranger \<noteq> 0 \<longrightarrow> socket_index srv' stranger = Inl OutOfBounds)"
proof -
  have "group_rel (sfds srv ! 0) (Waiting srv) {}" using init_daemon_table[OF assms(1,2)] by auto
  from group.invariant[OF assms(3) this] obtain listener clients where
    t: "table listener clients srv'" "\<forall>fd \<in> rdy. int i \<le> fd \<longrightarrow> fd \<in> fds srv'" by auto
  have "fd \<in> set (listener # clients)"
    using assms(4,5) t(2) table_fds[OF t(1)] by (auto simp: xfd_isset_def split: if_splits)
  then have "fd = sfds srv' ! 0 \<or>
      (\<exists>slot. socket_index srv' fd = Inr slot \<and> slot \<in> {1..cnt srv'} \<and> sfds srv' ! slot = fd)"
    using socket_index_table[OF t(1)] sfds_nth[OF t(1)] t(1) by (fastforce simp: table_def)
  moreover have "socket_index srv' stranger = Inl OutOfBounds" if "stranger \<notin> fds srv'" "stranger \<noteq> 0"
    using that t(1) by (intro socket_index_missing) (auto simp: table_def)
  ultimately show ?thesis by blast
qed

theorem daemon_serves_known_sockets_witness:
  "\<exists>ctx srv. init_daemon 0 example_nodes 0 (Some (replicate 32 1)) ctx = Inr (True, srv) \<and>
     daemon_step\<^sup>*\<^sup>* (Waiting srv) (Scanning srv {3} 3) \<and> xfd_isset (fds srv) {3} 3 = 3 \<and>
     (3 = sfds srv ! 0 \<or> (\<exists>slot. socket_index srv 3 = Inr slot)) \<and> socket_index srv 7 = Inl OutOfBounds"
proof -
  obtain ctx srv where i: "init_daemon 0 example_nodes 0 (Some (replicate 32 1)) ctx = Inr (True, srv)"
    "fds srv = {3}" "nfds srv = 3" "\<forall>node \<in> set example_nodes. socket_ret node \<noteq> 0"
    using example_init by blast
  have x: "xfd_isset (fds srv) {3} 3 = 3" by (simp add: xfd_isset_def)
  note served = daemon_serves_known_sockets[OF i(1,4) example_scan[OF i(2,3)] x[symmetric]]
  have "3 = sfds srv ! 0 \<or> (\<exists>slot. socket_index srv 3 = Inr slot)" using served by auto
  moreover have "socket_index srv 7 = Inl OutOfBounds" using served[of 7] i(2) by simp
  ultimately show ?thesis using x i(1) example_scan[OF i(2,3)] by blast
qed

lemma recv_client_relays:
  assumes "table listener clients srv" "1 \<le> i" "i \<le> length clients" "\<forall>fd \<in> set clients. sends_ok (net srv fd)"
    and "sender = clients ! (i - 1)" "conn_rx (net srv sender) = Segment seg # rx" "14 \<le> length seg"
    and "cable = ascii ''parcel'' @ wire_unpack64 n @ body" "unat n = 14 + length body"
    and "inb (net srv sender) = cable @ rest"
  shows "\<exists>srv'. recv_client env srv i = Inr (True, srv') \<and> table listener clients srv' \<and>
     (\<forall>fd \<in> set clients - {sender}. inb (net srv' fd) = inb (net srv fd) \<and>
        outb (net srv' fd) = outb (net srv fd) @ cable) \<and>
     inb (net srv' sender) = rest \<and> outb (net srv' sender) = outb (net srv sender) \<and>
     (\<forall>fd. fd \<notin> set clients \<longrightarrow> net srv' fd = net srv fd)"
proof -
  have fd: "sock_at (sfds srv) i = Inr sender" "sender \<in> set clients"
    using assms(1-3,5) by (auto simp: sock_at_def nth_append table_def)
  obtain rx1 where rx1: "xrecv (conn_rx (net srv sender)) 14 = (14, ascii ''parcel'' @ wire_unpack64 n, rx1)"
    "rx_bytes rx1 = body @ rest"
    using xrecv_segment[OF assms(6,7), of "ascii ''parcel'' @ wire_unpack64 n" "body @ rest"] assms(8,10) by auto
  obtain rx2 where rx2: "cable_recv_data rx1 (ascii ''parcel'' @ wire_unpack64 n) = Inr (n, cable, rx2)"
    "rx_bytes rx2 = rest"
    using cable_recv_data_frame[OF rx1(2) assms(9)] assms(8) by auto
  define srv1 where "srv1 = srv\<lparr>net := (net srv)(sender := net srv sender\<lparr>conn_rx := rx2\<rparr>)\<rparr>"
  have "n \<noteq> 0" using assms(9) by auto
  then have r: "recv_client env srv i = transfer_message srv1 i cable"
    using fd(1) rx1(1) rx2(1) by (simp add: recv_client_def mem_write_def alloc_cable_def srv1_def)
  have t1: "table listener clients srv1" "\<forall>fd \<in> set clients. sends_ok (net srv1 fd)"
    using assms(1,4) by (auto simp: srv1_def sends_ok_def)
  have len: "cable_get_total_len cable = Inr n" "unat n = length cable"
    using assms(8,9) by (simp_all add: cable_get_total_len_def)
  obtain ns where ns: "transfer_message srv1 i cable = Inr (True, srv1\<lparr>net := ns\<rparr>)"
    "\<forall>fd \<in> set clients - {sender}. inb (ns fd) = inb (net srv1 fd) \<and> outb (ns fd) = outb (net srv1 fd) @ cable"
    "\<forall>fd. fd \<notin> set clients - {sender} \<longrightarrow> ns fd = net srv1 fd"
    using transfer_message_all[OF t1(1) assms(2,3) t1(2) len] unfolding assms(5)[symmetric]
    by (elim exE conjE) (rule that; assumption)
  have "ns sender = net srv sender\<lparr>conn_rx := rx2\<rparr>" using spec[OF ns(3), of sender] by (simp add: srv1_def)
  then have "inb (ns sender) = rest" "outb (ns sender) = outb (net srv sender)" using rx2(2) by simp_all
  moreover have "ns fd = net srv fd" if "fd \<notin> set clients" for fd
  proof -
    have "fd \<noteq> sender" using that fd(2) by blast
    then show ?thesis using spec[OF ns(3), of fd] that by (simp add: srv1_def)
  qed
  moreover have "\<forall>fd \<in> set clients - {sender}. inb (ns fd) = inb (net srv fd) \<and> outb (ns fd) = outb (net srv fd) @ cable"
    using ns(2) by (simp add: srv1_def)
  moreover have "recv_client env srv i = Inr (True, srv1\<lparr>net := ns\<rparr>)" using r ns(1) by simp
  ultimately show ?thesis
    using t1(1) by (intro exI[of _ "srv1\<lparr>net := ns\<rparr>"] conjI) simp_all
qed

text \<open>C8: fan-out. A whole cable from the client in slot \<open>i\<close>, of which the first \<^verbatim>\<open>recv\<close> delivers at least
  the fourteen bytes of the header at once, is sent to every other client exactly once and unchanged,
  nothing is sent to the sender or to anyone else, and what follows the cable stays
  in the sender's socket.\<close>

theorem recv_client_fans_out:
  assumes "table listener clients srv" "1 \<le> i" "i \<le> length clients" "\<forall>fd \<in> set clients. sends_ok (net srv fd)"
    and "sender = clients ! (i - 1)" "conn_rx (net srv sender) = Segment seg # rx" "14 \<le> length seg"
    and "cable = ascii ''parcel'' @ wire_unpack64 n @ body" "unat n = 14 + length body"
    and "inb (net srv sender) = cable @ rest"
  shows "\<exists>srv'. recv_client env srv i = Inr (True, srv') \<and> table listener clients srv' \<and>
     (\<forall>fd \<in> set clients - {sender}. inb (net srv' fd) = inb (net srv fd) \<and>
        outb (net srv' fd) = outb (net srv fd) @ cable) \<and>
     inb (net srv' sender) = rest \<and> outb (net srv' sender) = outb (net srv sender) \<and>
     (\<forall>fd. fd \<notin> set clients \<longrightarrow> net srv' fd = net srv fd)"
  using assms by (rule recv_client_relays)

theorem recv_client_fans_out_witness:
  "\<exists>ns srv'. let cable = ascii ''parcel'' @ wire_unpack64 16 @ [1, 2] in
     inb (ns 5) = cable @ [9] \<and> recv_client example_env (example_srv ns [4, 5, 6]) 2 = Inr (True, srv') \<and>
     outb (net srv' 4) = outb (ns 4) @ cable \<and> outb (net srv' 6) = outb (ns 6) @ cable \<and>
     outb (net srv' 5) = outb (ns 5) \<and> inb (net srv' 5) = [9]"
proof -
  let ?cable = "ascii ''parcel'' @ wire_unpack64 16 @ [1, 2]"
  define ns :: net_t where "ns fd = \<lparr>conn_rx = [Segment (take 15 (?cable @ [9])), Segment (drop 15 (?cable @ [9]))],
      conn_tx = \<lparr>plan = [Takes 3], sent = []\<rparr>\<rparr>" for fd
  have "inb (ns fd) = ?cable @ [9]" "sends_ok (ns fd)" "conn_rx (ns fd) = [Segment (take 15 (?cable @ [9])), Segment (drop 15 (?cable @ [9]))]" for fd
    by (simp_all add: ns_def sends_ok_def flip: append_assoc)
  then show ?thesis
    using recv_client_fans_out[OF example_table(1), of 2 ns 5 "take 15 (?cable @ [9])" "[Segment (drop 15 (?cable @ [9]))]"
        ?cable 16 "[1, 2]" "[9]" example_env]
    by (intro exI[of _ ns]) (auto simp: example_table(3) Let_def)
qed



text \<open>C33: a header that arrives in pieces. \<^verbatim>\<open>recv_client\<close> reads the header of a cable with a single
  \<^verbatim>\<open>recv\<close> into zeroed memory. When that call delivers only one to five bytes of a correct
  cable the signature does not match and \<^verbatim>\<open>main_thread\<close> returns \<open>- 1\<close>; when it delivers
  just the signature, the length reads as zero and \<^verbatim>\<open>xrealloc\<close> exits. Either way the
  daemon is gone for everybody.\<close>

theorem split_header_stops_daemon:
  assumes "table listener clients srv" "fd \<in> set clients" "env_ok env srv" "fd \<in> rdy"
    and "inb (net srv fd) = ascii ''parcel'' @ wire_unpack64 n @ body @ rest" "unat n = 14 + length body"
    and "conn_rx (net srv fd) = Segment seg # rx" "0 < length seg" "length seg \<le> 6"
  shows "if length seg < 6
     then (\<exists>srv'. serve_fd env srv fd = Inr (False, srv')) \<and>
       daemon_step (Scanning srv rdy (nat fd)) (Returned (- 1))
     else serve_fd env srv fd = Inl Exited \<and> daemon_step (Scanning srv rdy (nat fd)) (Crashed Exited)"
proof -
  obtain i where i: "sock_at (sfds srv) i = Inr fd" "serve_fd env srv fd = recv_client env srv i"
    using serve_fd_client[OF assms(1,2)] by blast
  have fd: "0 < fd" "fd \<le> int (nfds srv)" using assms(1,2) by (auto simp: table_def)
  have "take (length seg) (take 6 (seg @ rx_bytes rx)) = seg" using assms(9) by simp
  moreover have "seg @ rx_bytes rx = ascii ''parcel'' @ wire_unpack64 n @ body @ rest" using assms(5,7) by simp
  then have "take 6 (seg @ rx_bytes rx) = ascii ''parcel''" by (simp only:) simp
  ultimately have seg: "seg = take (length seg) (ascii ''parcel'')" by (simp only:)
  show ?thesis
  proof (cases "length seg < 6")
    case True
    have "cable_check_signature (mem_write alloc_cable 0 seg) = Inr False"
    proof -
      define m where "m = take 6 (seg @ replicate (14 - length seg) 0)"
      have "m ! 5 = 0" using True by (simp add: m_def nth_append)
      moreover have "ascii ''parcel'' ! 5 = 0x6c" by code_simp
      ultimately have "m \<noteq> ascii ''parcel''" by auto
      then show ?thesis using True by (simp add: cable_check_signature_def mem_write_def alloc_cable_def m_def)
    qed
    then have "\<exists>srv'. serve_fd env srv fd = Inr (False, srv')"
      using i assms(7,8) True by (simp add: recv_client_def cable_recv_data_def Let_def min_def)
    moreover from this have "daemon_step (Scanning srv rdy (nat fd)) (Returned (- 1))"
      using fd assms(3,4) by (auto intro: daemon_step.stop[of _ _ fd] simp: xfd_isset_def)
    ultimately show ?thesis using True by simp
  next
    case False
    then have "seg = ascii ''parcel''" using seg assms(9) by simp
    moreover have "wire_pack64 (replicate 8 0) = 0" by code_simp
    ultimately have "serve_fd env srv fd = Inl Exited"
      using i assms(7) by (simp add: recv_client_def cable_recv_data_def cable_check_signature_def
        cable_recv_remaining_def cable_get_total_len_def xrealloc_def mem_write_def alloc_cable_def Let_def)
    moreover from this have "daemon_step (Scanning srv rdy (nat fd)) (Crashed Exited)"
      using fd assms(3,4) by (auto intro: daemon_step.crash[of _ _ fd] simp: xfd_isset_def)
    ultimately show ?thesis using False by simp
  qed
qed

theorem split_header_stops_daemon_witness:
  "(\<exists>srv. table 3 [4, 5, 6] srv \<and> inb (net srv 5) = ascii ''parcel'' @ wire_unpack64 15 @ [1] \<and>
      conn_rx (net srv 5) = [Segment (ascii ''par''), Segment (ascii ''cel'' @ wire_unpack64 15 @ [1])] \<and>
      daemon_step (Scanning srv {5} (nat 5)) (Returned (- 1))) \<and>
   (\<exists>srv. table 3 [4, 5, 6] srv \<and> inb (net srv 5) = ascii ''parcel'' @ wire_unpack64 15 @ [1] \<and>
      conn_rx (net srv 5) = [Segment (ascii ''parcel''), Segment (wire_unpack64 15 @ [1])] \<and>
      daemon_step (Scanning srv {5} (nat 5)) (Crashed Exited))"
proof -
  define ns :: "byte list \<Rightarrow> byte list \<Rightarrow> net_t" where
    "ns a b fd = \<lparr>conn_rx = [Segment a, Segment b], conn_tx = \<lparr>plan = [], sent = []\<rparr>\<rparr>" for a b fd
  let ?cable = "ascii ''parcel'' @ wire_unpack64 15 @ [1]"
  let ?step = "\<lambda>a b out. table 3 [4, 5, 6] (example_srv (ns a b) [4, 5, 6]) \<and> inb (ns a b 5) = ?cable \<and>
      conn_rx (ns a b 5) = [Segment a, Segment b] \<and>
      daemon_step (Scanning (example_srv (ns a b) [4, 5, 6]) {5} (nat 5)) out"
  have step: "?step a b (if length a < 6 then Returned (- 1) else Crashed Exited)"
    if "a @ b = ?cable" "0 < length a" "length a \<le> 6" for a b
    using split_header_stops_daemon[OF example_table(1), of 5 example_env "ns a b" "{5}" 15 "[1]" "[]" a "[Segment b]"]
      example_table(1)[of "ns a b"] that
    by (simp add: example_table(3) ns_def env_ok_def example_env_def split: if_splits)
  have "ascii ''par'' @ ascii ''cel'' = ascii ''parcel''" by code_simp
  then have "?step (ascii ''par'') (ascii ''cel'' @ wire_unpack64 15 @ [1]) (Returned (- 1))"
    using step[of "ascii ''par''" "ascii ''cel'' @ wire_unpack64 15 @ [1]"] by (simp flip: append_assoc)
  moreover have "?step (ascii ''parcel'') (wire_unpack64 15 @ [1]) (Crashed Exited)"
    using step[of "ascii ''parcel''" "wire_unpack64 15 @ [1]"] by simp
  ultimately show ?thesis by (metis example_table(3))
qed

text \<open>C34: when the only connected client closes its connection, the daemon fails the
  assertion of \<^verbatim>\<open>n_party_server\<close> instead of waiting for the next client.\<close>

theorem last_disconnect_aborts_daemon:
  assumes "table listener [fd] srv" "env_ok env srv" "close_ret env = 0" "fd \<in> rdy" "conn_rx (net srv fd) = []"
  shows "daemon_step (Scanning srv rdy (nat fd)) (Crashed AssertFailed)"
proof -
  obtain i where i: "socket_index srv fd = Inr i" "1 \<le> i" "i \<le> length [fd]"
    using socket_index_table[OF assms(1), of fd] by auto
  have fd: "0 < fd" "fd \<le> int (nfds srv)" "fd \<noteq> listener" using assms(1) by (auto simp: table_def)
  have s: "sock_at (sfds srv) i = Inr fd" "sock_at (sfds srv) 0 = Inr listener"
    using assms(1) i(2,3) by (auto simp: sock_at_def table_def)
  define srv1 where "srv1 = srv\<lparr>net := (net srv)(fd := net srv fd\<lparr>conn_rx := []\<rparr>)\<rparr>"
  have "table listener [fd] srv1" using assms(1) by (simp add: srv1_def)
  from disconnect_client_table[OF this i(2,3), of env] obtain srv2 where
    "disconnect_client env srv1 i = Inr (0, srv2)" "cnt srv2 = 0"
    using i(2,3) assms(3) by (auto simp: table_def remove_slot_def)
  then have "daemon_handle_disconnect env srv1 i True = Inl AssertFailed"
    by (simp add: daemon_handle_disconnect_def n_party_server_def)
  then have "serve_fd env srv fd = Inl AssertFailed"
    using i(1) s fd(3) assms(5) by (simp add: serve_fd_def recv_client_def srv1_def)
  then show ?thesis
    using fd assms(2,4) by (intro daemon_step.crash[of _ _ fd]) (auto simp: xfd_isset_def)
qed

theorem last_disconnect_aborts_daemon_witness:
  "\<exists>srv. table 3 [4] srv \<and> conn_rx (net srv 4) = [] \<and> daemon_step (Scanning srv {4} (nat 4)) (Crashed AssertFailed)"
proof -
  define ns :: net_t where "ns fd = \<lparr>conn_rx = [], conn_tx = \<lparr>plan = [], sent = []\<rparr>\<rparr>" for fd
  show ?thesis
    using last_disconnect_aborts_daemon[OF example_table(2), of example_env ns "{4}"] example_table(2)[of ns]
    by (intro exI[of _ "example_srv ns [4]"]) (simp add: example_table(3) ns_def env_ok_def example_env_def)
qed

end
