(* ===== verification/Utf8.thy ===== *)
theory Utf8
  imports Prelude
begin

text \<open>
  \<^verbatim>\<open>common/utf8.c\<close>: how many columns text takes on the terminal. A string is the memory
  it lies in, terminator included, and a pointer into it is an index; reads beyond
  the memory are faults. \<^verbatim>\<open>size_t\<close> indices of the binary search wrap at \<open>2 ^ 64\<close>.

  The reference definition \<open>utf8_encode\<close> is the encoding of RFC 3629.
\<close>

text \<open>The first component is \<^verbatim>\<open>start\<close>, the second \<^verbatim>\<open>end\<close>.\<close>

type_synonym codepoint_range_t = "u32 \<times> u32"

subsection \<open>Width tables\<close>

partial_function (option) search_loop ::
  "u32 \<Rightarrow> codepoint_range_t list \<Rightarrow> nat \<Rightarrow> nat \<Rightarrow> bool c_result option"
where
  "search_loop c table upper lower =
     (if upper \<ge> lower
      then let avg = (lower + upper) mod 2 ^ 64 div 2
           in if length table \<le> avg then Some (Inl OutOfBounds)
              else if c > snd (table ! avg) then search_loop c table upper ((avg + 1) mod 2 ^ 64)
              else if c < fst (table ! avg) then search_loop c table ((avg + (2 ^ 64 - 1)) mod 2 ^ 64) lower
              else Some (Inr True)
      else Some (Inr False))"

declare search_loop.simps [code]

definition search_table :: "u32 \<Rightarrow> codepoint_range_t list \<Rightarrow> bool c_result" where
  "search_table c table =
     c_bind (mem_at table 0) (\<lambda>first.
     c_bind (mem_at table (length table - 1)) (\<lambda>last.
       if c < fst first \<or> c > snd last then Inr False
       else case search_loop c table (length table - 1) 0 of
              None \<Rightarrow> Inl NonTermination
            | Some found \<Rightarrow> found))"

definition ucd_wide :: "codepoint_range_t list" where
  "ucd_wide = [
     (0x01100, 0x0115f), (0x0231a, 0x0231b), (0x02329, 0x0232a), (0x023e9, 0x023ec),
     (0x023f0, 0x023f0), (0x023f3, 0x023f3), (0x025fd, 0x025fe), (0x02614, 0x02615),
     (0x02648, 0x02653), (0x0267f, 0x0267f), (0x02693, 0x02693), (0x026a1, 0x026a1),
     (0x026aa, 0x026ab), (0x026bd, 0x026be), (0x026c4, 0x026c5), (0x026ce, 0x026ce),
     (0x026d4, 0x026d4), (0x026ea, 0x026ea), (0x026f2, 0x026f3), (0x026f5, 0x026f5),
     (0x026fa, 0x026fa), (0x026fd, 0x026fd), (0x02705, 0x02705), (0x0270a, 0x0270b),
     (0x02728, 0x02728), (0x0274c, 0x0274c), (0x0274e, 0x0274e), (0x02753, 0x02755),
     (0x02757, 0x02757), (0x02795, 0x02797), (0x027b0, 0x027b0), (0x027bf, 0x027bf),
     (0x02b1b, 0x02b1c), (0x02b50, 0x02b50), (0x02b55, 0x02b55), (0x02e80, 0x02e99),
     (0x02e9b, 0x02ef3), (0x02f00, 0x02fd5), (0x02ff0, 0x02ffb), (0x03000, 0x0303e),
     (0x03041, 0x03096), (0x03099, 0x030ff), (0x03105, 0x0312f), (0x03131, 0x0318e),
     (0x03190, 0x031e3), (0x031f0, 0x0321e), (0x03220, 0x03247), (0x03250, 0x04dbf),
     (0x04e00, 0x0a48c), (0x0a490, 0x0a4c6), (0x0a960, 0x0a97c), (0x0ac00, 0x0d7a3),
     (0x0f900, 0x0faff), (0x0fe10, 0x0fe19), (0x0fe30, 0x0fe52), (0x0fe54, 0x0fe66),
     (0x0fe68, 0x0fe6b), (0x0ff01, 0x0ff60), (0x0ffe0, 0x0ffe6), (0x16fe0, 0x16fe4),
     (0x16ff0, 0x16ff1), (0x17000, 0x187f7), (0x18800, 0x18cd5), (0x18d00, 0x18d08),
     (0x1aff0, 0x1aff3), (0x1aff5, 0x1affb), (0x1affd, 0x1affe), (0x1b000, 0x1b122),
     (0x1b132, 0x1b132), (0x1b150, 0x1b152), (0x1b155, 0x1b155), (0x1b164, 0x1b167),
     (0x1b170, 0x1b2fb), (0x1f004, 0x1f004), (0x1f0cf, 0x1f0cf), (0x1f18e, 0x1f18e),
     (0x1f191, 0x1f19a), (0x1f200, 0x1f202), (0x1f210, 0x1f23b), (0x1f240, 0x1f248),
     (0x1f250, 0x1f251), (0x1f260, 0x1f265), (0x1f300, 0x1f320), (0x1f32d, 0x1f335),
     (0x1f337, 0x1f37c), (0x1f37e, 0x1f393), (0x1f3a0, 0x1f3ca), (0x1f3cf, 0x1f3d3),
     (0x1f3e0, 0x1f3f0), (0x1f3f4, 0x1f3f4), (0x1f3f8, 0x1f43e), (0x1f440, 0x1f440),
     (0x1f442, 0x1f4fc), (0x1f4ff, 0x1f53d), (0x1f54b, 0x1f54e), (0x1f550, 0x1f567),
     (0x1f57a, 0x1f57a), (0x1f595, 0x1f596), (0x1f5a4, 0x1f5a4), (0x1f5fb, 0x1f64f),
     (0x1f680, 0x1f6c5), (0x1f6cc, 0x1f6cc), (0x1f6d0, 0x1f6d2), (0x1f6d5, 0x1f6d7),
     (0x1f6dc, 0x1f6df), (0x1f6eb, 0x1f6ec), (0x1f6f4, 0x1f6fc), (0x1f7e0, 0x1f7eb),
     (0x1f7f0, 0x1f7f0), (0x1f90c, 0x1f93a), (0x1f93c, 0x1f945), (0x1f947, 0x1f9ff),
     (0x1fa70, 0x1fa7c), (0x1fa80, 0x1fa88), (0x1fa90, 0x1fabd), (0x1fabf, 0x1fac5),
     (0x1face, 0x1fadb), (0x1fae0, 0x1fae8), (0x1faf0, 0x1faf8), (0x20000, 0x2fffd),
     (0x30000, 0x3fffd)]"

definition ucd_ambiguous :: "codepoint_range_t list" where
  "ucd_ambiguous = [
     (0x000a1, 0x000a1), (0x000a4, 0x000a4), (0x000a7, 0x000a8), (0x000aa, 0x000aa),
     (0x000ad, 0x000ae), (0x000b0, 0x000b4), (0x000b6, 0x000ba), (0x000bc, 0x000bf),
     (0x000c6, 0x000c6), (0x000d0, 0x000d0), (0x000d7, 0x000d8), (0x000de, 0x000e1),
     (0x000e6, 0x000e6), (0x000e8, 0x000ea), (0x000ec, 0x000ed), (0x000f0, 0x000f0),
     (0x000f2, 0x000f3), (0x000f7, 0x000fa), (0x000fc, 0x000fc), (0x000fe, 0x000fe),
     (0x00101, 0x00101), (0x00111, 0x00111), (0x00113, 0x00113), (0x0011b, 0x0011b),
     (0x00126, 0x00127), (0x0012b, 0x0012b), (0x00131, 0x00133), (0x00138, 0x00138),
     (0x0013f, 0x00142), (0x00144, 0x00144), (0x00148, 0x0014b), (0x0014d, 0x0014d),
     (0x00152, 0x00153), (0x00166, 0x00167), (0x0016b, 0x0016b), (0x001ce, 0x001ce),
     (0x001d0, 0x001d0), (0x001d2, 0x001d2), (0x001d4, 0x001d4), (0x001d6, 0x001d6),
     (0x001d8, 0x001d8), (0x001da, 0x001da), (0x001dc, 0x001dc), (0x00251, 0x00251),
     (0x00261, 0x00261), (0x002c4, 0x002c4), (0x002c7, 0x002c7), (0x002c9, 0x002cb),
     (0x002cd, 0x002cd), (0x002d0, 0x002d0), (0x002d8, 0x002db), (0x002dd, 0x002dd),
     (0x002df, 0x002df), (0x00300, 0x0036f), (0x00391, 0x003a1), (0x003a3, 0x003a9),
     (0x003b1, 0x003c1), (0x003c3, 0x003c9), (0x00401, 0x00401), (0x00410, 0x0044f),
     (0x00451, 0x00451), (0x02010, 0x02010), (0x02013, 0x02016), (0x02018, 0x02019),
     (0x0201c, 0x0201d), (0x02020, 0x02022), (0x02024, 0x02027), (0x02030, 0x02030),
     (0x02032, 0x02033), (0x02035, 0x02035), (0x0203b, 0x0203b), (0x0203e, 0x0203e),
     (0x02074, 0x02074), (0x0207f, 0x0207f), (0x02081, 0x02084), (0x020ac, 0x020ac),
     (0x02103, 0x02103), (0x02105, 0x02105), (0x02109, 0x02109), (0x02113, 0x02113),
     (0x02116, 0x02116), (0x02121, 0x02122), (0x02126, 0x02126), (0x0212b, 0x0212b),
     (0x02153, 0x02154), (0x0215b, 0x0215e), (0x02160, 0x0216b), (0x02170, 0x02179),
     (0x02189, 0x02189), (0x02190, 0x02199), (0x021b8, 0x021b9), (0x021d2, 0x021d2),
     (0x021d4, 0x021d4), (0x021e7, 0x021e7), (0x02200, 0x02200), (0x02202, 0x02203),
     (0x02207, 0x02208), (0x0220b, 0x0220b), (0x0220f, 0x0220f), (0x02211, 0x02211),
     (0x02215, 0x02215), (0x0221a, 0x0221a), (0x0221d, 0x02220), (0x02223, 0x02223),
     (0x02225, 0x02225), (0x02227, 0x0222c), (0x0222e, 0x0222e), (0x02234, 0x02237),
     (0x0223c, 0x0223d), (0x02248, 0x02248), (0x0224c, 0x0224c), (0x02252, 0x02252),
     (0x02260, 0x02261), (0x02264, 0x02267), (0x0226a, 0x0226b), (0x0226e, 0x0226f),
     (0x02282, 0x02283), (0x02286, 0x02287), (0x02295, 0x02295), (0x02299, 0x02299),
     (0x022a5, 0x022a5), (0x022bf, 0x022bf), (0x02312, 0x02312), (0x02460, 0x024e9),
     (0x024eb, 0x0254b), (0x02550, 0x02573), (0x02580, 0x0258f), (0x02592, 0x02595),
     (0x025a0, 0x025a1), (0x025a3, 0x025a9), (0x025b2, 0x025b3), (0x025b6, 0x025b7),
     (0x025bc, 0x025bd), (0x025c0, 0x025c1), (0x025c6, 0x025c8), (0x025cb, 0x025cb),
     (0x025ce, 0x025d1), (0x025e2, 0x025e5), (0x025ef, 0x025ef), (0x02605, 0x02606),
     (0x02609, 0x02609), (0x0260e, 0x0260f), (0x0261c, 0x0261c), (0x0261e, 0x0261e),
     (0x02640, 0x02640), (0x02642, 0x02642), (0x02660, 0x02661), (0x02663, 0x02665),
     (0x02667, 0x0266a), (0x0266c, 0x0266d), (0x0266f, 0x0266f), (0x0269e, 0x0269f),
     (0x026bf, 0x026bf), (0x026c6, 0x026cd), (0x026cf, 0x026d3), (0x026d5, 0x026e1),
     (0x026e3, 0x026e3), (0x026e8, 0x026e9), (0x026eb, 0x026f1), (0x026f4, 0x026f4),
     (0x026f6, 0x026f9), (0x026fb, 0x026fc), (0x026fe, 0x026ff), (0x0273d, 0x0273d),
     (0x02776, 0x0277f), (0x02b56, 0x02b59), (0x03248, 0x0324f), (0x0e000, 0x0f8ff),
     (0x0fe00, 0x0fe0f), (0x0fffd, 0x0fffd), (0x1f100, 0x1f10a), (0x1f110, 0x1f12d),
     (0x1f130, 0x1f169), (0x1f170, 0x1f18d), (0x1f18f, 0x1f190), (0x1f19b, 0x1f1ac),
     (0xe0100, 0xe01ef), (0xf0000, 0xffffd), (0x100000, 0x10fffd)]"

definition cp_rendered_width :: "u32 \<Rightarrow> nat c_result" where
  "cp_rendered_width c =
     (if c \<ge> 0x20 \<and> c \<le> 0x7e then Inr 1
      else c_bind (search_table c ucd_wide) (\<lambda>wide.
        if wide then Inr 2
        else c_bind (search_table c ucd_ambiguous) (\<lambda>ambiguous.
          if ambiguous then Inr 2 else Inr 1)))"

subsection \<open>Codepoints\<close>

definition utf8_to_utf32 :: "byte list \<Rightarrow> nat \<Rightarrow> nat \<Rightarrow> u32 c_result" where
  "utf8_to_utf32 s pos cp_size =
     (if cp_size = 1 then c_bind (mem_at s pos) (\<lambda>c0. Inr (ucast c0))
      else if cp_size = 2 then
        c_bind (mem_at s pos) (\<lambda>c0. c_bind (mem_at s (pos + 1)) (\<lambda>c1.
        Inr (push_bit 6 (ucast (c0 AND 0x1f)) OR ucast (c1 AND 0x3f))))
      else if cp_size = 3 then
        c_bind (mem_at s pos) (\<lambda>c0. c_bind (mem_at s (pos + 1)) (\<lambda>c1. c_bind (mem_at s (pos + 2)) (\<lambda>c2.
        Inr (push_bit 12 (ucast (c0 AND 0x0f)) OR push_bit 6 (ucast (c1 AND 0x3f)) OR ucast (c2 AND 0x3f)))))
      else if cp_size = 4 then
        c_bind (mem_at s pos) (\<lambda>c0. c_bind (mem_at s (pos + 1)) (\<lambda>c1. c_bind (mem_at s (pos + 2)) (\<lambda>c2.
        c_bind (mem_at s (pos + 3)) (\<lambda>c3.
        Inr (push_bit 18 (ucast (c0 AND 0x07)) OR push_bit 12 (ucast (c1 AND 0x3f)) OR
             push_bit 6 (ucast (c2 AND 0x3f)) OR ucast (c3 AND 0x3f))))))
      else Inr 0)"

definition codepoint_width :: "byte list \<Rightarrow> nat \<Rightarrow> nat \<Rightarrow> nat c_result" where
  "codepoint_width s pos len = c_bind (utf8_to_utf32 s pos len) cp_rendered_width"

text \<open>The loop of \<^verbatim>\<open>prev_codepoint\<close>: the new position and \<^verbatim>\<open>cp_bytes\<close>.\<close>

fun prev_loop :: "byte list \<Rightarrow> nat \<Rightarrow> nat \<Rightarrow> (nat \<times> nat) c_result" where
  "prev_loop s 0 cp_bytes = Inl OutOfBounds"
| "prev_loop s (Suc pos) cp_bytes =
     c_bind (mem_at s pos) (\<lambda>b.
       if b AND 0x80 \<noteq> 0 \<and> b AND 0xc0 = 0x80 then prev_loop s pos (cp_bytes + 1)
       else Inr (pos, cp_bytes + 1))"

text \<open>Position, \<^verbatim>\<open>cp_size\<close> and \<^verbatim>\<open>cp_len\<close>; the width is looked up only when it is asked for.\<close>

definition prev_codepoint :: "byte list \<Rightarrow> nat \<Rightarrow> bool \<Rightarrow> (nat \<times> nat \<times> nat option) c_result" where
  "prev_codepoint str pos want_len =
     c_bind (prev_loop str pos 0) (\<lambda>(s, cp_bytes).
       if want_len then c_bind (codepoint_width str s cp_bytes) (\<lambda>cp_len. Inr (s, cp_bytes, Some cp_len))
       else Inr (s, cp_bytes, None))"

definition lead_size :: "byte \<Rightarrow> nat" where
  "lead_size b =
     (if b AND 0xf8 = 0xf0 then 4 else if b AND 0xf0 = 0xe0 then 3 else if b AND 0xe0 = 0xc0 then 2 else 1)"

definition next_codepoint :: "byte list \<Rightarrow> nat \<Rightarrow> bool \<Rightarrow> (nat \<times> nat \<times> nat option) c_result" where
  "next_codepoint str pos want_len =
     c_bind (mem_at str pos) (\<lambda>b.
       let cp_bytes = lead_size b
       in if want_len
          then c_bind (codepoint_width str pos cp_bytes) (\<lambda>cp_len. Inr (pos + cp_bytes, cp_bytes, Some cp_len))
          else Inr (pos + cp_bytes, cp_bytes, None))"

subsection \<open>Rendered length\<close>

function utf8_strnlen_loop :: "byte list \<Rightarrow> nat \<Rightarrow> nat \<Rightarrow> nat \<Rightarrow> (nat \<times> nat) c_result" where
  "utf8_strnlen_loop s len pos n =
     (if pos < len
      then c_bind (mem_at s pos) (\<lambda>b.
             if b \<noteq> 0 then utf8_strnlen_loop s len (pos + lead_size b) (n + 1) else Inr (pos, n))
      else Inr (pos, n))"
  by auto
termination
  by (relation "measure (\<lambda>(s, len, pos, n). len - pos)") (auto simp: lead_size_def)

declare utf8_strnlen_loop.simps [simp del]

definition utf8_strnlen :: "byte list \<Rightarrow> nat \<Rightarrow> nat c_result" where
  "utf8_strnlen str len =
     c_bind (utf8_strnlen_loop str len 0 0) (\<lambda>(pos, n).
       Inr (if pos > len then (n + (2 ^ 64 - 1)) mod 2 ^ 64 else n))"

text \<open>The inner loop that runs to the \<^verbatim>\<open>m\<close> ending an escape sequence.\<close>

function skip_escape :: "byte list \<Rightarrow> nat \<Rightarrow> nat c_result" where
  "skip_escape str i =
     (if i < length str then if str ! i \<noteq> of_char (CHR ''m'') then skip_escape str (i + 1) else Inr i
      else Inl OutOfBounds)"
  by auto
termination by (relation "measure (\<lambda>(str, i). length str - i)") auto

declare skip_escape.simps [simp del]

lemma skip_escape_le: "skip_escape str i = Inr j \<Longrightarrow> i \<le> j"
  by (induction str i rule: skip_escape.induct) (subst (asm) (2) skip_escape.simps, force split: if_splits)

text \<open>The copying loop at index \<open>i\<close> with what has been copied so far, into a buffer of \<open>cap\<close>
  bytes.\<close>

function strip_loop :: "byte list \<Rightarrow> nat \<Rightarrow> nat \<Rightarrow> byte list \<Rightarrow> byte list c_result" where
  "strip_loop str cap i stripped =
     (if length str \<le> i then Inl OutOfBounds
      else if str ! i = 0 then Inr stripped
      else case (if str ! i = 27 then (case skip_escape str i of Inl e \<Rightarrow> Inl e | Inr j \<Rightarrow> Inr (j + 1)) else Inr i) of
             Inl e \<Rightarrow> Inl e
           | Inr j \<Rightarrow>
               if length str \<le> j then Inl OutOfBounds
               else if str ! j = 0 then Inr stripped
               else if cap \<le> length stripped then Inl OutOfBounds
               else strip_loop str cap (j + 1) (stripped @ [str ! j]))"
  by auto
termination
  by (relation "measure (\<lambda>(str, cap, i, stripped). length str - i)")
    (auto dest: skip_escape_le split: if_splits sum.splits)

declare strip_loop.simps [simp del]

definition utf8_rendered_length :: "byte list \<Rightarrow> nat c_result" where
  "utf8_rendered_length str =
     (let cap = strlen str
      in c_bind (strip_loop str cap 0 []) (\<lambda>stripped.
         utf8_strnlen (stripped @ replicate (cap - length stripped) 0) (length stripped)))"


subsection \<open>Binary search\<close>

definition in_range :: "u32 \<Rightarrow> codepoint_range_t \<Rightarrow> bool" where
  "in_range c r \<longleftrightarrow> fst r \<le> c \<and> c \<le> snd r"

fun sorted_table :: "codepoint_range_t list \<Rightarrow> bool" where
  "sorted_table [] = True"
| "sorted_table [(a, b)] = (a \<le> b)"
| "sorted_table ((a, b) # (a', b') # rs) = (a \<le> b \<and> b < a' \<and> sorted_table ((a', b') # rs))"

lemma sorted_table_range: "sorted_table table \<Longrightarrow> i < length table \<Longrightarrow> fst (table ! i) \<le> snd (table ! i)"
proof (induction table arbitrary: i rule: sorted_table.induct)
  case (3 a b a' b' rs)
  then show ?case by (cases i) auto
qed simp_all

lemma sorted_table_less: "sorted_table table \<Longrightarrow> i < j \<Longrightarrow> j < length table \<Longrightarrow> snd (table ! i) < fst (table ! j)"
proof (induction table arbitrary: i j rule: sorted_table.induct)
  case (3 a b a' b' rs)
  then obtain k where j: "j = Suc k" by (cases j) auto
  show ?case
  proof (cases i)
    case 0
    have "a' \<le> b'" using sorted_table_range[of "(a', b') # rs" 0] 3 by simp
    show ?thesis
    proof (cases k)
      case (Suc l)
      have "b' < fst (rs ! l)" using "3.IH"[of 0 k] 3 j Suc by simp
      then have "b < fst (rs ! l)"
        using order.strict_trans[OF _ order.strict_trans1[OF \<open>a' \<le> b'\<close>]] "3.prems"(1) by simp
      then show ?thesis using 0 j Suc by simp
    qed (use 0 3 j in simp)
  next
    case (Suc l)
    then show ?thesis using 3 j by simp
  qed
qed simp_all

lemma bex_nth: "(\<exists>r \<in> set table. P r) \<longleftrightarrow> (\<exists>i < length table. P (table ! i))"
  by (metis in_set_conv_nth)

lemma search_loop_finds:
  assumes "sorted_table table" "table \<noteq> []" "length table \<le> 2 ^ 63" "\<not> c < fst (table ! 0)"
    and "lower \<le> upper + 1" "upper < length table"
    and "\<And>i. i < lower \<Longrightarrow> snd (table ! i) < c" "\<And>i. upper < i \<Longrightarrow> i < length table \<Longrightarrow> c < fst (table ! i)"
  shows "search_loop c table upper lower = Some (Inr (\<exists>r \<in> set table. in_range c r))"
  using assms(5-8)
proof (induction "upper + 1 - lower" arbitrary: upper lower rule: less_induct)
  case less
  note bounds = less.prems(1,2) and below = less.prems(3) and above = less.prems(4)
  show ?case
  proof (cases "lower \<le> upper")
    case False
    have "\<not> in_range c (table ! i)" if "i < length table" for i
    proof (cases "i < lower")
      case True
      then show ?thesis using below[OF True] by (auto simp: in_range_def)
    next
      case False
      then have "upper < i" using \<open>\<not> lower \<le> upper\<close> by simp
      then show ?thesis using above[of i] that by (auto simp: in_range_def)
    qed
    then show ?thesis using False by (subst search_loop.simps) (auto simp: bex_nth)
  next
    case True
    define avg where "avg = (lower + upper) div 2"
    have avg: "(lower + upper) mod 2 ^ 64 div 2 = avg" "lower \<le> avg" "avg \<le> upper" "avg < length table"
      using True bounds assms(3) by (auto simp: avg_def)
    consider (right) "snd (table ! avg) < c" | (left) "\<not> snd (table ! avg) < c" "c < fst (table ! avg)"
      | (hit) "in_range c (table ! avg)" unfolding in_range_def by (meson not_less)
    then show ?thesis
    proof cases
      case right
      have "snd (table ! i) < c" if "i < avg + 1" for i
        using that right sorted_table_less[OF assms(1), of i avg] sorted_table_range[OF assms(1) avg(4)] avg(4)
        by (cases "i = avg") auto
      then have "search_loop c table upper (avg + 1) = Some (Inr (\<exists>r \<in> set table. in_range c r))"
        using less(1)[of upper "avg + 1"] avg bounds above by simp
      moreover have "(avg + 1) mod 2 ^ 64 = avg + 1" using avg(4) assms(3) by simp
      ultimately show ?thesis using True avg right by (subst search_loop.simps) (simp add: Let_def)
    next
      case left
      then have pos: "0 < avg" using assms(4) by (cases avg) auto
      have "c < fst (table ! i)" if "avg - 1 < i" "i < length table" for i
      proof (cases "i = avg")
        case True
        then show ?thesis using left(2) by simp
      next
        case False
        then have "avg < i" using that pos by simp
        then show ?thesis
          using left(2) sorted_table_less[OF assms(1) _ that(2)] sorted_table_range[OF assms(1) avg(4)] by fastforce
      qed
      then have "search_loop c table (avg - 1) lower = Some (Inr (\<exists>r \<in> set table. in_range c r))"
        using less(1)[of "avg - 1" lower] avg bounds below pos True by simp
      moreover have "(avg + (2 ^ 64 - 1)) mod 2 ^ 64 = avg - 1"
        using avg(4) assms(3) pos by (cases avg) (simp_all add: mod_add_self2[of _ "2 ^ 64 :: nat", symmetric] del: mod_add_self2)
      ultimately show ?thesis using True avg left by (subst search_loop.simps) (simp add: Let_def)
    next
      case hit
      then show ?thesis
        using True avg nth_mem[OF avg(4)] by (subst search_loop.simps) (auto simp: Let_def in_range_def)
    qed
  qed
qed

lemma search_table_finds:
  assumes "sorted_table table" "table \<noteq> []" "length table \<le> 2 ^ 63"
  shows "search_table c table = Inr (\<exists>r \<in> set table. in_range c r)"
proof -
  let ?n = "length table - 1"
  have n: "?n < length table" "0 < length table" using assms(2) by simp_all
  consider "c < fst (table ! 0)" | "snd (table ! ?n) < c" | "\<not> c < fst (table ! 0)" "\<not> snd (table ! ?n) < c" by blast
  then show ?thesis
  proof cases
    case 1
    have "\<not> in_range c (table ! i)" if "i < length table" for i
      using 1 that sorted_table_less[OF assms(1), of 0 i] sorted_table_range[OF assms(1), of 0]
      by (cases i) (fastforce simp: in_range_def)+
    then show ?thesis using 1 n by (auto simp: search_table_def bex_nth)
  next
    case 2
    have "\<not> in_range c (table ! i)" if "i < length table" for i
    proof (cases "i = ?n")
      case False
      then have "snd (table ! i) < fst (table ! ?n)" using that sorted_table_less[OF assms(1), of i ?n] n by simp
      then show ?thesis using 2 sorted_table_range[OF assms(1) n(1)] by (fastforce simp: in_range_def)
    qed (use 2 in \<open>auto simp: in_range_def\<close>)
    then show ?thesis using 2 n by (auto simp: search_table_def bex_nth)
  next
    case 3
    then show ?thesis
      using search_loop_finds[OF assms 3(1), of 0 ?n] n by (simp add: search_table_def)
  qed
qed

lemma sorted_tables: "sorted_table ucd_wide" "sorted_table ucd_ambiguous"
  "length ucd_wide = 121" "length ucd_ambiguous = 179"
  by (simp_all add: ucd_wide_def ucd_ambiguous_def)


subsection \<open>The encoding\<close>

definition cont :: "u32 \<Rightarrow> byte" where
  "cont c = 0x80 OR (ucast c AND 0x3f)"

definition utf8_encode :: "u32 \<Rightarrow> byte list" where
  "utf8_encode c =
     (if c < 0x80 then [ucast c]
      else if c < 0x800 then [0xc0 OR (ucast (drop_bit 6 c) AND 0x1f), cont c]
      else if c < 0x10000 then [0xe0 OR (ucast (drop_bit 12 c) AND 0x0f), cont (drop_bit 6 c), cont c]
      else [0xf0 OR (ucast (drop_bit 18 c) AND 0x07), cont (drop_bit 12 c), cont (drop_bit 6 c), cont c])"

lemma masks: "0x3f = (mask 6 :: byte)" "0x1f = (mask 5 :: byte)" "0x0f = (mask 4 :: byte)" "0x07 = (mask 3 :: byte)"
  by (simp_all add: mask_eq_exp_minus_1)

lemma cont_masks: "cont c AND 0x80 \<noteq> 0" "cont c AND 0xc0 = 0x80" "cont c AND 0x3f = ucast c AND 0x3f"
  by (simp_all add: cont_def bit.conj_disj_distrib2 and.assoc)

lemma lead_masks:
  fixes x :: byte
  shows "(0xc0 OR (x AND 0x1f)) AND 0x1f = x AND 0x1f" "(0xe0 OR (x AND 0x0f)) AND 0x0f = x AND 0x0f"
    "(0xf0 OR (x AND 0x07)) AND 0x07 = x AND 0x07"
    "lead_size (0xc0 OR (x AND 0x1f)) = 2" "lead_size (0xe0 OR (x AND 0x0f)) = 3" "lead_size (0xf0 OR (x AND 0x07)) = 4"
proof -
  have ne: "y AND m \<noteq> z AND m \<Longrightarrow> y \<noteq> z" for y z m :: byte by auto
  have "192 OR x AND 16 \<noteq> 224" "192 OR x AND 24 \<noteq> 240" by (rule ne[of _ 32], simp add: bit.conj_disj_distrib2 and.assoc)+
  moreover have "224 OR x AND 8 \<noteq> 240" by (rule ne[of _ 16]) (simp add: bit.conj_disj_distrib2 and.assoc)
  ultimately show "(0xc0 OR (x AND 0x1f)) AND 0x1f = x AND 0x1f" "(0xe0 OR (x AND 0x0f)) AND 0x0f = x AND 0x0f"
    "(0xf0 OR (x AND 0x07)) AND 0x07 = x AND 0x07"
    "lead_size (0xc0 OR (x AND 0x1f)) = 2" "lead_size (0xe0 OR (x AND 0x0f)) = 3" "lead_size (0xf0 OR (x AND 0x07)) = 4"
    by (simp_all add: bit.conj_disj_distrib2 and.assoc lead_size_def)
qed

lemma below_exp_bit:
  fixes c :: u32
  assumes "c < 2 ^ k" "bit c n"
  shows "n < k"
  using arg_cong[OF less_mask_eq[OF assms(1)], of "\<lambda>x. bit x n"] assms(2) by (simp add: bit_simps)

lemma decode_bits:
  fixes c :: u32
  shows "c < 0x800 \<Longrightarrow> push_bit 6 (ucast (ucast (drop_bit 6 c) AND 0x1f :: byte)) OR ucast (ucast c AND 0x3f :: byte) = c"
    "c < 0x10000 \<Longrightarrow> push_bit 12 (ucast (ucast (drop_bit 12 c) AND 0x0f :: byte)) OR
       push_bit 6 (ucast (ucast (drop_bit 6 c) AND 0x3f :: byte)) OR ucast (ucast c AND 0x3f :: byte) = c"
    "c < 0x200000 \<Longrightarrow> push_bit 18 (ucast (ucast (drop_bit 18 c) AND 0x07 :: byte)) OR
       push_bit 12 (ucast (ucast (drop_bit 12 c) AND 0x3f :: byte)) OR
       push_bit 6 (ucast (ucast (drop_bit 6 c) AND 0x3f :: byte)) OR ucast (ucast c AND 0x3f :: byte) = c"
  unfolding masks
proof -
  show "push_bit 6 (ucast (ucast (drop_bit 6 c) AND mask 5 :: byte)) OR ucast (ucast c AND mask 6 :: byte) = c" if "c < 0x800"
  proof (rule bit_word_eqI)
    fix n assume "n < LENGTH(32)"
    then show "bit (push_bit 6 (ucast (ucast (drop_bit 6 c) AND mask 5 :: byte)) OR ucast (ucast c AND mask 6 :: byte) :: u32) n = bit c n"
      using below_exp_bit[of c 11 n] that by (cases "n < 6"; cases "bit c n"; auto simp: bit_simps)
  qed
  show "push_bit 12 (ucast (ucast (drop_bit 12 c) AND mask 4 :: byte)) OR
      push_bit 6 (ucast (ucast (drop_bit 6 c) AND mask 6 :: byte)) OR ucast (ucast c AND mask 6 :: byte) = c" if "c < 0x10000"
  proof (rule bit_word_eqI)
    fix n assume "n < LENGTH(32)"
    then show "bit (push_bit 12 (ucast (ucast (drop_bit 12 c) AND mask 4 :: byte)) OR
      push_bit 6 (ucast (ucast (drop_bit 6 c) AND mask 6 :: byte)) OR ucast (ucast c AND mask 6 :: byte) :: u32) n = bit c n"
      using below_exp_bit[of c 16 n] that by (cases "n < 6"; cases "n < 12"; cases "bit c n"; auto simp: bit_simps)
  qed
  show "push_bit 18 (ucast (ucast (drop_bit 18 c) AND mask 3 :: byte)) OR
      push_bit 12 (ucast (ucast (drop_bit 12 c) AND mask 6 :: byte)) OR
      push_bit 6 (ucast (ucast (drop_bit 6 c) AND mask 6 :: byte)) OR ucast (ucast c AND mask 6 :: byte) = c" if "c < 0x200000"
  proof (rule bit_word_eqI)
    fix n assume "n < LENGTH(32)"
    then show "bit (push_bit 18 (ucast (ucast (drop_bit 18 c) AND mask 3 :: byte)) OR
      push_bit 12 (ucast (ucast (drop_bit 12 c) AND mask 6 :: byte)) OR
      push_bit 6 (ucast (ucast (drop_bit 6 c) AND mask 6 :: byte)) OR ucast (ucast c AND mask 6 :: byte) :: u32) n = bit c n"
      using below_exp_bit[of c 21 n] that
      by (cases "n < 6"; cases "n < 12"; cases "n < 18"; cases "bit c n"; auto simp: bit_simps)
  qed
qed


lemma ascii_byte:
  fixes c :: u32
  assumes "c < 0x80"
  shows "(ucast c :: byte) AND 0x80 = 0" "ucast (ucast c :: byte) = c"
proof -
  show "ucast (ucast c :: byte) = c"
  proof (rule bit_word_eqI)
    fix n assume "n < LENGTH(32)"
    then show "bit (ucast (ucast c :: byte) :: u32) n = bit c n"
      using below_exp_bit[of c 7 n] assms by (auto simp: bit_simps)
  qed
  show "(ucast c :: byte) AND 0x80 = 0"
  proof (rule bit_word_eqI)
    fix n assume "n < LENGTH(8)"
    have "bit (0x80 :: byte) n \<longleftrightarrow> n = 7" using bit_exp_iff[of 7 n, where 'a = byte] by auto
    then show "bit ((ucast c :: byte) AND 0x80) n = bit (0 :: byte) n"
      using below_exp_bit[of c 7 n] assms by (auto simp: bit_simps)
  qed
qed

lemma ascii_masks:
  fixes b :: byte
  assumes "b AND 0x80 = 0"
  shows "lead_size b = 1"
proof -
  have "(b AND m) AND 0x80 = (b AND 0x80) AND m" for m by (simp only: ac_simps)
  then have "b AND m \<noteq> k" if "k AND 0x80 \<noteq> 0" for m k using that assms by auto
  then show ?thesis by (simp add: lead_size_def)
qed

lemma lead_size_encode: "lead_size (hd (utf8_encode c)) = length (utf8_encode c)" "utf8_encode c \<noteq> []"
  using ascii_masks[OF ascii_byte(1)] by (auto simp: utf8_encode_def lead_masks)

lemma decode_encode:
  assumes "c < 0x110000"
  shows "utf8_to_utf32 (pre @ utf8_encode c @ rest) (length pre) (length (utf8_encode c)) = Inr c"
proof -
  have "c < 0x200000" using assms by (rule order.strict_trans) simp
  then show ?thesis
    by (simp add: utf8_encode_def utf8_to_utf32_def nth_append cont_masks lead_masks decode_bits ascii_byte(2))
qed

definition continuation :: "byte \<Rightarrow> bool" where
  "continuation b \<longleftrightarrow> b AND 0x80 \<noteq> 0 \<and> b AND 0xc0 = 0x80"

lemma prev_loop_back:
  assumes "\<not> continuation b" "list_all continuation bs"
  shows "prev_loop (pre @ b # bs @ rest) (length pre + 1 + length bs) k = Inr (length pre, k + 1 + length bs)"
  using assms(2)
proof (induction bs arbitrary: rest k rule: rev_induct)
  case Nil
  then show ?case using assms(1) by (auto simp: continuation_def)
next
  case (snoc x bs)
  have "(pre @ b # (bs @ [x]) @ rest) ! (length pre + 1 + length bs) = x" by (simp add: nth_append)
  then show ?case using snoc.IH[of "x # rest" "k + 1"] snoc.prems by (simp add: continuation_def)
qed

lemma encode_shape: "\<exists>b bs. utf8_encode c = b # bs \<and> \<not> continuation b \<and> list_all continuation bs"
proof -
  have "\<not> continuation b" if "b AND 0x80 = 0 \<or> b AND 0x40 \<noteq> 0" for b
  proof
    assume h: "continuation b"
    then have "(b AND 0xc0) AND 0x40 = 0x80 AND 0x40" by (simp add: continuation_def)
    then have "b AND 0x40 = 0" by (simp add: and.assoc)
    with h that show False by (simp add: continuation_def)
  qed
  moreover have "(0xc0 OR (x AND 0x1f)) AND 0x40 \<noteq> 0" "(0xe0 OR (x AND 0x0f)) AND 0x40 \<noteq> 0" "(0xf0 OR (x AND 0x07)) AND 0x40 \<noteq> 0"
    for x :: byte by (simp_all add: bit.conj_disj_distrib2 and.assoc)
  moreover have "continuation (cont x)" for x by (simp add: continuation_def cont_masks)
  ultimately show ?thesis using ascii_byte(1)[of c] by (simp add: utf8_encode_def)
qed

lemma prev_loop_encode:
  "prev_loop (pre @ utf8_encode c @ rest) (length pre + length (utf8_encode c)) 0 =
     Inr (length pre, length (utf8_encode c))"
  using encode_shape[of c] prev_loop_back[of _ _ pre rest 0] by fastforce

lemma encode_bytes:
  assumes "c \<noteq> 0" "c \<noteq> 27"
  shows "0 \<notin> set (utf8_encode c)" "27 \<notin> set (utf8_encode c)"
proof -
  have "x \<noteq> 0 \<and> x \<noteq> 27" if "x AND 0x80 \<noteq> 0" for x :: byte using that by auto
  moreover have "(0xc0 OR (x AND 0x1f)) AND 0x80 \<noteq> 0" "(0xe0 OR (x AND 0x0f)) AND 0x80 \<noteq> 0" "(0xf0 OR (x AND 0x07)) AND 0x80 \<noteq> 0"
    for x :: byte by (simp_all add: bit.conj_disj_distrib2 and.assoc)
  moreover have "(ucast c :: byte) \<noteq> 0 \<and> (ucast c :: byte) \<noteq> 27" if "c < 0x80"
    using assms ascii_byte(2)[OF that] by auto
  ultimately show "0 \<notin> set (utf8_encode c)" "27 \<notin> set (utf8_encode c)"
    using cont_masks(1) by (auto simp: utf8_encode_def)
qed

subsection \<open>Text\<close>

lemma strip_loop_copies:
  assumes "0 \<notin> set xs" "27 \<notin> set xs" "i \<le> length xs"
  shows "strip_loop (xs @ 0 # rest) (length xs) i (take i xs) = Inr xs"
  using assms(3)
proof (induction "length xs - i" arbitrary: i)
  case 0
  then show ?case by (subst strip_loop.simps) (simp add: nth_append)
next
  case (Suc d)
  then have i: "i < length xs" by simp
  then have "xs ! i \<noteq> 0" "xs ! i \<noteq> 27" using assms(1,2) by (metis nth_mem)+
  moreover have "strip_loop (xs @ 0 # rest) (length xs) (i + 1) (take i xs @ [xs ! i]) = Inr xs"
    using Suc(1)[of "i + 1"] Suc(2) i by (simp add: take_Suc_conv_app_nth)
  ultimately show ?case using i by (subst strip_loop.simps) (simp add: nth_append)
qed

lemma utf8_strnlen_codepoints:
  assumes "0 \<notin> set cps" "27 \<notin> set cps"
  shows "utf8_strnlen_loop (pre @ concat (map utf8_encode cps)) (length pre + length (concat (map utf8_encode cps))) (length pre) n =
     Inr (length pre + length (concat (map utf8_encode cps)), n + length cps)"
  using assms
proof (induction cps arbitrary: pre n)
  case Nil
  then show ?case by (subst utf8_strnlen_loop.simps) simp
next
  case (Cons c cps)
  let ?e = "utf8_encode c"
  obtain b bs where e: "?e = b # bs" using lead_size_encode(2)[of c] by (cases ?e) auto
  have "b \<noteq> 0" using encode_bytes(1)[of c] Cons.prems e by auto
  moreover have "lead_size b = length ?e" using lead_size_encode(1)[of c] e by simp
  ultimately show ?case
    using Cons.IH[of "pre @ ?e" "n + 1"] Cons.prems
    by (subst utf8_strnlen_loop.simps) (simp add: e nth_append add.assoc)
qed


lemma cp_rendered_width_total:
  "cp_rendered_width c = Inr (if \<exists>r \<in> set (ucd_wide @ ucd_ambiguous). in_range c r then 2 else 1)"
proof -
  have s: "search_table c ucd_wide = Inr (\<exists>r \<in> set ucd_wide. in_range c r)"
    "search_table c ucd_ambiguous = Inr (\<exists>r \<in> set ucd_ambiguous. in_range c r)"
    by (rule search_table_finds; use sorted_tables in force)+
  show ?thesis
  proof (cases "c \<ge> 0x20 \<and> c \<le> 0x7e")
    case True
    have "ucd_wide ! 0 = (0x01100, 0x0115f)" "ucd_ambiguous ! 0 = (0x000a1, 0x000a1)"
      by (simp_all add: ucd_wide_def ucd_ambiguous_def)
    moreover have "c < 0x01100" "c < 0x000a1" using True by (auto intro: order.strict_trans1)
    ultimately have "search_table c ucd_wide = Inr False" "search_table c ucd_ambiguous = Inr False"
      using sorted_tables by (simp_all add: search_table_def)
    with s True show ?thesis by (auto simp: cp_rendered_width_def)
  next
    case False
    with s show ?thesis by (auto simp: cp_rendered_width_def)
  qed
qed

subsection \<open>Properties\<close>

text \<open>C39: the binary search of \<^verbatim>\<open>search_table\<close> ends without leaving the table for every
  character, and \<^verbatim>\<open>cp_rendered_width\<close> is 2 exactly for the characters in a range of the
  wide or the ambiguous table.\<close>

theorem cp_rendered_width_is_lookup:
  "cp_rendered_width c = Inr (if list_ex (in_range c) (ucd_wide @ ucd_ambiguous) then 2 else 1)"
  unfolding cp_rendered_width_total list_ex_iff ..

text \<open>On the RFC 3629 encoding of a character, \<^verbatim>\<open>next_codepoint\<close> steps over it and
  \<^verbatim>\<open>prev_codepoint\<close> steps back, both with its size in bytes and the width of exactly
  that character, whatever surrounds it.\<close>

lemma codepoint_steps:
  assumes "c < 0x110000"
  shows "\<exists>width. cp_rendered_width c = Inr width \<and>
     next_codepoint (pre @ utf8_encode c @ rest) (length pre) True =
       Inr (length pre + length (utf8_encode c), length (utf8_encode c), Some width) \<and>
     prev_codepoint (pre @ utf8_encode c @ rest) (length pre + length (utf8_encode c)) True =
       Inr (length pre, length (utf8_encode c), Some width)"
proof -
  obtain width where w: "cp_rendered_width c = Inr width" using cp_rendered_width_total by blast
  have "codepoint_width (pre @ utf8_encode c @ rest) (length pre) (length (utf8_encode c)) = Inr width"
    using decode_encode[OF assms] w by (simp add: codepoint_width_def)
  moreover have "mem_at (pre @ utf8_encode c @ rest) (length pre) = Inr (hd (utf8_encode c))"
    using lead_size_encode(2)[of c] by (cases "utf8_encode c") simp_all
  ultimately show ?thesis
    using w by (simp add: next_codepoint_def prev_codepoint_def prev_loop_encode lead_size_encode(1) Let_def)
qed

text \<open>For text without control sequences \<^verbatim>\<open>utf8_rendered_length\<close> returns the number of
  its characters, whatever lies behind the terminator.\<close>

lemma utf8_rendered_length_counts:
  assumes "0 \<notin> set cps" "27 \<notin> set cps"
  shows "utf8_rendered_length (concat (map utf8_encode cps) @ 0 # rest) = Inr (length cps)"
proof -
  let ?xs = "concat (map utf8_encode cps)"
  have "0 \<notin> set (utf8_encode c) \<and> 27 \<notin> set (utf8_encode c)" if "c \<in> set cps" for c
    using encode_bytes[of c] assms that by blast
  then have xs: "0 \<notin> set ?xs" "27 \<notin> set ?xs" by auto
  then have "takeWhile (\<lambda>c. c \<noteq> 0) (?xs @ 0 # rest) = ?xs"
    by (subst takeWhile_append2) auto
  then have "strlen (?xs @ 0 # rest) = length ?xs" by (simp add: strlen_def)
  moreover have "strip_loop (?xs @ 0 # rest) (length ?xs) 0 [] = Inr ?xs" using strip_loop_copies[OF xs, of 0 rest] by simp
  moreover have "utf8_strnlen ?xs (length ?xs) = Inr (length cps)"
    using utf8_strnlen_codepoints[OF assms, of "[]" 0] by (simp add: utf8_strnlen_def)
  ultimately show ?thesis by (simp add: utf8_rendered_length_def)
qed

end
