(* ===== verification/Slice.thy ===== *)
theory Slice
  imports Cable
begin

text \<open>
  \<^verbatim>\<open>common/slice.c\<close>: byte buffers that either have a fixed capacity or grow. \<open>data\<close> is the
  memory behind the pointer (empty for \<^verbatim>\<open>NULL\<close>); \<^verbatim>\<open>size_t\<close> sums and products wrap at
  \<open>2 ^ 64\<close>, and a growth loop that never ends is the fault \<open>NonTermination\<close>.
\<close>

record slice_t =
  slice_data :: "byte list"
  slice_cap :: nat
  slice_len :: nat
  dynamic :: bool

definition STATIC_SLICE :: "byte list \<Rightarrow> slice_t" where
  "STATIC_SLICE mem = \<lparr>slice_data = mem, slice_cap = length mem, slice_len = 0, dynamic = False\<rparr>"

definition DYNAMIC_SLICE :: slice_t where
  "DYNAMIC_SLICE = \<lparr>slice_data = [], slice_cap = 0, slice_len = 0, dynamic = True\<rparr>"

definition slice_append_static :: "slice_t \<Rightarrow> byte list \<Rightarrow> nat \<Rightarrow> (bool \<times> slice_t) c_result" where
  "slice_append_static s src n =
     (if slice_cap s < (slice_len s + n) mod 2 ^ 64 then Inr (False, s)
      else c_bind (mem_read src 0 n) (\<lambda>bytes.
           c_bind (mem_store (slice_data s) (slice_len s) bytes) (\<lambda>mem.
           Inr (True, s\<lparr>slice_data := mem, slice_len := (slice_len s + n) mod 2 ^ 64\<rparr>))))"

partial_function (option) grow_cap :: "nat \<Rightarrow> nat \<Rightarrow> nat option" where
  "grow_cap cap need = (if cap < need then grow_cap (cap * 2 mod 2 ^ 64) need else Some cap)"

declare grow_cap.simps [code]

definition slice_append_dynamic :: "slice_t \<Rightarrow> byte list \<Rightarrow> nat \<Rightarrow> (bool \<times> slice_t) c_result" where
  "slice_append_dynamic s src n =
     c_bind (if slice_cap s < (slice_len s + n) mod 2 ^ 64
             then case grow_cap (if slice_cap s \<noteq> 0 then 2 * slice_cap s mod 2 ^ 64 else 16)
                         ((slice_len s + n) mod 2 ^ 64) of
                    None \<Rightarrow> Inl NonTermination
                  | Some cap \<Rightarrow> c_bind (xrealloc (slice_data s) cap) (\<lambda>mem.
                      Inr (s\<lparr>slice_cap := cap, slice_data := mem\<rparr>))
             else Inr s) (\<lambda>s.
     c_bind (mem_read src 0 n) (\<lambda>bytes.
     c_bind (mem_store (slice_data s) (slice_len s) bytes) (\<lambda>mem.
     Inr (True, s\<lparr>slice_data := mem, slice_len := (slice_len s + n) mod 2 ^ 64\<rparr>))))"

definition slice_append :: "slice_t \<Rightarrow> byte list \<Rightarrow> nat \<Rightarrow> (bool \<times> slice_t) c_result" where
  "slice_append s src n = (if dynamic s then slice_append_dynamic s src n else slice_append_static s src n)"

subsection \<open>Contents\<close>

definition slice_wf :: "slice_t \<Rightarrow> bool" where
  "slice_wf s \<longleftrightarrow> slice_len s \<le> slice_cap s \<and> length (slice_data s) = slice_cap s \<and> slice_cap s \<le> 2 ^ 62"

definition slice_bytes :: "slice_t \<Rightarrow> byte list" where
  "slice_bytes s = take (slice_len s) (slice_data s)"

lemma slices_wf:
  "length mem \<le> 2 ^ 62 \<Longrightarrow> slice_wf (STATIC_SLICE mem)" "slice_bytes (STATIC_SLICE mem) = []"
  "slice_wf DYNAMIC_SLICE" "slice_bytes DYNAMIC_SLICE = []"
  by (simp_all add: slice_wf_def slice_bytes_def STATIC_SLICE_def DYNAMIC_SLICE_def)

lemma grow_cap_enough:
  assumes "0 < cap" "need \<le> 2 ^ 61" "cap \<le> 2 ^ 62"
  shows "\<exists>cap'. grow_cap cap need = Some cap' \<and> need \<le> cap' \<and> cap \<le> cap' \<and> cap' \<le> 2 ^ 62"
  using assms
proof (induction "need - cap" arbitrary: cap rule: less_induct)
  case less
  show ?case
  proof (cases "cap < need")
    case True
    then have m: "cap * 2 mod 2 ^ 64 = cap * 2" using less.prems by simp
    obtain cap' where "grow_cap (cap * 2) need = Some cap'" "need \<le> cap'" "cap * 2 \<le> cap'" "cap' \<le> 2 ^ 62"
    proof -
      have "need - cap * 2 < need - cap" "0 < cap * 2" "cap * 2 \<le> 2 ^ 62" using True less.prems by auto
      from less.hyps[OF this(1,2) less.prems(2) this(3)] show ?thesis using that by blast
    qed
    then show ?thesis using True m by (subst grow_cap.simps) auto
  next
    case False
    then show ?thesis using less.prems by (subst grow_cap.simps) auto
  qed
qed

lemma store_bytes:
  assumes "slice_len s + n \<le> length (slice_data s)" "n \<le> length src" "slice_len s + n < 2 ^ 64"
  shows "c_bind (mem_read src 0 n) (\<lambda>bytes. c_bind (mem_store (slice_data s) (slice_len s) bytes) (\<lambda>mem.
       Inr (True, s\<lparr>slice_data := mem, slice_len := (slice_len s + n) mod 2 ^ 64\<rparr>))) =
     Inr (True, s\<lparr>slice_data := mem_write (slice_data s) (slice_len s) (take n src), slice_len := slice_len s + n\<rparr>)"
  using assms by simp

lemma append_bytes:
  assumes "slice_wf s" "slice_len s + n \<le> length mem" "n \<le> length src" "take (slice_len s) mem = slice_bytes s"
  shows "take (slice_len s + n) (mem_write mem (slice_len s) (take n src)) = slice_bytes s @ take n src"
proof -
  have "length (slice_bytes s) = slice_len s" using assms(1) by (simp add: slice_wf_def slice_bytes_def)
  then show ?thesis
    using assms(2-4) by (simp add: mem_write_def)
qed

subsection \<open>Properties\<close>

text \<open>Appending to a well-formed slice keeps it well-formed and never faults; a growing
  slice always takes the bytes, a fixed one exactly when they fit, and when it refuses
  it is unchanged.\<close>

lemma slice_append_appends:
  assumes "slice_wf s" "n \<le> length src" "slice_len s + n \<le> 2 ^ 61"
  shows "\<exists>ok s'. slice_append s src n = Inr (ok, s') \<and> slice_wf s' \<and> dynamic s' = dynamic s \<and>
     (ok \<longleftrightarrow> dynamic s \<or> slice_len s + n \<le> slice_cap s) \<and>
     (if ok then slice_bytes s' = slice_bytes s @ take n src else s' = s)"
proof -
  have m: "(slice_len s + n) mod 2 ^ 64 = slice_len s + n" using assms(3) by simp
  consider (fits) "slice_len s + n \<le> slice_cap s" | (full) "slice_cap s < slice_len s + n" "\<not> dynamic s"
    | (grow) "slice_cap s < slice_len s + n" "dynamic s" by linarith
  then show ?thesis
  proof cases
    case fits
    let ?s = "s\<lparr>slice_data := mem_write (slice_data s) (slice_len s) (take n src), slice_len := slice_len s + n\<rparr>"
    have "slice_append s src n = Inr (True, ?s)"
      using fits assms m store_bytes[of s n src]
      by (simp add: slice_append_def slice_append_static_def slice_append_dynamic_def slice_wf_def)
    moreover have "slice_wf ?s" using fits assms by (simp add: slice_wf_def)
    moreover have "slice_bytes ?s = slice_bytes s @ take n src"
      using append_bytes[OF assms(1), of n "slice_data s" src] fits assms by (simp add: slice_bytes_def slice_wf_def)
    ultimately show ?thesis using fits by auto
  next
    case full
    then show ?thesis using assms m by (intro exI[of _ False] exI[of _ s]) (simp add: slice_append_def slice_append_static_def)
  next
    case grow
    let ?c = "if slice_cap s \<noteq> 0 then 2 * slice_cap s mod 2 ^ 64 else 16"
    have "?c \<le> 2 ^ 62" "0 < ?c" "slice_cap s \<le> ?c" using assms grow(1) by (auto simp: slice_wf_def)
    then obtain cap where cap: "grow_cap ?c (slice_len s + n) = Some cap" "slice_len s + n \<le> cap" "slice_cap s \<le> cap" "cap \<le> 2 ^ 62"
      using grow_cap_enough[of ?c "slice_len s + n"] assms(3) by auto
    define mem where "mem = take cap (slice_data s) @ replicate (cap - length (slice_data s)) 0"
    have mem: "xrealloc (slice_data s) cap = Inr mem" using cap(2) grow(1) by (simp add: xrealloc_def mem_def)
    define s1 where "s1 = s\<lparr>slice_cap := cap, slice_data := mem\<rparr>"
    let ?s = "s1\<lparr>slice_data := mem_write (slice_data s1) (slice_len s1) (take n src), slice_len := slice_len s1 + n\<rparr>"
    have len: "length (slice_data s1) = cap" using cap(3) assms(1) by (simp add: s1_def mem_def slice_wf_def)
    have "slice_append s src n = Inr (True, ?s)"
      using grow m cap(1,2) assms(2,3) len store_bytes[of s1 n src]
      by (simp add: slice_append_def slice_append_dynamic_def s1_def mem)
    moreover have "slice_wf ?s" using len cap(2,4) assms(2) by (simp add: slice_wf_def s1_def)
    moreover have "slice_bytes ?s = slice_bytes s @ take n src"
      using append_bytes[OF assms(1), of n "slice_data s1" src] len cap(2,3) assms
      by (simp add: slice_bytes_def s1_def mem_def slice_wf_def)
    ultimately show ?thesis using grow by (auto simp: s1_def)
  qed
qed

end
