(* ===== verification/Utils.thy ===== *)
theory Utils
  imports Key_Exchange
begin

text \<open>
  The string, option and memory helpers of \<^verbatim>\<open>common/xutils.c\<close> and the address lookup
  that uses them. A C string is the memory it lies in, terminator included; \<open>c_str\<close> is
  the bytes before the terminator. \<^verbatim>\<open>char\<close> is signed, as on x86. Files, sockets and
  what they answer are parameters.
\<close>

definition c_str :: "byte list \<Rightarrow> byte list" where
  "c_str s = takeWhile (\<lambda>c. c \<noteq> 0) s"

subsection \<open>Strings\<close>

definition xstr_hash :: "byte list \<Rightarrow> u64" where
  "xstr_hash s =
     (let h = fold (\<lambda>i h. (h XOR scast (s ! i)) * 0x100000001b3) [0..<strlen s] 0xcbf29ce484222325
      in h XOR drop_bit 32 h)"

definition hash_colors :: "string list" where
  "hash_colors = map (\<lambda>c. CHR 0x1b # c @ ''m'')
     [''[0;31'', ''[0;32'', ''[0;33'', ''[0;34'', ''[0;35'', ''[0;36'',
      ''[1;31'', ''[1;32'', ''[1;33'', ''[1;34'', ''[1;35'', ''[1;36'']"

definition xhash_color :: "byte list \<Rightarrow> string" where
  "xhash_color s = (let hash = ucast (xstr_hash s) :: u32 in hash_colors ! (unat hash mod length hash_colors))"

definition xstrdup :: "byte list option \<Rightarrow> byte list option c_result" where
  "xstrdup str =
     (case str of
        None \<Rightarrow> Inr None
      | Some str \<Rightarrow> c_bind (mem_read str 0 (strlen str + 1)) (\<lambda>copy. Inr (Some copy)))"

text \<open>The second loop of \<^verbatim>\<open>_xstrcat\<close>: it copies each string behind the last.\<close>

fun xstrcat_loop :: "byte list \<Rightarrow> nat \<Rightarrow> byte list list \<Rightarrow> (byte list \<times> nat) c_result" where
  "xstrcat_loop s offset [] = Inr (s, offset)"
| "xstrcat_loop s offset (str # strs) =
     (let len = strlen str
      in c_bind (mem_read str 0 len) (\<lambda>bytes.
         c_bind (mem_store s offset bytes) (\<lambda>s. xstrcat_loop s (offset + len) strs)))"

definition xstrcat :: "byte list list \<Rightarrow> byte list c_result" where
  "xstrcat strs =
     (let len = 1 + sum_list (map strlen strs);
          s = replicate len 0
      in c_bind (xstrcat_loop s 0 strs) (\<lambda>(s, offset). mem_store s offset [0]))"

text \<open>\<^verbatim>\<open>strtol\<close> in base 10, as far as the decimal digits go; the result saturates.\<close>

definition is_digit :: "byte \<Rightarrow> bool" where
  "is_digit b \<longleftrightarrow> 0x30 \<le> b \<and> b \<le> 0x39"

definition strtol :: "byte list \<Rightarrow> int" where
  "strtol s =
     (let s = dropWhile (\<lambda>b. b = 0x20 \<or> 9 \<le> b \<and> b \<le> 13) (c_str s);
          neg = (s \<noteq> [] \<and> hd s = 0x2d);
          s = (if s \<noteq> [] \<and> (hd s = 0x2d \<or> hd s = 0x2b) then tl s else s);
          n = foldl (\<lambda>n b. 10 * n + (uint b - 48)) 0 (takeWhile is_digit s)
      in max (- (2 ^ 63)) (min (2 ^ 63 - 1) (if neg then - n else n)))"

text \<open>The second component is what is written through \<^verbatim>\<open>larg\<close> when it is not null.\<close>

definition xstrrange :: "byte list \<Rightarrow> int \<Rightarrow> int \<Rightarrow> bool \<times> int option" where
  "xstrrange arg lo hi =
     (let larg = strtol arg in if larg < lo \<or> larg > hi then (False, None) else (True, Some larg))"

subsection \<open>Options\<close>

record xgetopt_t =
  opt_index :: nat
  opt_position :: nat
  opt_option :: byte
  opt_arg :: "byte list option"

datatype getopt_result = GetoptDone | GetoptChar byte

text \<open>\<open>argv\<close> ends with a null pointer. \<open>opt_rest\<close> is \<^verbatim>\<open>optstr\<close> after the \<^verbatim>\<open>while\<close> loop.\<close>

definition opt_rest :: "byte list \<Rightarrow> byte \<Rightarrow> byte list" where
  "opt_rest optstr c = dropWhile (\<lambda>b. b \<noteq> 0 \<and> b \<noteq> c) optstr"

definition alphanumeric :: "byte \<Rightarrow> bool" where
  "alphanumeric b \<longleftrightarrow> 0x30 \<le> b \<and> b \<le> 0x39 \<or> 0x41 \<le> b \<and> b \<le> 0x5a \<or> 0x61 \<le> b \<and> b \<le> 0x7a"

definition xgetopt :: "xgetopt_t \<Rightarrow> nat \<Rightarrow> byte list option list \<Rightarrow> byte list \<Rightarrow> (getopt_result \<times> xgetopt_t) c_result" where
  "xgetopt ctx argc argv optstr =
     (let ctx = (if opt_index ctx = 0 then ctx\<lparr>opt_index := (if argc = 0 then 0 else 1)\<rparr> else ctx)
      in c_bind (mem_at argv (opt_index ctx)) (\<lambda>arg.
        case arg of
          None \<Rightarrow> Inr (GetoptDone, ctx)
        | Some arg \<Rightarrow>
            if take 3 arg = [0x2d, 0x2d, 0] then Inr (GetoptDone, ctx\<lparr>opt_index := opt_index ctx + 1\<rparr>)
            else c_bind (mem_at arg 0) (\<lambda>a0.
              if a0 \<noteq> 0x2d then Inr (GetoptDone, ctx)
              else c_bind (mem_at arg 1) (\<lambda>a1.
                if \<not> alphanumeric a1 then Inr (GetoptDone, ctx)
                else c_bind (mem_at arg (opt_position ctx + 1)) (\<lambda>c.
                  let rest = opt_rest optstr c;
                      ctx = ctx\<lparr>opt_option := c\<rparr>
                  in c_bind (mem_at rest 0) (\<lambda>r0.
                     if r0 = 0 then Inr (GetoptChar 0x3f, ctx)
                     else c_bind (mem_at rest 1) (\<lambda>r1.
                       if r1 = 0x3a then
                         c_bind (mem_at arg (opt_position ctx + 2)) (\<lambda>next.
                           if next \<noteq> 0 then
                             Inr (GetoptChar c, ctx\<lparr>opt_arg := Some (drop (opt_position ctx + 2) arg),
                                 opt_index := opt_index ctx + 1, opt_position := 0\<rparr>)
                           else c_bind (mem_at argv (opt_index ctx + 1)) (\<lambda>value.
                             case value of
                               Some value \<Rightarrow>
                                 Inr (GetoptChar c, ctx\<lparr>opt_arg := Some value, opt_index := opt_index ctx + 2,
                                     opt_position := 0\<rparr>)
                             | None \<Rightarrow> Inr (GetoptChar 0x3a, ctx)))
                       else
                         c_bind (mem_at arg (opt_position ctx + 2)) (\<lambda>next.
                           let ctx = ctx\<lparr>opt_position := opt_position ctx + 1\<rparr>
                           in if next = 0
                              then Inr (GetoptChar c, ctx\<lparr>opt_index := opt_index ctx + 1, opt_position := 0\<rparr>)
                              else Inr (GetoptChar c, ctx)))))))))"

subsection \<open>Paths and files\<close>

text \<open>The position \<^verbatim>\<open>xconstbasename\<close> returns: the loop runs back from the terminator.\<close>

fun basename_back :: "byte list \<Rightarrow> nat \<Rightarrow> nat" where
  "basename_back path 0 = 0"
| "basename_back path (Suc s) =
     (if path ! s \<noteq> 0x2f \<and> path ! s \<noteq> 0x5c then basename_back path s else Suc s)"

definition xconstbasename :: "byte list \<Rightarrow> byte list" where
  "xconstbasename path = drop (basename_back path (strlen path)) path"

text \<open>The loop of \<^verbatim>\<open>xbasename\<close> at position \<open>pos\<close>; below the start of the string it leaves the
  memory.\<close>

fun xbasename_loop :: "byte list \<Rightarrow> nat \<Rightarrow> nat c_result" where
  "xbasename_loop path pos =
     c_bind (mem_at path pos) (\<lambda>b.
       if b = 0x2f then Inr (pos + 1)
       else case pos of 0 \<Rightarrow> Inl OutOfBounds | Suc pos \<Rightarrow> xbasename_loop path pos)"

definition xbasename :: "byte list \<Rightarrow> byte list \<Rightarrow> (nat \<times> byte list) c_result" where
  "xbasename path filename =
     c_bind (xbasename_loop path (strnlen path 4096 + 1)) (\<lambda>base.
       let filename_length = strnlen (drop base path) 4096
       in c_bind (mem_store filename 0 (take filename_length (drop base path))) (\<lambda>filename.
          Inr (filename_length, filename)))"

text \<open>The argument is the contents of the file, \<open>None\<close> when it cannot be opened.\<close>

definition printable :: "byte \<Rightarrow> bool" where
  "printable c \<longleftrightarrow> c \<ge> 0x20 \<and> c \<le> 0x7e \<or> c = 9 \<or> c = 10 \<or> c = 13"

definition xfiletype :: "byte list option \<Rightarrow> bool" where
  "xfiletype file =
     (case file of
        None \<Rightarrow> False
      | Some contents \<Rightarrow>
          let data = take 8192 contents; len = length data
          in if len = 0 then False
             else if 0 \<in> set data then True
             else (100 * length (filter printable data)) div len < 70)"

subsection \<open>Memory\<close>

fun xmemchr :: "byte list \<Rightarrow> byte \<Rightarrow> nat \<Rightarrow> nat \<Rightarrow> nat option c_result" where
  "xmemchr mem c s 0 = Inr None"
| "xmemchr mem c s (Suc len) =
     c_bind (mem_at mem s) (\<lambda>b. if b \<noteq> c then xmemchr mem c (s + 1) len else Inr (Some s))"

text \<open>The loop has no lower bound: behind index 0 it leaves the memory.\<close>

fun xmemrchr :: "byte list \<Rightarrow> byte \<Rightarrow> nat \<Rightarrow> nat c_result" where
  "xmemrchr mem c len =
     c_bind (mem_at mem len) (\<lambda>b.
       if b = c then Inr len else case len of 0 \<Rightarrow> Inl OutOfBounds | Suc len \<Rightarrow> xmemrchr mem c len)"

definition xmemdup :: "byte list option \<Rightarrow> nat \<Rightarrow> byte list option c_result" where
  "xmemdup mem len =
     (case mem of
        None \<Rightarrow> Inr None
      | Some mem \<Rightarrow> if len = 0 then Inr None else c_bind (mem_read mem 0 len) (\<lambda>copy. Inr (Some copy)))"

text \<open>The digits of \<^verbatim>\<open>xutoa\<close>, least significant first, and its second loop, which has written
  \<open>k\<close> of them.\<close>

fun utoa_digits :: "nat \<Rightarrow> byte list" where
  "utoa_digits value = (if value = 0 then [] else (0x30 + of_nat (value mod 10)) # utoa_digits (value div 10))"

declare utoa_digits.simps [simp del]

fun utoa_write :: "byte list \<Rightarrow> nat \<Rightarrow> byte list \<Rightarrow> (nat \<times> byte list) c_result" where
  "utoa_write str k [] = Inr (k, str)"
| "utoa_write str k (d # ds) =
     c_bind (mem_store str k [d]) (\<lambda>str.
     c_bind (mem_store str (k + 1 + k) [0]) (\<lambda>str. utoa_write str (k + 1) ds))"

definition xutoa :: "u32 \<Rightarrow> byte list \<Rightarrow> (nat \<times> byte list) c_result" where
  "xutoa value str = utoa_write str 0 (rev (utoa_digits (unat value)))"

subsection \<open>The public address\<close>

lemma xrecv_positive: "(r, bytes, rx') = xrecv rx n \<Longrightarrow> \<not> r < 0 \<Longrightarrow> r \<noteq> 0 \<Longrightarrow> bytes \<noteq> []"
  by (cases rx rule: rx_bytes.cases) auto

text \<open>The receiving loop of \<^verbatim>\<open>http_request\<close>, with room for \<open>cap - length data\<close> more bytes; a
  result of \<open>None\<close> is \<^verbatim>\<open>false\<close>. \<open>close_ok\<close> says that closing the socket succeeds.\<close>

function http_receive :: "bool \<Rightarrow> recv_event list \<Rightarrow> nat \<Rightarrow> byte list \<Rightarrow> byte list option" where
  "http_receive close_ok rx cap data =
     (if length data < cap
      then case xrecv rx (cap - length data) of (r, bytes, rx') \<Rightarrow>
             if r < 0 then None
             else if r = 0 then if close_ok then Some data else None
             else http_receive close_ok rx' cap (data @ bytes)
      else None)"
  by auto
termination
  by (relation "measure (\<lambda>(close_ok, rx, cap, data). cap - length data)")
    (auto dest!: xrecv_positive intro!: diff_less_mono2)

declare http_receive.simps [simp del]


record http_env =
  http_addrinfo :: int
  http_socket :: int
  http_connect :: int
  http_tx :: tx_t
  http_rx :: "recv_event list"
  http_close_ok :: bool

definition http_api :: "byte list" where
  "http_api = ascii ''GET /ip?token=$TOKEN HTTP/1.0'' @ [13, 10] @ ascii ''Host: ipinfo.io'' @ [13, 10, 13, 10, 0]"

definition http_request :: "http_env \<Rightarrow> nat \<Rightarrow> byte list option" where
  "http_request env len =
     (if http_addrinfo env \<noteq> 0 then None
      else if http_socket env < 0 then None
      else if http_connect env \<noteq> 0 then None
      else if \<not> fst (xsendall (http_tx env) http_api) then None
      else http_receive (http_close_ok env) (http_rx env) len [])"

lemma c_bind_cong [fundef_cong]:
  "m = m' \<Longrightarrow> (\<And>x. m' = Inr x \<Longrightarrow> f x = f' x) \<Longrightarrow> c_bind m f = c_bind m' f'"
  by (cases m') simp_all

lemma xmemchr_bounds: "xmemchr mem c s len = Inr (Some lf) \<Longrightarrow> s \<le> lf \<and> lf < s + len"
  by (induction mem c s len rule: xmemchr.induct) (fastforce simp: c_bind_eq_Inr split: if_splits)+

text \<open>The loop of \<^verbatim>\<open>http_extract_body\<close> with the line starting at \<open>s\<close>: where the body starts.\<close>

function body_start :: "byte list \<Rightarrow> nat \<Rightarrow> nat \<Rightarrow> nat option c_result" where
  "body_start data len s =
     c_bind (xmemchr data 10 s (len - s)) (\<lambda>lf.
       case lf of
         None \<Rightarrow> Inr None
       | Some lf \<Rightarrow>
           if lf = s \<or> lf = s + 1 \<and> data ! s = 13 then Inr (Some (lf + 1))
           else body_start data len (lf + 1))"
  by auto
termination by (relation "measure (\<lambda>(data, len, s). len - s)") (auto dest: xmemchr_bounds)

declare body_start.simps [simp del]

definition http_extract_body :: "byte list \<Rightarrow> nat \<Rightarrow> (nat \<times> nat) option c_result" where
  "http_extract_body data len =
     c_bind (body_start data len 0) (\<lambda>body.
       case body of None \<Rightarrow> Inr None | Some body \<Rightarrow> Inr (Some (body, (len - body) + 1)))"

abbreviation (input) RESPONSE_LENGTH :: nat where "RESPONSE_LENGTH \<equiv> 4096"

definition xgetpublicip :: "http_env \<Rightarrow> byte list \<Rightarrow> (bool \<times> byte list) c_result" where
  "xgetpublicip env ip =
     (case http_request env RESPONSE_LENGTH of
        None \<Rightarrow> Inr (False, ip)
      | Some received \<Rightarrow>
          let data = received @ replicate (RESPONSE_LENGTH - length received) 0
          in c_bind (http_extract_body data (length received)) (\<lambda>body.
             case body of
               None \<Rightarrow> Inr (False, ip)
             | Some (start, len) \<Rightarrow>
                 c_bind (mem_read data start len) (\<lambda>bytes.
                 c_bind (mem_store ip 0 bytes) (\<lambda>ip. Inr (True, ip)))))"


subsection \<open>Concatenation and base names\<close>

lemma strlen_c_str: "strlen s = length (c_str s)" "take (strlen s) s = c_str s" "strlen s \<le> length s"
  by (simp_all add: strlen_def c_str_def takeWhile_eq_take[symmetric] length_takeWhile_le)

lemma c_str_terminated: "0 \<notin> set xs \<Longrightarrow> c_str (xs @ 0 # rest) = xs" "0 \<notin> set xs \<Longrightarrow> c_str xs = xs"
  by (auto simp: c_str_def takeWhile_eq_all_conv intro: trans[OF takeWhile_append2])

lemma xstrcat_loop_copies:
  assumes "mem = done @ replicate (sum_list (map strlen strs) + 1) 0"
  shows "xstrcat_loop mem (length done) strs =
     Inr (done @ concat (map c_str strs) @ [0], length done + sum_list (map strlen strs))"
  using assms
proof (induction strs arbitrary: mem "done")
  case (Cons str strs)
  let ?c = "c_str str" and ?z = "replicate (sum_list (map strlen strs) + 1) (0 :: byte)"
  have "mem = done @ replicate (length ?c) 0 @ ?z"
    using Cons.prems unfolding list.map sum_list.Cons add.assoc replicate_add strlen_c_str(1)[of str] .
  then have "mem_store mem (length done) ?c = Inr ((done @ ?c) @ ?z)" by (simp add: mem_write_def)
  moreover have "mem_read str 0 (strlen str) = Inr ?c" by (simp add: strlen_c_str(2,3))
  ultimately show ?case using Cons.IH[of "(done @ ?c) @ ?z" "done @ ?c"]
    by (simp add: strlen_c_str(1)[of str] add.assoc)
qed simp

lemma xstrcat_concat: "xstrcat strs = Inr (concat (map c_str strs) @ [0])"
proof -
  have n: "sum_list (map strlen strs) = length (concat (map c_str strs))"
    by (induction strs) (simp_all add: strlen_c_str(1))
  have "xstrcat_loop (replicate (1 + sum_list (map strlen strs)) 0) 0 strs =
      Inr (concat (map c_str strs) @ [0], length (concat (map c_str strs)))"
    using xstrcat_loop_copies[of "replicate (sum_list (map strlen strs) + 1) 0" "[]" strs] n by (simp add: add.commute)
  then show ?thesis by (simp add: xstrcat_def Let_def mem_write_def)
qed

lemma basename_back_skips:
  assumes "set base \<inter> {0x2f, 0x5c} = {}" "dir = [] \<or> last dir \<in> {0x2f, 0x5c}"
  shows "basename_back (dir @ base @ rest) (length dir + length base) = length dir"
  using assms(1)
proof (induction base arbitrary: rest rule: rev_induct)
  case Nil
  then show ?case using assms(2) by (cases dir rule: rev_cases) (auto simp: nth_append)
next
  case (snoc x base)
  then show ?case using snoc.IH[of "x # rest"] by (auto simp: nth_append)
qed

lemma xconstbasename_base:
  assumes "0 \<notin> set (dir @ base)" "set base \<inter> {0x2f, 0x5c} = {}" "dir = [] \<or> last dir \<in> {0x2f, 0x5c}"
  shows "xconstbasename (dir @ base @ 0 # rest) = base @ 0 # rest"
proof -
  have "strlen (dir @ base @ 0 # rest) = length dir + length base"
    using c_str_terminated(1)[OF assms(1), of rest] by (simp add: strlen_c_str(1))
  then show ?thesis
    using basename_back_skips[OF assms(2,3), of "0 # rest"] by (simp add: xconstbasename_def)
qed

subsection \<open>Responses\<close>

definition header_lines :: "byte list list \<Rightarrow> byte list" where
  "header_lines lines = concat (map (\<lambda>l. l @ [10]) lines)"

lemma xmemchr_first:
  assumes "10 \<notin> set l" "length l < n" "s = length pre"
  shows "xmemchr (pre @ l @ 10 # rest) 10 s n = Inr (Some (s + length l))"
  using assms
proof (induction l arbitrary: pre s n)
  case Nil
  then show ?case by (cases n) simp_all
next
  case (Cons x l)
  then obtain m where "n = Suc m" by (cases n) auto
  with Cons.prems Cons.IH[of m "s + 1" "pre @ [x]"] show ?case by simp
qed

lemma body_start_lines:
  assumes "\<forall>l \<in> set lines. 10 \<notin> set l \<and> l \<noteq> [] \<and> l \<noteq> [13]" "blank = [10] \<or> blank = [13, 10]"
    and "length (pre @ header_lines lines @ blank) \<le> len"
  shows "body_start (pre @ header_lines lines @ blank @ rest) len (length pre) =
     Inr (Some (length (pre @ header_lines lines @ blank)))"
  using assms(1,3)
proof (induction lines arbitrary: pre)
  case Nil
  obtain l where l: "blank = l @ [10]" "l = [] \<or> l = [13]" "10 \<notin> set l" using assms(2) by auto
  have "xmemchr (pre @ blank @ rest) 10 (length pre) (len - length pre) = Inr (Some (length pre + length l))"
    using xmemchr_first[OF l(3), of "len - length pre" "length pre" pre rest] Nil.prems l(1) by (simp add: header_lines_def)
  then show ?case using l by (subst body_start.simps) (auto simp: header_lines_def)
next
  case (Cons l lines)
  let ?pre = "pre @ l @ [10]"
  have eq: "pre @ header_lines (l # lines) @ blank @ rest = ?pre @ header_lines lines @ blank @ rest"
    "length (pre @ header_lines (l # lines) @ blank) = length (?pre @ header_lines lines @ blank)"
    by (simp_all add: header_lines_def)
  have "xmemchr (?pre @ header_lines lines @ blank @ rest) 10 (length pre) (len - length pre) = Inr (Some (length pre + length l))"
    using xmemchr_first[of l "len - length pre" "length pre" pre "header_lines lines @ blank @ rest"] Cons.prems
    by (simp add: header_lines_def)
  moreover have "\<not> (length pre + length l = length pre \<or> length pre + length l = length pre + 1 \<and>
      (?pre @ header_lines lines @ blank @ rest) ! length pre = 13)"
    using Cons.prems(1) by (cases l) (auto simp: nth_append)
  moreover have "body_start (?pre @ header_lines lines @ blank @ rest) len (length ?pre) =
      Inr (Some (length (?pre @ header_lines lines @ blank)))"
    using Cons.IH[of ?pre] Cons.prems by (simp add: header_lines_def)
  ultimately show ?case unfolding eq by (subst body_start.simps) auto
qed

lemma http_receive_short: "http_receive close_ok rx cap data = Some received \<Longrightarrow> length received < cap"
proof (induction close_ok rx cap data rule: http_receive.induct)
  case (1 close_ok rx cap data)
  then show ?case
    by (subst (asm) (2) http_receive.simps) (auto split: if_splits prod.splits)
qed

subsection \<open>Properties\<close>

text \<open>\<^verbatim>\<open>xgetpublicip\<close>. When the answer is header lines, a blank line and a body, the body
  and a terminator are copied to the caller; nothing compares their length with the
  caller's buffer, so a longer body is written behind it.\<close>

lemma xgetpublicip_copies_body:
  assumes "http_request env RESPONSE_LENGTH = Some (header_lines lines @ blank @ body)"
    and "\<forall>l \<in> set lines. 10 \<notin> set l \<and> l \<noteq> [] \<and> l \<noteq> [13]" "blank = [10] \<or> blank = [13, 10]"
  shows "xgetpublicip env ip =
     (if length body < length ip then Inr (True, mem_write ip 0 (body @ [0])) else Inl OutOfBounds)"
proof -
  let ?r = "header_lines lines @ blank @ body" and ?h = "header_lines lines @ blank"
  have short: "length ?r < RESPONSE_LENGTH"
    using assms(1) http_receive_short by (fastforce simp: http_request_def split: if_splits)
  then obtain k where k: "replicate (RESPONSE_LENGTH - length ?r) 0 = (0 :: byte) # replicate k 0"
    by (metis Suc_diff_Suc replicate_Suc)
  have "body_start (?r @ replicate (RESPONSE_LENGTH - length ?r) 0) (length ?r) 0 = Inr (Some (length ?h))"
    using body_start_lines[OF assms(2,3), of "[]" "length ?r" "body @ replicate (RESPONSE_LENGTH - length ?r) 0"] by simp
  then have "http_extract_body (?r @ replicate (RESPONSE_LENGTH - length ?r) 0) (length ?r) = Inr (Some (length ?h, length body + 1))"
    by (simp add: http_extract_body_def)
  moreover have "mem_read (?r @ replicate (RESPONSE_LENGTH - length ?r) 0) (length ?h) (length body + 1) = Inr (body @ [0])"
    unfolding k by (simp add: mem_read_def)
  ultimately show ?thesis using assms(1) by (simp add: xgetpublicip_def Let_def)
qed

end
