(* ===== verification/Files.thy ===== *)
theory Files
  imports Utils
begin

text \<open>
  \<^verbatim>\<open>common/wire-file.c\<close>: files as messages. The file system is a map from paths (the
  bytes before the terminator) to files; the answers of the calls that can fail are the
  parameters collected in \<open>write_env\<close>.
\<close>

datatype file_msg_type_t = FILE_TYPE_UNKNOWN | FILE_TYPE_BINARY | FILE_TYPE_TEXT

primrec file_msg_type_value :: "file_msg_type_t \<Rightarrow> int" where
  "file_msg_type_value FILE_TYPE_UNKNOWN = 0"
| "file_msg_type_value FILE_TYPE_BINARY = 1"
| "file_msg_type_value FILE_TYPE_TEXT = 2"

abbreviation (input) FILE_USERNAME_LENGTH :: nat where "FILE_USERNAME_LENGTH \<equiv> 64"
abbreviation (input) PATH_MAX :: nat where "PATH_MAX \<equiv> 4096"
abbreviation (input) FILE_OFFSET_NAME :: nat where "FILE_OFFSET_NAME \<equiv> 73"
abbreviation (input) FILE_OFFSET_GID :: nat where "FILE_OFFSET_GID \<equiv> 4169"
abbreviation (input) FILE_OFFSET_UID :: nat where "FILE_OFFSET_UID \<equiv> 4173"
abbreviation (input) FILE_OFFSET_MODE :: nat where "FILE_OFFSET_MODE \<equiv> 4177"
abbreviation (input) sizeof_file_msg_t :: nat where "sizeof_file_msg_t \<equiv> 4179"
abbreviation (input) FILE_DATA_MAX_SIZE :: nat where "FILE_DATA_MAX_SIZE \<equiv> 2 ^ 31 - 271"

record file_t =
  contents :: "byte list"
  file_gid :: u32
  file_uid :: u32
  file_mode :: u32

type_synonym fs_t = "byte list \<rightharpoonup> file_t"

definition file_msg_set_user :: "msg_t \<Rightarrow> byte list \<Rightarrow> msg_t c_result" where
  "file_msg_set_user fm user =
     c_bind (mem_store fm MSG_OFFSET_FIELDS (replicate FILE_USERNAME_LENGTH 0)) (\<lambda>fm.
     let len = strnlen user (FILE_USERNAME_LENGTH - 1)
     in mem_store fm MSG_OFFSET_FIELDS (take len user))"

definition file_msg_get_user :: "msg_t \<Rightarrow> byte list \<Rightarrow> (bool \<times> byte list) c_result" where
  "file_msg_get_user fm user =
     c_bind (mem_read fm MSG_OFFSET_FIELDS FILE_USERNAME_LENGTH) (\<lambda>field.
     let len = strnlen field FILE_USERNAME_LENGTH
     in c_bind (mem_store user 0 (take len field)) (\<lambda>user. Inr (0 < len, user)))"

definition file_msg_set_filename :: "msg_t \<Rightarrow> byte list \<Rightarrow> msg_t c_result" where
  "file_msg_set_filename f name =
     c_bind (mem_store f FILE_OFFSET_NAME (replicate PATH_MAX 0)) (\<lambda>f.
     let len = strnlen name (PATH_MAX - 1)
     in mem_store f FILE_OFFSET_NAME (take len name))"

definition file_msg_get_filename :: "msg_t \<Rightarrow> byte list \<Rightarrow> (bool \<times> byte list) c_result" where
  "file_msg_get_filename f out =
     c_bind (mem_read f FILE_OFFSET_NAME PATH_MAX) (\<lambda>field.
     let len = strnlen field (PATH_MAX - 1)
     in c_bind (mem_store out 0 (take len field)) (\<lambda>out.
        c_bind (mem_store out len [0]) (\<lambda>out. Inr (0 < len, out))))"

definition file_msg_set_gid :: "msg_t \<Rightarrow> u32 \<Rightarrow> msg_t c_result" where
  "file_msg_set_gid fm gid = msg_set_field32 FILE_OFFSET_GID fm gid"

definition file_msg_set_uid :: "msg_t \<Rightarrow> u32 \<Rightarrow> msg_t c_result" where
  "file_msg_set_uid fm uid = msg_set_field32 FILE_OFFSET_UID fm uid"

definition file_msg_set_mode :: "msg_t \<Rightarrow> u32 \<Rightarrow> msg_t c_result" where
  "file_msg_set_mode fm mode = msg_set_field16 FILE_OFFSET_MODE fm (ucast mode)"

definition file_msg_get_mode :: "msg_t \<Rightarrow> u32 c_result" where
  "file_msg_get_mode fm = c_bind (msg_get_field16 FILE_OFFSET_MODE fm) (\<lambda>mode. Inr (ucast mode))"

definition file_msg_from_file ::
  "fs_t \<Rightarrow> byte list option \<Rightarrow> byte list option \<Rightarrow> msg_t option c_result" where
  "file_msg_from_file fs user path =
     (case (path, user) of
        (Some path, Some user) \<Rightarrow>
          (case fs (c_str path) of
             None \<Rightarrow> Inr None
           | Some f \<Rightarrow>
               let size = length (contents f)
               in if size = 0 \<or> size > FILE_DATA_MAX_SIZE then Inr None
                  else
                    let type = (if xfiletype (Some (contents f)) then FILE_TYPE_BINARY else FILE_TYPE_TEXT)
                    in c_bind (init_msg sizeof_file_msg_t (file_msg_type_value type) (of_nat size)) (\<lambda>fm.
                       c_bind (file_msg_set_filename fm (xconstbasename path)) (\<lambda>fm.
                       c_bind (file_msg_set_gid fm (file_gid f)) (\<lambda>fm.
                       c_bind (file_msg_set_uid fm (file_uid f)) (\<lambda>fm.
                       c_bind (file_msg_set_mode fm (file_mode f)) (\<lambda>fm.
                       c_bind (mem_store fm sizeof_file_msg_t (take size (contents f))) (\<lambda>fm.
                       Inr (Some fm))))))))
      | _ \<Rightarrow> Inr None)"

text \<open>Whether the path can be opened for writing, what a new file belongs to, how much
  \<^verbatim>\<open>fwrite\<close> writes, and whether \<^verbatim>\<open>fflush\<close>, \<^verbatim>\<open>fclose\<close> and \<^verbatim>\<open>chmod\<close> succeed.\<close>

record write_env =
  can_open :: "byte list \<Rightarrow> bool"
  created :: file_t
  written :: "nat \<Rightarrow> nat"
  close_ok :: bool
  chmod_ok :: bool

definition xchmod :: "write_env \<Rightarrow> fs_t \<Rightarrow> byte list \<Rightarrow> u32 \<Rightarrow> bool \<times> fs_t" where
  "xchmod env fs filename mode =
     (case fs filename of
        None \<Rightarrow> (False, fs)
      | Some f \<Rightarrow>
          if chmod_ok env then (True, fs(filename \<mapsto> f\<lparr>file_mode := mode AND 0x1ff\<rparr>)) else (False, fs))"

definition file_msg_to_file ::
  "write_env \<Rightarrow> fs_t \<Rightarrow> msg_t option \<Rightarrow> byte list option \<Rightarrow> (bool \<times> fs_t) c_result" where
  "file_msg_to_file env fs fm directory =
     (case fm of
        None \<Rightarrow> Inr (False, fs)
      | Some fm \<Rightarrow>
          c_bind (file_msg_get_filename fm (replicate PATH_MAX 0)) (\<lambda>(named, filename).
          if \<not> named then Inr (False, fs)
          else c_bind (case directory of
                         Some directory \<Rightarrow> xstrcat [directory, [0x2f, 0], filename]
                       | None \<Rightarrow> c_bind (xstrdup (Some filename)) (\<lambda>path. Inr (the path))) (\<lambda>path.
            let path = c_str path
            in c_bind (if can_open env path
                       then c_bind (msg_get_payload_length sizeof_file_msg_t fm) (\<lambda>size.
                            c_bind (mem_read (msg_get_data sizeof_file_msg_t fm) 0 (unat size)) (\<lambda>bytes.
                            let n = min (written env (unat size)) (unat size);
                                old = (case fs path of None \<Rightarrow> created env | Some f \<Rightarrow> f)
                            in Inr (n = unat size \<and> close_ok env, fs(path \<mapsto> old\<lparr>contents := take n bytes\<rparr>))))
                       else Inr (False, fs)) (\<lambda>(ok, fs).
               c_bind (file_msg_get_mode fm) (\<lambda>mode.
               let (chmod, fs) = xchmod env fs path mode in Inr (ok \<and> chmod, fs))))))"

definition init_wire_from_file_msg :: "byte list option \<Rightarrow> msg_t \<Rightarrow> wire_t option c_result" where
  "init_wire_from_file_msg rand file_msg =
     c_bind (msg_get_wire_length file_msg) (\<lambda>len.
     c_bind (init_wire rand TYPE_FILE file_msg len) (\<lambda>(wire, len). Inr wire))"

subsection \<open>Layout\<close>

interpretation file_msg: message_layout 4179 by unfold_locales simp_all

definition file_bytes ::
  "byte \<Rightarrow> u64 \<Rightarrow> byte list \<Rightarrow> byte list \<Rightarrow> byte list \<Rightarrow> byte list \<Rightarrow> byte list \<Rightarrow> byte list \<Rightarrow> msg_t" where
  "file_bytes t n user name gid uid mode body =
     [t] @ wire_unpack64 n @ (user @ name @ gid @ uid @ mode) @ body"

definition path_field :: "byte list \<Rightarrow> byte list" where
  "path_field name = c_string name 4095 @ replicate (PATH_MAX - length (c_string name 4095)) 0"

lemma length_path_field: "length (path_field name) = PATH_MAX"
  using length_c_string(1)[of name 4095] by (simp add: path_field_def)

lemma path_field_string:
  "strnlen (path_field name) 4095 = length (c_string name 4095)"
  "take (length (c_string name 4095)) (path_field name) = c_string name 4095"
proof -
  obtain k where "PATH_MAX - length (c_string name 4095) = Suc k"
    using length_c_string(1)[of name 4095] by (cases "PATH_MAX - length (c_string name 4095)") auto
  then have *: "path_field name = c_string name 4095 @ 0 # replicate k 0" by (simp add: path_field_def)
  show "strnlen (path_field name) 4095 = length (c_string name 4095)"
    unfolding * using length_c_string(1)[of name 4095] by (simp add: strnlen_zero_free[OF zero_notin_c_string])
  show "take (length (c_string name 4095)) (path_field name) = c_string name 4095" by (simp add: *)
qed


definition file_wf :: "byte list \<Rightarrow> byte list \<Rightarrow> byte list \<Rightarrow> byte list \<Rightarrow> byte list \<Rightarrow> bool" where
  "file_wf user name gid uid mode \<longleftrightarrow>
     length user = FILE_USERNAME_LENGTH \<and> length name = PATH_MAX \<and> length gid = 4 \<and> length uid = 4 \<and> length mode = 2"

lemma file_fields:
  assumes "file_wf user name gid uid mode"
  shows "mem_read (file_bytes t n user name gid uid mode body) 9 64 = Inr user"
    "mem_read (file_bytes t n user name gid uid mode body) 73 4096 = Inr name"
    "mem_read (file_bytes t n user name gid uid mode body) 4177 2 = Inr mode"
  using assms by (simp_all add: file_bytes_def file_wf_def mem_read_def)

lemma file_setters:
  assumes "file_wf user name gid uid mode"
  shows "length name' \<le> PATH_MAX \<Longrightarrow> mem_store (file_bytes t n user name gid uid mode body) 73 name' =
       Inr (file_bytes t n user (name' @ drop (length name') name) gid uid mode body)"
    "length gid' = 4 \<Longrightarrow> mem_store (file_bytes t n user name gid uid mode body) 4169 gid' =
       Inr (file_bytes t n user name gid' uid mode body)"
    "length uid' = 4 \<Longrightarrow> mem_store (file_bytes t n user name gid uid mode body) 4173 uid' =
       Inr (file_bytes t n user name gid uid' mode body)"
    "length mode' = 2 \<Longrightarrow> mem_store (file_bytes t n user name gid uid mode body) 4177 mode' =
       Inr (file_bytes t n user name gid uid mode' body)"
    "length body' = length body \<Longrightarrow> mem_store (file_bytes t n user name gid uid mode body) 4179 body' =
       Inr (file_bytes t n user name gid uid mode body')"
proof -
  have "drop (73 + k) (file_bytes t n user name gid uid mode body) = drop k (name @ gid @ uid @ mode @ body)" for k
    using assms drop_drop[of k 73 "file_bytes t n user name gid uid mode body"]
    by (simp add: file_bytes_def file_wf_def add.commute)
  then show "length name' \<le> PATH_MAX \<Longrightarrow> mem_store (file_bytes t n user name gid uid mode body) 73 name' =
       Inr (file_bytes t n user (name' @ drop (length name') name) gid uid mode body)"
    using assms by (simp add: mem_store_def mem_write_def) (simp add: file_bytes_def file_wf_def)
qed (use assms in \<open>simp_all add: file_bytes_def file_wf_def mem_store_def mem_write_def\<close>)

lemma set_filename_bytes:
  assumes "file_wf user old gid uid mode"
  shows "file_msg_set_filename (file_bytes t n user old gid uid mode body) name =
     Inr (file_bytes t n user (path_field name) gid uid mode body)"
proof -
  let ?c = "c_string name 4095"
  have c: "take (strnlen name 4095) name = ?c" by (simp add: take_strnlen c_string_def)
  have wf: "file_wf user (replicate PATH_MAX 0) gid uid mode" using assms by (simp add: file_wf_def)
  have "mem_store (file_bytes t n user old gid uid mode body) 73 (replicate PATH_MAX 0) =
      Inr (file_bytes t n user (replicate PATH_MAX 0) gid uid mode body)"
    using file_setters(1)[OF assms, of "replicate PATH_MAX 0"] assms by (simp add: file_wf_def)
  moreover have "mem_store (file_bytes t n user (replicate PATH_MAX 0) gid uid mode body) 73 ?c =
      Inr (file_bytes t n user (path_field name) gid uid mode body)"
    using file_setters(1)[OF wf, of ?c] length_c_string(1)[of name 4095] by (simp add: path_field_def)
  ultimately show ?thesis by (simp add: file_msg_set_filename_def c Let_def)
qed

lemma init_file_msg_bytes:
  assumes "4179 + unat len < 2 ^ 64"
  shows "init_msg 4179 type len = Inr (file_bytes (word_of_int type) (4179 + len) (replicate 64 0) (replicate 4096 0)
     (replicate 4 0) (replicate 4 0) (replicate 2 0) (replicate (unat len) 0))"
proof -
  have "replicate (4179 - 9) (0 :: byte) = replicate 64 0 @ replicate 4096 0 @ replicate 4 0 @ replicate 4 0 @ replicate 2 0"
    unfolding replicate_add[symmetric] by (rule arg_cong[of _ _ "\<lambda>k. replicate k 0"]) simp
  then show ?thesis using file_msg.init_msg_bytes[OF assms, of type] by (simp only: file_bytes_def of_nat_numeral)
qed

lemma file_msg_from_file_bytes:
  assumes "fs (c_str path) = Some f" "contents f \<noteq> []" "length (contents f) \<le> FILE_DATA_MAX_SIZE"
  shows "\<exists>t. file_msg_from_file fs (Some user) (Some path) =
     Inr (Some (file_bytes t (4179 + of_nat (length (contents f))) (replicate 64 0) (path_field (xconstbasename path))
       (wire_unpack32 (file_gid f)) (wire_unpack32 (file_uid f)) (wire_unpack16 (ucast (file_mode f))) (contents f)))"
proof -
  define len :: u64 where "len = of_nat (length (contents f))"
  have n: "unat len = length (contents f)"
    using assms(3) by (simp add: len_def unat_of_nat take_bit_nat_eq_self)
  define type where "type = file_msg_type_value (if xfiletype (Some (contents f)) then FILE_TYPE_BINARY else FILE_TYPE_TEXT)"
  let ?name = "path_field (xconstbasename path)" and ?z = "replicate (unat len) (0 :: byte)"
  have b: "4179 + unat len < 2 ^ 64" using n assms(3) by simp
  have wf: "file_wf (replicate 64 0) (replicate 4096 0) (replicate 4 0) (replicate 4 0) (replicate 2 0)"
    "file_wf (replicate 64 0) ?name (replicate 4 0) (replicate 4 0) (replicate 2 0)"
    "file_wf (replicate 64 0) ?name (wire_unpack32 (file_gid f)) (replicate 4 0) (replicate 2 0)"
    "file_wf (replicate 64 0) ?name (wire_unpack32 (file_gid f)) (wire_unpack32 (file_uid f)) (replicate 2 0)"
    "file_wf (replicate 64 0) ?name (wire_unpack32 (file_gid f)) (wire_unpack32 (file_uid f)) (wire_unpack16 (ucast (file_mode f)))"
    by (simp_all add: file_wf_def length_path_field)
  note steps = init_file_msg_bytes[OF b, of type] set_filename_bytes[OF wf(1)] file_setters(2)[OF wf(2)]
    file_setters(3)[OF wf(3)] file_setters(4)[OF wf(4)] file_setters(5)[OF wf(5)]
  have "file_msg_from_file fs (Some user) (Some path) = Inr (Some (file_bytes (word_of_int type) (4179 + len) (replicate 64 0)
      ?name (wire_unpack32 (file_gid f)) (wire_unpack32 (file_uid f)) (wire_unpack16 (ucast (file_mode f))) (contents f)))"
    using assms n
    by (simp add: file_msg_from_file_def Let_def file_msg_set_gid_def file_msg_set_uid_def file_msg_set_mode_def
        msg_set_field32_def msg_set_field16_def len_def[symmetric] type_def[symmetric] steps)
  then show ?thesis by (auto simp: len_def)
qed


lemma get_filename_bytes:
  assumes "file_wf user (path_field name) gid uid mode"
  shows "\<exists>out. file_msg_get_filename (file_bytes t n user (path_field name) gid uid mode body) (replicate PATH_MAX 0) =
     Inr (c_string name 4095 \<noteq> [], out) \<and> c_str out = c_string name 4095"
proof -
  let ?c = "c_string name 4095"
  obtain k where k: "PATH_MAX - length ?c = Suc k"
    using length_c_string(1)[of name 4095] by (cases "PATH_MAX - length ?c") auto
  then have "length ?c + 1 \<le> PATH_MAX" by simp
  have w: "mem_store (replicate PATH_MAX 0) 0 ?c = Inr (?c @ 0 # replicate k 0)"
    using k length_c_string(1)[of name 4095] by (simp add: mem_store_def mem_write_def flip: replicate_Suc)
  have "mem_store (?c @ 0 # replicate k 0) (length ?c) [0] = Inr (?c @ 0 # replicate k 0)"
    by (simp add: mem_store_def mem_write_def)
  then show ?thesis
    using file_fields(2)[OF assms, of t n body] w c_str_terminated(1)[OF zero_notin_c_string]
    by (auto simp: file_msg_get_filename_def Let_def path_field_string)
qed

lemma mode_bits: "ucast (ucast mode :: u16) AND 0x1ff = mode AND (0x1ff :: u32)" for mode :: u32
proof -
  have m: "(0x1ff :: u32) = mask 9" by (simp add: mask_eq_exp_minus_1)
  show ?thesis unfolding m by (rule bit_word_eqI) (auto simp: bit_simps)
qed

lemma file_msg_to_file_writes:
  fixes body pad :: "byte list" and len :: u64
  assumes "file_wf user (path_field name) gid uid (wire_unpack16 (ucast mode))" "c_string name 4095 \<noteq> []"
    and "unat len = length body" "length body < 2 ^ 32"
    and "path = c_str dir @ 0x2f # c_string name 4095"
    and "can_open env path" "written env (length body) = length body" "close_ok env" "chmod_ok env"
  shows "file_msg_to_file env fs (Some (file_bytes t (4179 + len) user (path_field name) gid uid (wire_unpack16 (ucast mode)) (body @ pad)))
     (Some dir) = Inr (True, fs(path \<mapsto>
       (case fs path of None \<Rightarrow> created env | Some g \<Rightarrow> g)\<lparr>contents := body, file_mode := mode AND 0x1ff\<rparr>))"
proof -
  let ?m = "file_bytes t (4179 + len) user (path_field name) gid uid (wire_unpack16 (ucast mode)) (body @ pad)"
  obtain out where out: "file_msg_get_filename ?m (replicate PATH_MAX 0) = Inr (True, out)" "c_str out = c_string name 4095"
    using get_filename_bytes[OF assms(1), of t "4179 + len" "body @ pad"] assms(2) by auto
  have slash: "c_str [0x2f, 0] = [0x2f]" by (simp add: c_str_def)
  have p: "xstrcat [dir, [0x2f, 0], out] = Inr (path @ [0])" "c_str (path @ [0]) = path"
  proof -
    have "0 \<notin> set (c_str dir)" unfolding c_str_def by (auto dest: set_takeWhileD)
    then have "0 \<notin> set path" using zero_notin_c_string assms(5) by auto
    then show "c_str (path @ [0]) = path" by (rule c_str_terminated(1))
    show "xstrcat [dir, [0x2f, 0], out] = Inr (path @ [0])"
      using xstrcat_concat[of "[dir, [0x2f, 0], out]"] assms(5) out(2) slash by simp
  qed
  have l: "length (user @ path_field name @ gid @ uid @ wire_unpack16 (ucast mode)) = 4179 - 9"
    using assms(1) by (simp add: file_wf_def)
  have d: "msg_get_payload_length 4179 ?m = Inr len" "msg_get_data 4179 ?m = body @ pad"
    using file_msg.fields(3,4)[OF l, of t "4179 + len" "body @ pad"] by (simp_all only: file_bytes_def) simp
  have mode: "file_msg_get_mode ?m = Inr (ucast (ucast mode :: u16))"
    using file_fields(3)[OF assms(1), of t "4179 + len" "body @ pad"]
    by (simp add: file_msg_get_mode_def msg_get_field16_def)
  show ?thesis
    using out(1) p d mode assms(3,6-9)
    by (simp add: file_msg_to_file_def xchmod_def Let_def mode_bits)
qed

subsection \<open>Properties\<close>

text \<open>C22: files, end to end. A file of 1 to \<open>2 ^ 31 - 271\<close> bytes that \<^verbatim>\<open>file_msg_from_file\<close>
  packs and \<^verbatim>\<open>encrypt_wire\<close> seals is written by the receiver's \<^verbatim>\<open>file_msg_to_file\<close> under its
  base name in the given directory, with the same contents and permission bits and
  nothing else changed; the sender's name does not arrive.\<close>

theorem file_transfer_round_trip:
  assumes "fs (dir @ base) = Some f" "contents f \<noteq> []" "length (contents f) \<le> FILE_DATA_MAX_SIZE"
    and "0 \<notin> set (dir @ base)" "set base \<inter> {0x2f, 0x5c} = {}" "dir = [] \<or> last dir \<in> {0x2f, 0x5c}"
    and "base \<noteq> []" "length base \<le> 4095" "length r = 16" "64 \<le> length buf"
    and "target = c_str out_dir @ 0x2f # base" "can_open env target"
    and "written env (length (contents f)) = length (contents f)" "close_ok env" "chmod_ok env"
  shows "\<exists>m w sealed w'.
     file_msg_from_file fs (Some user) (Some (dir @ base @ [0])) = Inr (Some m) \<and>
     init_wire_from_file_msg (Some r) m = Inr (Some w) \<and>
     encrypt_wire (Some w) (Some key) = Inr (True, Some sealed) \<and>
     decrypt_wire (Some sealed) (wire_get_length w) key key2 = Inr (True, w') \<and>
     wire_get_type w' = wire_type_value TYPE_FILE \<and>
     file_msg_get_user (wire_data w') buf = Inr (False, buf) \<and>
     file_msg_to_file env fs' (Some (wire_data w')) (Some out_dir) = Inr (True, fs'(target \<mapsto>
       (case fs' target of None \<Rightarrow> created env | Some g \<Rightarrow> g)\<lparr>contents := contents f, file_mode := file_mode f AND 0x1ff\<rparr>))"
proof -
  define len :: u64 where "len = of_nat (length (contents f))"
  have n: "unat len = length (contents f)" using assms(3) by (simp add: len_def unat_of_nat take_bit_nat_eq_self)
  let ?mode = "wire_unpack16 (ucast (file_mode f))"
  have path: "c_str (dir @ base @ [0]) = dir @ base" using c_str_terminated(1)[OF assms(4)] by simp
  have name: "c_string (base @ [0]) 4095 = base"
    using assms(4,8) by (cases "length base = 4095") (auto simp: c_string_def takeWhile_eq_all_conv intro!: trans[OF takeWhile_append2])
  obtain t where "file_msg_from_file fs (Some user) (Some (dir @ base @ [0])) =
     Inr (Some (file_bytes t (4179 + len) (replicate 64 0) (path_field (base @ [0]))
       (wire_unpack32 (file_gid f)) (wire_unpack32 (file_uid f)) ?mode (contents f)))"
    using file_msg_from_file_bytes[of fs "dir @ base @ [0]" f user] assms(1-3) path
      xconstbasename_base[OF assms(4-6), of "[]"] by (auto simp: len_def)
  moreover define m where "m = file_bytes t (4179 + len) (replicate 64 0) (path_field (base @ [0]))
       (wire_unpack32 (file_gid f)) (wire_unpack32 (file_uid f)) ?mode (contents f)"
  ultimately have m: "file_msg_from_file fs (Some user) (Some (dir @ base @ [0])) = Inr (Some m)" by simp
  have wf: "file_wf (replicate 64 0) (path_field (base @ [0])) (wire_unpack32 (file_gid f)) (wire_unpack32 (file_uid f)) ?mode"
    by (simp add: file_wf_def length_path_field)
  have l: "length (replicate 64 0 @ path_field (base @ [0]) @ wire_unpack32 (file_gid f) @ wire_unpack32 (file_uid f) @ ?mode) = 4179 - 9"
    by (simp add: length_path_field)
  have wl: "msg_get_wire_length m = Inr (4179 + len)" "unat (4179 + len) = length m"
    using file_msg.fields(2)[OF l, of t "4179 + len" "contents f"] n assms(3) l
    by (simp_all add: m_def file_bytes_def unat_add_lem[THEN iffD1])
  obtain w pad where w: "init_wire (Some r) TYPE_FILE m (4179 + len) = Inr (Some w, wire_get_length w)" "wire_ok w"
    "wire_get_type w = wire_type_value TYPE_FILE" "wire_data w = m @ pad"
    using message_wire[of TYPE_FILE r "4179 + len" m] assms(9) wl(2) n assms(3)
    by (auto simp: unat_add_lem[THEN iffD1])
  obtain sealed where s: "encrypt_wire (Some w) (Some key) = Inr (True, Some sealed)"
    "decrypt_wire (Some sealed) (wire_get_length w) key key2 = Inr (True, w\<lparr>auth := auth sealed\<rparr>)"
    using message_sealed[OF w(2)] by blast
  have mp: "m @ pad = file_bytes t (4179 + len) (replicate 64 0) (path_field (base @ [0]))
       (wire_unpack32 (file_gid f)) (wire_unpack32 (file_uid f)) ?mode (contents f @ pad)"
    by (simp add: m_def file_bytes_def)
  have "file_msg_get_user (m @ pad) buf = Inr (False, buf)"
    unfolding mp using file_fields(1)[OF wf, of t "4179 + len" "contents f @ pad"] assms(10)
    by (simp add: file_msg_get_user_def strnlen_def mem_store_def mem_write_def Let_def)
  moreover have "file_msg_to_file env fs' (Some (m @ pad)) (Some out_dir) = Inr (True, fs'(target \<mapsto>
       (case fs' target of None \<Rightarrow> created env | Some g \<Rightarrow> g)\<lparr>contents := contents f, file_mode := file_mode f AND 0x1ff\<rparr>))"
    unfolding mp using assms(3,7,11-15) name n
    by (intro file_msg_to_file_writes[OF wf]) simp_all
  ultimately show ?thesis
    using m w s wl(1)
    by (intro exI[of _ m] exI[of _ w] exI[of _ sealed] exI[of _ "w\<lparr>auth := auth sealed\<rparr>"])
      (simp add: init_wire_from_file_msg_def wire_get_type_def)
qed

theorem file_transfer_round_trip_witness:
  "\<exists>f env fs w m sealed w'. contents f = [1, 2, 3] \<and>
     file_msg_from_file [ascii ''/tmp/'' @ ascii ''a.txt'' \<mapsto> f] (Some [0]) (Some (ascii ''/tmp/'' @ ascii ''a.txt'' @ [0])) = Inr (Some m) \<and>
     init_wire_from_file_msg (Some (replicate 16 7)) m = Inr (Some w) \<and>
     encrypt_wire (Some w) (Some (replicate 32 5)) = Inr (True, Some sealed) \<and>
     decrypt_wire (Some sealed) (wire_get_length w) (replicate 32 5) None = Inr (True, w') \<and>
     file_msg_to_file env (\<lambda>_. None) (Some (wire_data w')) (Some (ascii ''/home'' @ [0])) = Inr (True, fs) \<and>
     map_option contents (fs (c_str (ascii ''/home'' @ [0]) @ 0x2f # ascii ''a.txt'')) = Some [1, 2, 3]"
proof -
  define f where "f = \<lparr>contents = [1, 2, 3], file_gid = 0, file_uid = 0, file_mode = 0x1a4\<rparr>"
  define env where "env = \<lparr>can_open = \<lambda>_. True, created = f, written = \<lambda>n. n, close_ok = True, chmod_ok = True\<rparr>"
  have a: "0 \<notin> set (ascii ''/tmp/'' @ ascii ''a.txt'')" "set (ascii ''a.txt'') \<inter> {0x2f, 0x5c} = {}"
    "ascii ''/tmp/'' = [] \<or> last (ascii ''/tmp/'') \<in> {0x2f, 0x5c}" "ascii ''a.txt'' \<noteq> []" "length (ascii ''a.txt'') \<le> 4095"
    by (simp_all add: ascii_def)
  let ?fs = "[ascii ''/tmp/'' @ ascii ''a.txt'' \<mapsto> f]" and ?t = "c_str (ascii ''/home'' @ [0]) @ 0x2f # ascii ''a.txt''"
  have b: "?fs (ascii ''/tmp/'' @ ascii ''a.txt'') = Some f" "contents f \<noteq> []" "length (contents f) \<le> FILE_DATA_MAX_SIZE"
    "can_open env ?t" "written env (length (contents f)) = length (contents f)" "close_ok env" "chmod_ok env"
    by (simp_all add: f_def env_def)
  have "length (replicate 16 7 :: byte list) = 16" "64 \<le> length (replicate 64 0 :: byte list)" by simp_all
  note round_trip = file_transfer_round_trip[of ?fs "ascii ''/tmp/''" "ascii ''a.txt''" f "replicate 16 7" "replicate 64 0" ?t
      "ascii ''/home'' @ [0]" env "[0]" "replicate 32 5" None "\<lambda>_. None", OF b(1-3) a this refl b(4-7)]
  then obtain m w sealed w' where
    "file_msg_from_file ?fs (Some [0]) (Some (ascii ''/tmp/'' @ ascii ''a.txt'' @ [0])) = Inr (Some m)"
    "init_wire_from_file_msg (Some (replicate 16 7)) m = Inr (Some w)"
    "encrypt_wire (Some w) (Some (replicate 32 5)) = Inr (True, Some sealed)"
    "decrypt_wire (Some sealed) (wire_get_length w) (replicate 32 5) None = Inr (True, w')"
    "file_msg_to_file env (\<lambda>_. None) (Some (wire_data w')) (Some (ascii ''/home'' @ [0])) =
      Inr (True, [?t \<mapsto> (created env)\<lparr>contents := contents f, file_mode := file_mode f AND 0x1ff\<rparr>])"
    by auto
  moreover have "contents f = [1, 2, 3]" by (simp add: f_def)
  ultimately show ?thesis
    by (intro exI[of _ f] exI[of _ env] exI[of _ "[?t \<mapsto> (created env)\<lparr>contents := contents f, file_mode := file_mode f AND 0x1ff\<rparr>]"]
        exI[of _ w] exI[of _ m] exI[of _ sealed] exI[of _ w']) simp
qed

end
