(* ===== verification/Client.thy ===== *)
theory Client
  imports Files Platform
begin

text \<open>
  The chat client: \<^verbatim>\<open>parcel/client.c\<close>, \<^verbatim>\<open>wire-interface.c\<close>, \<^verbatim>\<open>proc-type.c\<close> and
  \<^verbatim>\<open>commands.c\<close>.

  \<^item> \<open>client_t\<close> is the struct with the connection behind the socket, the static variables
    of \<^verbatim>\<open>proc-type.c\<close>, the file system, and \<open>shown\<close>, what has been printed, without the
    escape sequences that format it. The mutexes only order the accesses to it.
  \<^item> \<open>client_env\<close> holds what the calls of one iteration of a thread answer: random bytes,
    the clock (one reading for each call of \<^verbatim>\<open>time\<close> in the code), the prompts, file operations.
    What \<^verbatim>\<open>shutdown\<close> does to the socket shows in what \<^verbatim>\<open>recv\<close> then answers.
  \<^item> \<open>recv_step\<close> and \<open>send_step\<close> are one iteration of the loops of the two threads.
\<close>

datatype ui_event =
    Sender "byte list" string bool
  | Text "byte list"
  | Online "byte list"
  | Offline "byte list"
  | Rename "byte list" "byte list"
  | FileSent "byte list" "byte list" u64
  | Note string

record client_t =
  conn :: conn_t
  username :: "byte list"
  session :: "byte list"
  ctrl :: "byte list"
  conn_announced :: bool
  keep_alive :: bool
  last_sender :: "byte list"
  last_message_time :: int
  files :: fs_t
  shown :: "ui_event list"

record client_env =
  wire_iv :: "byte list option"
  ring_secret :: "byte list option"
  clock :: "nat \<Rightarrow> int"
  home :: "byte list option"
  disk :: write_env
  new_name :: "byte list"
  new_name_len :: nat
  file_path :: "byte list"

abbreviation (input) USERNAME_MAX_LENGTH :: nat where "USERNAME_MAX_LENGTH \<equiv> 64"

abbreviation show_event :: "ui_event \<Rightarrow> client_t \<Rightarrow> client_t" where
  "show_event e ctx \<equiv> ctx\<lparr>shown := shown ctx @ [e]\<rparr>"

text \<open>A \<^verbatim>\<open>%s\<close> argument: the bytes up to the terminator, a fault when the memory has none.\<close>

definition c_string_arg :: "byte list \<Rightarrow> byte list c_result" where
  "c_string_arg s = (if 0 \<in> set s then Inr (c_str s) else Inl OutOfBounds)"

subsection \<open>The client's data\<close>

definition client_get_keys :: "client_t \<Rightarrow> byte list \<times> byte list" where
  "client_get_keys ctx = (session ctx, ctrl ctx)"

definition client_set_keys :: "client_t \<Rightarrow> byte list \<Rightarrow> byte list \<Rightarrow> client_t" where
  "client_set_keys ctx session_key ctrl_key = ctx\<lparr>session := session_key, ctrl := ctrl_key\<rparr>"

definition client_get_username :: "client_t \<Rightarrow> byte list \<Rightarrow> byte list c_result" where
  "client_get_username ctx out =
     (let len = strnlen (username ctx) (USERNAME_MAX_LENGTH - 1)
      in c_bind (mem_store out 0 (take len (username ctx))) (\<lambda>out. mem_store out len [0]))"

definition client_get_socket :: "client_t \<Rightarrow> conn_t" where
  "client_get_socket ctx = conn ctx"

subsection \<open>Wires\<close>

definition client_init_stat_conn_wire :: "client_env \<Rightarrow> client_t \<Rightarrow> stat_msg_type_t \<Rightarrow> wire_t option c_result" where
  "client_init_stat_conn_wire env ctx type =
     (if type \<noteq> STAT_USER_CONNECT \<and> type \<noteq> STAT_USER_DISCONNECT then Inl AssertFailed
      else c_bind (client_get_username ctx (replicate USERNAME_MAX_LENGTH 0)) (\<lambda>name.
           c_bind (init_stat_conn_msg type name) (\<lambda>stat_msg.
           init_wire_from_stat_msg (wire_iv env) stat_msg)))"

definition client_init_stat_rename_wire :: "client_env \<Rightarrow> client_t \<Rightarrow> byte list \<Rightarrow> wire_t option c_result" where
  "client_init_stat_rename_wire env ctx new =
     c_bind (client_get_username ctx (replicate USERNAME_MAX_LENGTH 0)) (\<lambda>name.
     c_bind (init_stat_rename_msg name new) (\<lambda>stat_msg.
     init_wire_from_stat_msg (wire_iv env) stat_msg))"

definition client_init_text_msg :: "client_t \<Rightarrow> byte list \<Rightarrow> u64 \<Rightarrow> msg_t c_result" where
  "client_init_text_msg ctx text len =
     c_bind (client_get_username ctx (replicate USERNAME_MAX_LENGTH 0)) (\<lambda>name.
     text_msg_from_text name text len)"

definition client_init_text_wire :: "client_env \<Rightarrow> client_t \<Rightarrow> byte list \<Rightarrow> u64 \<Rightarrow> wire_t option c_result" where
  "client_init_text_wire env ctx text len =
     c_bind (client_init_text_msg ctx text len) (\<lambda>text_msg. init_wire_from_text_msg (wire_iv env) text_msg)"

definition client_init_file_wire :: "client_env \<Rightarrow> client_t \<Rightarrow> byte list \<Rightarrow> wire_t option c_result" where
  "client_init_file_wire env ctx path =
     c_bind (client_get_username ctx (replicate USERNAME_MAX_LENGTH 0)) (\<lambda>name.
     c_bind (file_msg_from_file (files ctx) (Some name) (Some path)) (\<lambda>file_msg.
     case file_msg of
       None \<Rightarrow> Inr None
     | Some file_msg \<Rightarrow> init_wire_from_file_msg (wire_iv env) file_msg))"

definition transmit_wire :: "client_t \<Rightarrow> wire_t option \<Rightarrow> (bool \<times> client_t) c_result" where
  "transmit_wire ctx wire =
     (let (session_key, _) = client_get_keys ctx
      in case wire of
           None \<Rightarrow> Inl NullDeref
         | Some w \<Rightarrow>
             let len = wire_get_length w
             in c_bind (encrypt_wire (Some w) (Some session_key)) (\<lambda>(sealed, wire').
                let w = (case wire' of None \<Rightarrow> w | Some w' \<Rightarrow> w')
                in c_bind (init_cable (wire_bytes w) len) (\<lambda>(cable, len).
                   c_bind (mem_read cable 0 (unat len)) (\<lambda>bytes.
                   let (ok, sock) = conn_send (client_get_socket ctx) bytes
                   in Inr (ok, ctx\<lparr>conn := sock\<rparr>)))))"

definition announce_connection :: "client_env \<Rightarrow> client_t \<Rightarrow> (bool \<times> client_t) c_result" where
  "announce_connection env ctx =
     c_bind (client_init_stat_conn_wire env ctx STAT_USER_CONNECT) (\<lambda>wire.
     c_bind (transmit_wire ctx wire) (\<lambda>(ok, ctx). Inr (ok, ctx\<lparr>conn_announced := ok\<rparr>)))"

definition send_text_msg :: "client_env \<Rightarrow> client_t \<Rightarrow> byte list \<Rightarrow> u64 \<Rightarrow> (bool \<times> client_t) c_result" where
  "send_text_msg env ctx text len =
     c_bind (client_init_text_wire env ctx text len) (\<lambda>wire. transmit_wire ctx wire)"

subsection \<open>The display\<close>

definition reset_last_sender :: "client_t \<Rightarrow> client_t" where
  "reset_last_sender ctx = ctx\<lparr>last_sender := replicate USERNAME_MAX_LENGTH 0, last_message_time := 0\<rparr>"

definition get_last_message_time :: "client_t \<Rightarrow> int" where
  "get_last_message_time ctx = last_message_time ctx"

definition need_timestamp :: "client_t \<Rightarrow> int \<Rightarrow> bool" where
  "need_timestamp ctx now =
     (let last_msg = get_last_message_time ctx;
          past = (last_msg > 0 \<and> now - last_msg \<ge> 300)
      in last_msg = 0 \<or> past)"

definition need_sender :: "client_t \<Rightarrow> byte list \<Rightarrow> int \<Rightarrow> bool" where
  "need_sender ctx name now =
     (c_string name USERNAME_MAX_LENGTH \<noteq> c_string (last_sender ctx) USERNAME_MAX_LENGTH \<or> need_timestamp ctx now)"

definition update_last_sender :: "client_t \<Rightarrow> byte list \<Rightarrow> int \<Rightarrow> client_t" where
  "update_last_sender ctx name now =
     (let copy = c_string name (USERNAME_MAX_LENGTH - 1)
      in ctx\<lparr>last_sender := copy @ replicate (USERNAME_MAX_LENGTH - length copy) 0, last_message_time := now\<rparr>)"

subsection \<open>Received wires\<close>

definition proc_file :: "client_env \<Rightarrow> client_t \<Rightarrow> msg_t \<Rightarrow> (bool \<times> client_t) c_result" where
  "proc_file env ctx fm =
     c_bind (file_msg_get_filename fm (replicate 4096 0)) (\<lambda>(named, filename).
     if \<not> named then Inr (False, ctx)
     else c_bind (file_msg_get_user fm (replicate FILE_USERNAME_LENGTH 0)) (\<lambda>(has_user, sender).
       if has_user then Inr (False, ctx)
       else c_bind (c_string_arg sender) (\<lambda>name.
         let ctx = show_event (Sender name (xhash_color sender) (need_timestamp ctx (clock env 0))) ctx
         in c_bind (msg_get_payload_length sizeof_file_msg_t fm) (\<lambda>filesize.
            let ctx = show_event (FileSent name (c_str filename) (drop_bit 10 filesize)) ctx
            in c_bind (file_msg_to_file (disk env) (files ctx) (Some fm) (home env)) (\<lambda>(ok, fs).
               let ctx = ctx\<lparr>files := fs\<rparr>
               in if \<not> ok then Inr (False, ctx) else Inr (True, reset_last_sender ctx))))))"

definition proc_stat :: "client_t \<Rightarrow> msg_t \<Rightarrow> (bool \<times> client_t) c_result" where
  "proc_stat ctx stat =
     (let ctx = reset_last_sender ctx
      in c_bind (msg_get_type stat) (\<lambda>type.
         c_bind (stat_msg_get_user stat (replicate USERNAME_MAX_LENGTH 0)) (\<lambda>(has_user, user).
         if \<not> has_user then Inr (False, ctx)
         else
           let aux = msg_get_data sizeof_stat_msg_t stat
           in if type = stat_msg_type_value STAT_USER_CONNECT then
                c_bind (c_string_arg user) (\<lambda>name. Inr (True, show_event (Online name) ctx))
              else if type = stat_msg_type_value STAT_USER_DISCONNECT then
                c_bind (c_string_arg user) (\<lambda>name. Inr (True, show_event (Offline name) ctx))
              else if type = stat_msg_type_value STAT_USER_RENAME then
                c_bind (c_string_arg user) (\<lambda>name.
                c_bind (c_string_arg aux) (\<lambda>new. Inr (True, show_event (Rename name new) ctx)))
              else Inr (True, ctx))))"

definition proc_text :: "client_env \<Rightarrow> client_t \<Rightarrow> msg_t \<Rightarrow> (bool \<times> client_t) c_result" where
  "proc_text env ctx text =
     c_bind (msg_get_type text) (\<lambda>type.
     if type \<noteq> TEXT_MSG_NORMAL then Inr (False, ctx)
     else c_bind (text_msg_get_user text (replicate USERNAME_MAX_LENGTH 0)) (\<lambda>(has_user, user).
       if \<not> has_user then Inr (False, ctx)
       else c_bind (if need_sender ctx user (clock env 0)
                    then c_bind (c_string_arg user) (\<lambda>name.
                         Inr (show_event (Sender name (xhash_color user) (need_timestamp ctx (clock env 1))) ctx))
                    else Inr ctx) (\<lambda>ctx.
            c_bind (c_string_arg (msg_get_data sizeof_text_msg_t text)) (\<lambda>aux.
            Inr (True, update_last_sender (show_event (Text aux) ctx) user (clock env 2))))))"

definition proc_ctrl :: "client_env \<Rightarrow> client_t \<Rightarrow> msg_t \<Rightarrow> (bool \<times> client_t) c_result" where
  "proc_ctrl env ctx msg =
     c_bind (msg_get_type msg) (\<lambda>type.
     c_bind (if type = ctrl_msg_type_value CTRL_DHKE
             then c_bind (ctrl_msg_get_cnt msg) (\<lambda>rounds.
                  c_bind (n_party_client (ring_secret env) (client_get_socket ctx) (unat rounds)) (\<lambda>(ok, key, sock).
                  Inr (ok, (case key of None \<Rightarrow> replicate 32 0 | Some k \<Rightarrow> k), ctx\<lparr>conn := sock\<rparr>)))
             else Inr (True, replicate 32 0, ctx)) (\<lambda>(ok, session_key, ctx).
     if \<not> ok then Inr (False, ctx)
     else c_bind (mem_read (msg_get_data sizeof_ctrl_msg_t msg) 0 KEY_LEN) (\<lambda>renewed_key.
       let ctx = client_set_keys ctx session_key renewed_key
       in if \<not> conn_announced ctx
          then announce_connection env ctx
          else Inr (True, ctx))))"

text \<open>The names of the types are looked up for the log before the \<^verbatim>\<open>switch\<close>.\<close>

definition handle_wire :: "client_env \<Rightarrow> client_t \<Rightarrow> wire_t \<Rightarrow> (bool \<times> client_t) c_result" where
  "handle_wire env ctx wire =
     (let type = wire_get_type wire
      in if type < 0 \<or> 6 \<le> type then Inl OutOfBounds
         else if type = wire_type_value TYPE_CTRL then proc_ctrl env ctx (wire_data wire)
         else if type = wire_type_value TYPE_FILE then proc_file env ctx (wire_data wire)
         else if type = wire_type_value TYPE_TEXT then proc_text env ctx (wire_data wire)
         else if type = wire_type_value TYPE_STAT then proc_stat ctx (wire_data wire)
         else Inr (False, ctx))"

subsection \<open>Threads\<close>

definition client_recv_cable :: "client_t \<Rightarrow> ((cable_t \<times> u64) option \<times> client_t) c_result" where
  "client_recv_cable ctx =
     c_bind (recv_cable (conn_rx (client_get_socket ctx))) (\<lambda>(cable, rx).
     Inr (cable, ctx\<lparr>conn := (conn ctx)\<lparr>conn_rx := rx\<rparr>\<rparr>))"

definition decrypt_cabled_wire :: "client_t \<Rightarrow> cable_t \<Rightarrow> wire_t option c_result" where
  "decrypt_cabled_wire ctx cable =
     c_bind (get_cabled_wire cable) (\<lambda>(bytes, len).
     c_bind (wire_of_bytes bytes) (\<lambda>wire.
     let (session_key, ctrl_key) = client_get_keys ctx
     in c_bind (decrypt_wire (Some wire) len session_key (Some ctrl_key)) (\<lambda>(ok, wire).
        Inr (if ok then Some wire else None))))"

text \<open>The flag says that the loop goes on. Without a cable the loop warns once and then uses
  the null pointer.\<close>

definition recv_step :: "client_env \<Rightarrow> client_t \<Rightarrow> (bool \<times> client_t) c_result" where
  "recv_step env ctx =
     c_bind (client_recv_cable ctx) (\<lambda>(cable, ctx).
       case cable of
         None \<Rightarrow> if keep_alive ctx then Inl NullDeref else Inr (False, ctx)
       | Some (cable, _) \<Rightarrow>
           c_bind (decrypt_cabled_wire ctx cable) (\<lambda>wire.
           case wire of
             None \<Rightarrow> Inr (True, ctx)
           | Some wire \<Rightarrow> c_bind (handle_wire env ctx wire) (\<lambda>(ok, ctx). Inr (True, ctx))))"

subsection \<open>Commands\<close>

definition cmd_username :: "client_env \<Rightarrow> client_t \<Rightarrow> (bool \<times> client_t) c_result" where
  "cmd_username env ctx =
     c_bind (client_init_stat_rename_wire env ctx (new_name env)) (\<lambda>wire.
     c_bind (transmit_wire ctx wire) (\<lambda>(ok, ctx).
     c_bind (mem_read (new_name env) 0 (new_name_len env)) (\<lambda>name.
     c_bind (mem_store (replicate USERNAME_MAX_LENGTH 0) 0 name) (\<lambda>name.
     Inr (ok, ctx\<lparr>username := name\<rparr>)))))"

definition cmd_send_file :: "client_env \<Rightarrow> client_t \<Rightarrow> (bool \<times> client_t) c_result" where
  "cmd_send_file env ctx =
     (if files ctx (c_str (file_path env)) = None then Inr (False, show_event (Note ''not found'') ctx)
      else c_bind (client_init_file_wire env ctx (file_path env)) (\<lambda>wire. transmit_wire ctx wire))"

definition cmd_exit :: "client_env \<Rightarrow> client_t \<Rightarrow> (bool \<times> client_t) c_result" where
  "cmd_exit env ctx =
     c_bind (client_init_stat_conn_wire env ctx STAT_USER_DISCONNECT) (\<lambda>wire.
     c_bind (transmit_wire ctx wire) (\<lambda>(ok, ctx). Inr (ok, ctx\<lparr>keep_alive := False\<rparr>)))"

datatype cmd_type_t =
    CMD_AMBIGUOUS | CMD_NONE | CMD_LIST | CMD_EXIT | CMD_USERNAME | CMD_ENC_INFO | CMD_FILE | CMD_CLEAR | CMD_VERSION

definition command_strings :: "(byte list \<times> cmd_type_t) list" where
  "command_strings =
     [(ascii ''/list'', CMD_LIST), (ascii ''/q'', CMD_EXIT), (ascii ''/username'', CMD_USERNAME),
      (ascii ''/encinfo'', CMD_ENC_INFO), (ascii ''/file'', CMD_FILE), (ascii ''/clear'', CMD_CLEAR),
      (ascii ''/version'', CMD_VERSION)]"

text \<open>\<^verbatim>\<open>strncmp\<close> with the length of the command is the test for a prefix.\<close>

fun parse_loop :: "byte list \<Rightarrow> (byte list \<times> cmd_type_t) list \<Rightarrow> cmd_type_t \<Rightarrow> cmd_type_t" where
  "parse_loop command [] cmd = cmd"
| "parse_loop command ((s, t) # rest) cmd =
     (if take (length command) s = command
      then if cmd \<noteq> CMD_NONE then CMD_AMBIGUOUS else parse_loop command rest t
      else parse_loop command rest cmd)"

definition parse_command :: "byte list \<Rightarrow> cmd_type_t" where
  "parse_command command = parse_loop (c_str command) command_strings CMD_NONE"

definition exec_cmd :: "client_env \<Rightarrow> client_t \<Rightarrow> byte list \<Rightarrow> (bool \<times> client_t) c_result" where
  "exec_cmd env ctx message =
     c_bind (case parse_command message of
               CMD_AMBIGUOUS \<Rightarrow> Inr (True, show_event (Note ''list'') (show_event (Note ''ambiguous'') ctx))
             | CMD_LIST \<Rightarrow> Inr (True, show_event (Note ''list'') ctx)
             | CMD_CLEAR \<Rightarrow> Inr (True, show_event (Note ''clear'') ctx)
             | CMD_VERSION \<Rightarrow> Inr (True, show_event (Note ''version'') ctx)
             | CMD_ENC_INFO \<Rightarrow> Inr (True, show_event (Note ''keys'') ctx)
             | CMD_EXIT \<Rightarrow> cmd_exit env ctx
             | CMD_USERNAME \<Rightarrow> cmd_username env ctx
             | CMD_FILE \<Rightarrow> cmd_send_file env ctx
             | CMD_NONE \<Rightarrow> Inr (True, ctx)) (\<lambda>(ok, ctx).
     Inr (ok, reset_last_sender ctx))"

definition SELF_SENDER :: "byte list" where
  "SELF_SENDER = ascii ''::self::'' @ [0]"

definition is_cmd :: "byte list \<Rightarrow> bool c_result" where
  "is_cmd msg = c_bind (mem_at msg 0) (\<lambda>c. Inr (c = 0x2f))"

text \<open>One line of input; the flag says that the loop goes on.\<close>

definition send_step :: "client_env \<Rightarrow> client_t \<Rightarrow> byte list \<Rightarrow> u64 \<Rightarrow> (bool \<times> client_t) c_result" where
  "send_step env ctx msg len =
     (if \<not> keep_alive ctx then Inr (False, ctx)
      else c_bind (is_cmd msg) (\<lambda>cmd.
        if cmd then c_bind (exec_cmd env ctx msg) (\<lambda>(ok, ctx). Inr (True, ctx))
        else c_bind (send_text_msg env ctx msg len) (\<lambda>(ok, ctx).
          if \<not> ok then Inr (True, ctx)
          else
            let ctx = (if need_sender ctx SELF_SENDER (clock env 0) then show_event (Note ''you'') ctx else ctx)
            in c_bind (c_string_arg msg) (\<lambda>text.
               Inr (True, update_last_sender (show_event (Text text) ctx) SELF_SENDER (clock env 1))))))"

subsection \<open>Connecting\<close>

text \<open>\<open>address_in\<close> and \<open>username_in\<close> are what \<^verbatim>\<open>xprompt\<close> returns: a buffer and a length.\<close>

definition prompt_args ::
  "byte list \<times> nat \<Rightarrow> byte list \<times> nat \<Rightarrow> byte list \<Rightarrow> byte list \<Rightarrow> (byte list \<times> byte list) c_result" where
  "prompt_args address_in username_in address user =
     c_bind (mem_at address 0) (\<lambda>a.
     c_bind (if a = 0
             then c_bind (mem_read (fst address_in) 0 (snd address_in)) (mem_store address 0)
             else Inr address) (\<lambda>address.
     c_bind (mem_at user 0) (\<lambda>u.
     c_bind (if u = 0
             then c_bind (mem_read (fst username_in) 0 (snd username_in)) (mem_store user 0)
             else Inr user) (\<lambda>user.
     Inr (address, user)))))"

record connect_env =
  node_socket :: int
  node_connect :: int
  node_close :: int

text \<open>The loop over the addresses: \<open>Some True\<close> is the \<^verbatim>\<open>break\<close>, \<open>Some False\<close> the early return.\<close>

fun connect_nodes :: "connect_env list \<Rightarrow> bool option" where
  "connect_nodes [] = None"
| "connect_nodes (node # nodes) =
     (if node_socket node < 0 then connect_nodes nodes
      else if node_connect node \<noteq> 0
           then if node_close node \<noteq> 0 then Some False else connect_nodes nodes
      else Some True)"

definition connect_server ::
  "int \<Rightarrow> connect_env list \<Rightarrow> byte list option \<Rightarrow> client_t \<Rightarrow> (bool \<times> client_t) c_result" where
  "connect_server getaddrinfo_ret nodes rand ctx =
     (if xstartup \<noteq> 0 then Inr (False, ctx)
      else if getaddrinfo_ret \<noteq> 0 then Inr (False, ctx)
      else if connect_nodes nodes \<noteq> Some True then Inr (False, ctx)
      else c_bind (two_party_client rand (conn ctx)) (\<lambda>(key, sock).
        let ctx = ctx\<lparr>conn := sock\<rparr>
        in case key of None \<Rightarrow> Inr (False, ctx) | Some key \<Rightarrow> Inr (True, ctx\<lparr>ctrl := key\<rparr>)))"

end
