(* ===== verification/Chat.thy ===== *)
theory Chat
  imports Client Key_Agreement "HOL-Library.Sublist"
begin

text \<open>
  The client of \<^theory_text>\<open>Client\<close> at work: what one client types is what another shows, and what
  the daemon sends when the group changes gives every client the new keys.
\<close>

subsection \<open>Sending and receiving wires\<close>

lemma transmit_wire_sends:
  assumes "wire_ok w" "unat (wire_get_length w) + 14 < 2 ^ 64" "sends_ok (conn ctx)"
  shows "\<exists>sealed c. transmit_wire ctx (Some w) = Inr (True, ctx\<lparr>conn := c\<rparr>) \<and> conn_rx c = conn_rx (conn ctx) \<and>
     outb c = outb (conn ctx) @ ascii ''parcel'' @ wire_unpack64 (14 + wire_get_length w) @ wire_bytes sealed \<and>
     wf_wire sealed \<and> unat (14 + wire_get_length w) = 14 + length (wire_bytes sealed) \<and>
     (\<forall>key2. decrypt_wire (Some sealed) (wire_get_length w) (session ctx) key2 = Inr (True, w\<lparr>auth := auth sealed\<rparr>))"
proof -
  obtain sealed where s: "encrypt_wire (Some w) (Some (session ctx)) = Inr (True, Some sealed)" "wf_wire sealed"
    "length (wire_bytes sealed) = unat (wire_get_length w)"
    using message_sealed[OF assms(1), of "session ctx" None] by blast
  then have d: "\<forall>key2. decrypt_wire (Some sealed) (wire_get_length w) (session ctx) key2 = Inr (True, w\<lparr>auth := auth sealed\<rparr>)"
    using message_sealed[OF assms(1), of "session ctx"] by fastforce
  let ?frame = "ascii ''parcel'' @ wire_unpack64 (14 + wire_get_length w) @ wire_bytes sealed"
  obtain c where c: "conn_send (conn ctx) ?frame = (True, c)" "conn_rx c = conn_rx (conn ctx)" "outb c = outb (conn ctx) @ ?frame"
    using conn_send_good[OF assms(3)] by blast
  have n: "unat (14 + wire_get_length w) = 14 + length (wire_bytes sealed)"
    using assms(2) s(3) by (simp add: unat_add_lem[THEN iffD1])
  have "init_cable (wire_bytes sealed) (wire_get_length w) = Inr (?frame, 14 + wire_get_length w)"
    using init_cable_bytes[of "wire_get_length w" "wire_bytes sealed"] assms(2) s(3) by simp
  then have "transmit_wire ctx (Some w) = Inr (True, ctx\<lparr>conn := c\<rparr>)"
    using s(1) c(1) n by (simp add: transmit_wire_def client_get_keys_def client_get_socket_def)
  with c s(2) d n show ?thesis by blast
qed

lemma recv_step_wire:
  assumes "inb (conn ctx) = ascii ''parcel'' @ wire_unpack64 n @ wire_bytes sealed @ rest"
    and "unat n = 14 + length (wire_bytes sealed)" "wf_wire sealed"
    and "decrypt_wire (Some sealed) (n - 14) (session ctx) (Some (ctrl ctx)) = Inr (True, w)"
  shows "\<exists>rx. rx_bytes rx = rest \<and> recv_step env ctx =
     c_bind (handle_wire env (ctx\<lparr>conn := (conn ctx)\<lparr>conn_rx := rx\<rparr>\<rparr>) w) (\<lambda>(ok, ctx). Inr (True, ctx))"
proof -
  obtain rx where "rx_bytes rx = rest"
    "recv_cable (conn_rx (conn ctx)) = Inr (Some (ascii ''parcel'' @ wire_unpack64 n @ wire_bytes sealed, n), rx)"
    using recv_cable_frame[OF assms(1,2)] by blast
  then show ?thesis
    using get_cabled_wire_frame[of n "wire_bytes sealed"] wire_of_bytes_inverse[OF assms(3)] assms(4)
    by (intro exI[of _ rx]) (simp add: recv_step_def client_recv_cable_def decrypt_cabled_wire_def client_get_keys_def client_get_socket_def)
qed

lemma wire_with_auth [simp]: "wire_get_type (w\<lparr>auth := x\<rparr>) = wire_get_type w" "wire_data (w\<lparr>auth := x\<rparr>) = wire_data w"
  by (simp_all add: wire_get_type_def)

definition framed :: "byte list \<Rightarrow> bool" where
  "framed frame \<longleftrightarrow> (\<exists>n body. frame = ascii ''parcel'' @ wire_unpack64 n @ body \<and> unat n = 14 + length body)"

lemma wire_delivery:
  assumes "wire_ok w" "unat (wire_get_length w) + 14 < 2 ^ 64" "sends_ok (conn a)"
  shows "\<exists>frame w' c. transmit_wire a (Some w) = Inr (True, a\<lparr>conn := c\<rparr>) \<and> conn_rx c = conn_rx (conn a) \<and>
     outb c = outb (conn a) @ frame \<and> framed frame \<and> wire_get_type w' = wire_get_type w \<and> wire_data w' = wire_data w \<and>
     (\<forall>env b rest. session b = session a \<and> inb (conn b) = frame @ rest \<longrightarrow>
       (\<exists>rx. rx_bytes rx = rest \<and> recv_step env b =
         c_bind (handle_wire env (b\<lparr>conn := (conn b)\<lparr>conn_rx := rx\<rparr>\<rparr>) w') (\<lambda>(ok, ctx). Inr (True, ctx))))"
proof -
  obtain sealed c where t: "transmit_wire a (Some w) = Inr (True, a\<lparr>conn := c\<rparr>)" "conn_rx c = conn_rx (conn a)"
    "outb c = outb (conn a) @ ascii ''parcel'' @ wire_unpack64 (14 + wire_get_length w) @ wire_bytes sealed" "wf_wire sealed"
    "unat (14 + wire_get_length w) = 14 + length (wire_bytes sealed)"
    "\<forall>key2. decrypt_wire (Some sealed) (wire_get_length w) (session a) key2 = Inr (True, w\<lparr>auth := auth sealed\<rparr>)"
    using transmit_wire_sends[OF assms] by blast
  let ?frame = "ascii ''parcel'' @ wire_unpack64 (14 + wire_get_length w) @ wire_bytes sealed"
  have "\<exists>rx. rx_bytes rx = rest \<and> recv_step env b =
      c_bind (handle_wire env (b\<lparr>conn := (conn b)\<lparr>conn_rx := rx\<rparr>\<rparr>) (w\<lparr>auth := auth sealed\<rparr>)) (\<lambda>(ok, ctx). Inr (True, ctx))"
    if "session b = session a" "inb (conn b) = ?frame @ rest" for env b rest
    using recv_step_wire[of b "14 + wire_get_length w" sealed rest "w\<lparr>auth := auth sealed\<rparr>"] that t(4-6) by simp
  moreover have "framed ?frame" using t(5) by (auto simp: framed_def)
  ultimately show ?thesis
    using t(1-3) by (intro exI[of _ ?frame] exI[of _ "w\<lparr>auth := auth sealed\<rparr>"] exI[of _ c]) simp
qed

subsection \<open>Names\<close>

lemma name_field_string: "c_string (name_field user) 63 = c_string user 63"
proof -
  have "length (c_string user 63) \<le> 63" by (rule length_c_string(1))
  then have "take 63 (name_field user) = c_string user 63 @ replicate (63 - length (c_string user 63)) 0"
    by (simp add: name_field_def)
  then have "c_string (name_field user) 63 =
      takeWhile (\<lambda>c. c \<noteq> 0) (c_string user 63 @ replicate (63 - length (c_string user 63)) 0)"
    by (simp add: c_string_def)
  also have "\<dots> = c_string user 63 @ takeWhile (\<lambda>c. c \<noteq> 0) (replicate (63 - length (c_string user 63)) 0)"
    using zero_notin_c_string[of user 63] by (intro takeWhile_append2) auto
  also have "takeWhile (\<lambda>c. c \<noteq> 0) (replicate (63 - length (c_string user 63)) (0 :: byte)) = []"
    by (cases "63 - length (c_string user 63)") simp_all
  finally show ?thesis by simp
qed

lemma name_field_idem: "name_field (name_field user) = name_field user"
  by (simp add: name_field_def[of "name_field user"] name_field_string) (simp add: name_field_def)

lemma client_get_username_field: "client_get_username ctx (replicate 64 0) = Inr (name_field (username ctx))"
proof -
  let ?c = "c_string (username ctx) 63"
  have c: "take (strnlen (username ctx) 63) (username ctx) = ?c" "strnlen (username ctx) 63 = length ?c"
    by (simp_all add: take_strnlen c_string_def) (simp add: strnlen_def)
  have le: "length ?c \<le> 63" by (rule length_c_string(1))
  obtain k where k: "64 - length ?c = Suc k" using le by (cases "64 - length ?c") auto
  have "mem_store (replicate 64 0) 0 ?c = Inr (?c @ 0 # replicate k 0)"
    using le k by (simp add: mem_store_def mem_write_def flip: replicate_Suc)
  moreover have "mem_store (?c @ 0 # replicate k 0) (length ?c) [0] = Inr (?c @ 0 # replicate k 0)"
    by (simp add: mem_store_def mem_write_def)
  moreover have "client_get_username ctx (replicate 64 0) =
      c_bind (mem_store (replicate 64 0) 0 ?c) (\<lambda>out. mem_store out (length ?c) [0])"
    unfolding client_get_username_def Let_def using c by simp
  ultimately show ?thesis using k by (simp add: name_field_def)
qed

lemma c_str_name_field: "c_str (name_field user) = c_string user 63" "0 \<in> set (name_field user)"
proof -
  obtain k where k: "64 - length (c_string user 63) = Suc k"
    using length_c_string(1)[of user 63] by (cases "64 - length (c_string user 63)") auto
  then show "c_str (name_field user) = c_string user 63" "0 \<in> set (name_field user)"
    using c_str_terminated(1)[OF zero_notin_c_string, of user 63 "replicate k 0"] by (simp_all add: name_field_def)
qed

lemma mem_write_name: "mem_write (replicate 64 0) 0 (c_string user 63) = name_field user"
  using length_c_string(1)[of user 63] by (simp add: mem_write_def name_field_def)

subsection \<open>Text\<close>

lemma c_str_padded: "0 \<notin> set text \<Longrightarrow> c_str (text @ replicate k 0) = text"
  by (cases k) (simp_all add: c_str_terminated)

lemma text_msg_prefix:
  assumes "unat len \<le> length body" "73 + unat len < 2 ^ 64"
  shows "text_msg_from_text user body len =
     Inr ([0] @ wire_unpack64 (73 + len) @ name_field user @ take (unat len) body)"
  using assms user_msg.init_msg_bytes[of len 0] user_msg.set_data[of "replicate 64 0" "replicate (unat len) 0" len body 0 "73 + len"]
    set_user_bytes(2)[of "replicate 64 0" 0 "73 + len" "take (unat len) body" user]
  by (simp add: text_msg_from_text_def)

lemma round_up_16: "(k + 15) div 16 * 16 - k = (16 - k mod 16) mod 16" for k :: nat
proof -
  define q r where "q = k div 16" and "r = k mod 16"
  have k: "k = 16 * q + r" "r < 16" by (simp_all add: q_def r_def)
  show ?thesis
  proof (cases "r = 0")
    case True
    then show ?thesis using k(1) by simp
  next
    case False
    have "(k + 15) div 16 = (r - 1 + 16 * (q + 1)) div 16" using k(1) False by simp
    then have "(k + 15) div 16 = q + 1" using k(2) by simp
    then show ?thesis using k False by simp
  qed
qed

lemma message_wire_padding:
  assumes "type \<noteq> TYPE_ERROR" "length r = 16" "unat len = length m" "length m \<le> 2 ^ 33"
  shows "\<exists>w. init_wire (Some r) type m len = Inr (Some w, 64 + get_aligned_len len) \<and> wire_ok w \<and>
     unat (wire_get_length w) + 14 < 2 ^ 64 \<and> wire_get_type w = wire_type_value type \<and>
     wire_data w = m @ replicate ((16 - length m mod 16) mod 16) 0"
proof -
  have le: "length m \<le> 2 ^ 64 - 80" using assms(4) by simp
  obtain w where w: "init_wire (Some r) type m len = Inr (Some w, 64 + get_aligned_len len)" "wire_ok w"
    "wire_get_length w = 64 + get_aligned_len len" "wire_get_type w = wire_type_value type"
    "length (wire_data w) = unat (get_aligned_len len)"
    "wire_data w = m @ replicate (length (wire_data w) - length m) 0"
    using init_wire_ok[OF assms(1-3) le] by blast
  have "unat len \<le> 2 ^ 64 - 16" using assms(3,4) by simp
  then have al: "unat (get_aligned_len len) = (length m + 15) div 16 * 16"
    by (simp only: get_aligned_len_no_wrap assms(3))
  have "length (wire_data w) - length m = (16 - length m mod 16) mod 16" unfolding w(5) al by (rule round_up_16)
  then have "wire_data w = m @ replicate ((16 - length m mod 16) mod 16) 0" using w(6) by (simp only:)
  moreover have "unat (get_aligned_len len) \<le> 2 ^ 33 + 15" unfolding al using assms(4) by simp
  then have "unat (wire_get_length w) + 14 < 2 ^ 64"
    unfolding w(3) by (subst unat_add_lem[THEN iffD1]) simp_all
  ultimately show ?thesis using w(1,2,4) by blast
qed

lemma client_text_wire:
  assumes "unat len \<le> length body" "unat len \<le> 2 ^ 32" "wire_iv env = Some r" "length r = 16"
  shows "\<exists>w. client_init_text_wire env ctx body len = Inr (Some w) \<and> wire_ok w \<and>
     unat (wire_get_length w) + 14 < 2 ^ 64 \<and> wire_get_type w = wire_type_value TYPE_TEXT \<and>
     wire_data w = [0] @ wire_unpack64 (73 + len) @ name_field (username ctx) @ take (unat len) body @
       replicate ((16 - (73 + unat len) mod 16) mod 16) 0"
proof -
  let ?m = "[0] @ wire_unpack64 (73 + len) @ name_field (username ctx) @ take (unat len) body"
  have m: "client_init_text_msg ctx body len = Inr ?m"
    using text_msg_prefix[OF assms(1)] assms(2)
    by (simp add: client_init_text_msg_def client_get_username_field name_field_idem)
  have n: "unat (73 + len) = length ?m" "length ?m = 73 + unat len"
    using assms(1,2) by (simp_all add: length_name_field unat_add_lem[THEN iffD1])
  have msg: "msg_get_wire_length ?m = Inr (73 + len)"
    using user_msg.fields(2)[of "name_field (username ctx)" 0 "73 + len" "take (unat len) body"] by (simp add: length_name_field)
  have "length ?m \<le> 2 ^ 33" using n(2) assms(1,2) by simp
  then obtain w where w: "init_wire (Some r) TYPE_TEXT ?m (73 + len) = Inr (Some w, 64 + get_aligned_len (73 + len))"
      "wire_ok w" "unat (wire_get_length w) + 14 < 2 ^ 64" "wire_get_type w = wire_type_value TYPE_TEXT"
      "wire_data w = ?m @ replicate ((16 - length ?m mod 16) mod 16) 0"
    using message_wire_padding[OF _ assms(4) n(1)] by blast
  have "client_init_text_wire env ctx body len = Inr (Some w)"
    unfolding client_init_text_wire_def m init_wire_from_text_msg_def assms(3) using msg w(1) by simp
  then show ?thesis using w(2-5) unfolding n(2) by auto
qed

lemma proc_text_shows:
  fixes n :: u64 and body :: "byte list"
  assumes "c_string user 63 \<noteq> []"
  defines "m \<equiv> [0] @ wire_unpack64 n @ name_field user @ body"
  shows "proc_text env ctx m =
     (if 0 \<in> set body
      then Inr (True, update_last_sender (ctx\<lparr>shown := shown ctx @
        (if need_sender ctx (name_field user) (clock env 0)
         then [Sender (c_string user 63) (xhash_color (name_field user)) (need_timestamp ctx (clock env 1))] else []) @
        [Text (c_str body)]\<rparr>) (name_field user) (clock env 2))
      else Inl OutOfBounds)"
proof -
  have f: "msg_get_type m = Inr 0" "msg_get_data 73 m = body"
    using user_msg.fields(1,4)[of "name_field user" 0 n body] by (simp_all add: m_def length_name_field)
  have u: "text_msg_get_user m (replicate 64 0) = Inr (True, name_field user)"
    using get_user_bytes(2)[of "replicate 64 0" 0 n user body] assms(1) by (simp add: m_def mem_write_name)
  show ?thesis
    using f u by (simp add: proc_text_def c_string_arg_def c_str_name_field)
qed


definition text_events :: "client_env \<Rightarrow> client_t \<Rightarrow> byte list \<Rightarrow> byte list \<Rightarrow> ui_event list" where
  "text_events env ctx user text =
     (if need_sender ctx (name_field user) (clock env 0)
      then [Sender (c_string user 63) (xhash_color (name_field user)) (need_timestamp ctx (clock env 1))] else []) @
     [Text text]"

lemma pad_empty: "(16 - (73 + k) mod 16) mod 16 = 0 \<longleftrightarrow> k mod 16 = 7" for k :: nat
proof -
  have "(16 - r) mod 16 = 0 \<longleftrightarrow> r = 0" if "r < 16" for r :: nat using that by (cases "r = 0") simp_all
  then have "(16 - (73 + k) mod 16) mod 16 = 0 \<longleftrightarrow> (73 + k) mod 16 = 0" by simp
  also have "\<dots> \<longleftrightarrow> k mod 16 = 7" by presburger
  finally show ?thesis .
qed

lemma text_delivery:
  assumes "0 \<notin> set text" "length text < 2 ^ 32" "c_string (username a) 63 \<noteq> []"
    and "wire_iv env = Some r" "length r = 16" "sends_ok (conn a)"
  shows "\<exists>c frame. send_text_msg env a (text @ 0 # slack) (of_nat (length text)) = Inr (True, a\<lparr>conn := c\<rparr>) \<and>
     outb c = outb (conn a) @ frame \<and> framed frame \<and>
     (\<forall>env' b rest. session b = session a \<and> inb (conn b) = frame @ rest \<longrightarrow>
       (if length text mod 16 = 7 then recv_step env' b = Inl OutOfBounds
        else \<exists>b'. recv_step env' b = Inr (True, b') \<and> inb (conn b') = rest \<and>
          shown b' = shown b @ text_events env' b (username a) text))"
proof -
  let ?n = "of_nat (length text) :: u64" and ?pad = "replicate ((16 - (73 + length text) mod 16) mod 16) (0 :: byte)"
  have n: "unat ?n = length text" using assms(2) by (simp add: unat_of_nat take_bit_nat_eq_self)
  obtain w where w: "client_init_text_wire env a (text @ 0 # slack) ?n = Inr (Some w)" "wire_ok w"
    "unat (wire_get_length w) + 14 < 2 ^ 64" "wire_get_type w = wire_type_value TYPE_TEXT"
    "wire_data w = [0] @ wire_unpack64 (73 + ?n) @ name_field (username a) @ text @ ?pad"
    using client_text_wire[of ?n "text @ 0 # slack" env r a] assms(2,4,5) by (auto simp: n)
  obtain frame w' c where d: "transmit_wire a (Some w) = Inr (True, a\<lparr>conn := c\<rparr>)" "outb c = outb (conn a) @ frame" "framed frame"
    "wire_get_type w' = wire_get_type w" "wire_data w' = wire_data w"
    "\<forall>env b rest. session b = session a \<and> inb (conn b) = frame @ rest \<longrightarrow>
       (\<exists>rx. rx_bytes rx = rest \<and> recv_step env b =
         c_bind (handle_wire env (b\<lparr>conn := (conn b)\<lparr>conn_rx := rx\<rparr>\<rparr>) w') (\<lambda>(ok, ctx). Inr (True, ctx)))"
    using wire_delivery[OF w(2,3) assms(6)] by blast
  have pad: "?pad = [] \<longleftrightarrow> length text mod 16 = 7" using pad_empty by simp
  then have z: "0 \<in> set (text @ ?pad) \<longleftrightarrow> length text mod 16 \<noteq> 7" using assms(1) by auto
  have c: "c_str (text @ ?pad) = text" by (rule c_str_padded[OF assms(1)])
  have "if length text mod 16 = 7 then recv_step env' b = Inl OutOfBounds
        else \<exists>b'. recv_step env' b = Inr (True, b') \<and> inb (conn b') = rest \<and>
          shown b' = shown b @ text_events env' b (username a) text"
    if b: "session b = session a" "inb (conn b) = frame @ rest" for env' b rest
  proof -
    obtain rx where rx: "rx_bytes rx = rest" "recv_step env' b =
        c_bind (handle_wire env' (b\<lparr>conn := (conn b)\<lparr>conn_rx := rx\<rparr>\<rparr>) w') (\<lambda>(ok, ctx). Inr (True, ctx))"
      using d(6) b by blast
    have h: "handle_wire env' ctx w' = proc_text env' ctx ([0] @ wire_unpack64 (73 + ?n) @ name_field (username a) @ text @ ?pad)" for ctx
      using d(4,5) w(4,5) by (simp add: handle_wire_def)
    show ?thesis
      unfolding rx(2) h proc_text_shows[OF assms(3)] z c
      by (auto simp: rx(1) update_last_sender_def text_events_def need_sender_def need_timestamp_def get_last_message_time_def Let_def)
  qed
  moreover have "send_text_msg env a (text @ 0 # slack) ?n = Inr (True, a\<lparr>conn := c\<rparr>)"
    using w(1) d(1) by (simp add: send_text_msg_def)
  ultimately show ?thesis using d(2,3) by (intro exI[of _ c] exI[of _ frame]) simp
qed

lemma send_step_text:
  assumes "keep_alive a" "0 \<notin> set text" "text \<noteq> []" "hd text \<noteq> 0x2f" "length text < 2 ^ 32" "c_string (username a) 63 \<noteq> []"
    and "wire_iv env = Some r" "length r = 16" "sends_ok (conn a)"
  shows "\<exists>a' frame. send_step env a (text @ 0 # slack) (of_nat (length text)) = Inr (True, a') \<and> last (shown a') = Text text \<and>
     outb (conn a') = outb (conn a) @ frame \<and> framed frame \<and>
     (\<forall>env' b rest. session b = session a \<and> inb (conn b) = frame @ rest \<longrightarrow>
       (if length text mod 16 = 7 then recv_step env' b = Inl OutOfBounds
        else \<exists>b'. recv_step env' b = Inr (True, b') \<and> inb (conn b') = rest \<and>
          shown b' = shown b @ text_events env' b (username a) text))"
proof -
  obtain c frame where d: "send_text_msg env a (text @ 0 # slack) (of_nat (length text)) = Inr (True, a\<lparr>conn := c\<rparr>)"
    "outb c = outb (conn a) @ frame" "framed frame"
    "\<forall>env' b rest. session b = session a \<and> inb (conn b) = frame @ rest \<longrightarrow>
       (if length text mod 16 = 7 then recv_step env' b = Inl OutOfBounds
        else \<exists>b'. recv_step env' b = Inr (True, b') \<and> inb (conn b') = rest \<and>
          shown b' = shown b @ text_events env' b (username a) text)"
    using text_delivery[OF assms(2) assms(5-9), of slack] by blast
  have "is_cmd (text @ 0 # slack) = Inr False" using assms(3,4) by (cases "text") (simp_all add: is_cmd_def)
  moreover have "c_string_arg (text @ 0 # slack) = Inr text" using assms(2) by (simp add: c_string_arg_def c_str_terminated)
  ultimately obtain a' where "send_step env a (text @ 0 # slack) (of_nat (length text)) = Inr (True, a')"
    "last (shown a') = Text text" "conn a' = c"
    using assms(1) d(1) by (simp add: send_step_def update_last_sender_def Let_def)
  then show ?thesis using d(2-4) by blast
qed

subsection \<open>Presence\<close>

lemma client_conn_wire:
  assumes "type \<in> {STAT_USER_CONNECT, STAT_USER_DISCONNECT}" "wire_iv env = Some r" "length r = 16"
  shows "\<exists>w. client_init_stat_conn_wire env ctx type = Inr (Some w) \<and> wire_ok w \<and>
     unat (wire_get_length w) + 14 < 2 ^ 64 \<and> wire_get_type w = wire_type_value TYPE_STAT \<and>
     wire_data w = [word_of_int (stat_msg_type_value type)] @ wire_unpack64 73 @ name_field (username ctx) @ replicate 7 0"
proof -
  let ?m = "[word_of_int (stat_msg_type_value type)] @ wire_unpack64 73 @ name_field (username ctx)"
  have msg: "msg_get_wire_length ?m = Inr 73" "length ?m = 73"
    using user_msg.fields(2)[of "name_field (username ctx)" "word_of_int (stat_msg_type_value type)" 73 "[]"]
    by (simp_all add: length_name_field)
  then obtain w where w: "init_wire (Some r) TYPE_STAT ?m 73 = Inr (Some w, 64 + get_aligned_len 73)"
      "wire_ok w" "unat (wire_get_length w) + 14 < 2 ^ 64" "wire_get_type w = wire_type_value TYPE_STAT"
      "wire_data w = ?m @ replicate ((16 - length ?m mod 16) mod 16) 0"
    using message_wire_padding[OF _ assms(3), of TYPE_STAT 73 ?m] by auto
  have "client_init_stat_conn_wire env ctx type = Inr (Some w)"
    using assms(1) msg(1) w(1)
    by (auto simp: client_init_stat_conn_wire_def client_get_username_field init_stat_conn_msg_bytes name_field_idem
        init_wire_from_stat_msg_def assms(2))
  then show ?thesis using w(2-5) unfolding msg(2) by (intro exI[of _ w]) simp
qed

lemma proc_stat_shows:
  assumes "c_string user 63 \<noteq> []"
  shows "proc_stat ctx ([0] @ wire_unpack64 n @ name_field user @ body) =
       Inr (True, show_event (Online (c_string user 63)) (reset_last_sender ctx))"
    and "proc_stat ctx ([1] @ wire_unpack64 n @ name_field user @ body) =
       Inr (True, show_event (Offline (c_string user 63)) (reset_last_sender ctx))"
  using assms user_msg.fields(1)[of "name_field user" _ n body] get_user_bytes(1)[of "replicate 64 0" _ n user body]
  by (simp_all add: proc_stat_def mem_write_name c_string_arg_def c_str_name_field length_name_field Let_def)

lemma announcement:
  assumes "wire_iv env = Some r" "length r = 16" "sends_ok (conn a)"
  shows "\<exists>frame c. announce_connection env a = Inr (True, a\<lparr>conn := c, conn_announced := True\<rparr>) \<and>
     conn_rx c = conn_rx (conn a) \<and> outb c = outb (conn a) @ frame \<and>
     (\<forall>env' b rest. session b = session a \<and> inb (conn b) = frame @ rest \<and> c_string (username a) 63 \<noteq> [] \<longrightarrow>
       (\<exists>b'. recv_step env' b = Inr (True, b') \<and> inb (conn b') = rest \<and>
          shown b' = shown b @ [Online (c_string (username a) 63)]))"
proof -
  obtain w where w: "client_init_stat_conn_wire env a STAT_USER_CONNECT = Inr (Some w)" "wire_ok w"
    "unat (wire_get_length w) + 14 < 2 ^ 64" "wire_get_type w = wire_type_value TYPE_STAT"
    "wire_data w = [0] @ wire_unpack64 73 @ name_field (username a) @ replicate 7 0"
    using client_conn_wire[OF _ assms(1,2), of STAT_USER_CONNECT a] by auto
  obtain frame w' c where d: "transmit_wire a (Some w) = Inr (True, a\<lparr>conn := c\<rparr>)" "conn_rx c = conn_rx (conn a)"
    "outb c = outb (conn a) @ frame" "wire_get_type w' = wire_get_type w" "wire_data w' = wire_data w"
    "\<forall>env b rest. session b = session a \<and> inb (conn b) = frame @ rest \<longrightarrow>
       (\<exists>rx. rx_bytes rx = rest \<and> recv_step env b =
         c_bind (handle_wire env (b\<lparr>conn := (conn b)\<lparr>conn_rx := rx\<rparr>\<rparr>) w') (\<lambda>(ok, ctx). Inr (True, ctx)))"
    using wire_delivery[OF w(2,3) assms(3)] by blast
  have h: "handle_wire env' ctx w' = proc_stat ctx ([0] @ wire_unpack64 73 @ name_field (username a) @ replicate 7 0)" for env' ctx
    using d(4,5) w(4,5) by (simp add: handle_wire_def)
  have "\<exists>b'. recv_step env' b = Inr (True, b') \<and> inb (conn b') = rest \<and>
      shown b' = shown b @ [Online (c_string (username a) 63)]"
    if b: "session b = session a" "inb (conn b) = frame @ rest" "c_string (username a) 63 \<noteq> []" for env' b rest
  proof -
    obtain rx where "rx_bytes rx = rest" "recv_step env' b =
        c_bind (handle_wire env' (b\<lparr>conn := (conn b)\<lparr>conn_rx := rx\<rparr>\<rparr>) w') (\<lambda>(ok, ctx). Inr (True, ctx))"
      using d(6) b by blast
    then show ?thesis unfolding h proc_stat_shows(1)[OF b(3)] by (simp add: reset_last_sender_def)
  qed
  moreover have "announce_connection env a = Inr (True, a\<lparr>conn := c, conn_announced := True\<rparr>)"
    using w(1) d(1) by (simp add: announce_connection_def)
  ultimately show ?thesis using d(2,3) by (intro exI[of _ frame] exI[of _ c]) simp
qed

subsection \<open>New keys\<close>

lemma conn_send_sends_ok: "sends_ok c \<Longrightarrow> sends_ok (snd (conn_send c bytes))"
  using xsendall_plan[of "conn_tx c" bytes] by (auto simp: sends_ok_def conn_send_def split: prod.splits)

lemma n_party_client_rounds_sends_ok:
  "n_party_client_rounds s c k = Inr (ok, key, c') \<Longrightarrow> sends_ok c \<Longrightarrow> sends_ok c'"
proof (induction k arbitrary: c ok key)
  case (Suc k)
  obtain r c1 where r: "ke_rcv c KEY_EX_INTERMEDIATE = Inr (r, c1)"
    using Suc.prems(1) by (cases "ke_rcv c KEY_EX_INTERMEDIATE") auto
  then have "conn_tx c1 = conn_tx c"
    by (auto simp: ke_rcv_def c_bind_eq_Inr Let_def split: if_splits)
  then have c1: "sends_ok c1" using Suc.prems(2) by (simp add: sends_ok_def)
  then have "sends_ok c2" if "ke_snd c1 KEY_EX_INTERMEDIATE m = (b, c2)" for m b c2
    using conn_send_sends_ok[of c1] that by (metis ke_snd_def snd_conv)
  with c1 show ?case
    using Suc.IH Suc.prems(1) r by (auto simp: Let_def split: if_splits option.splits prod.splits)
qed simp

lemma n_party_client_sends_ok:
  "n_party_client rand c k = Inr (ok, key, c') \<Longrightarrow> sends_ok c \<Longrightarrow> sends_ok c'"
  using conn_send_sends_ok[of c] n_party_client_rounds_sends_ok
  by (auto simp: n_party_client_def ke_snd_def Let_def split: prod.splits if_splits) (metis snd_conv)+

lemma decrypt_wire_either_key:
  assumes "decrypt_wire (Some sealed) len key None = Inr (True, w)"
    and "wire_verify_inner_mac (cmac_of key1) sealed \<Longrightarrow> key1 = key"
  shows "decrypt_wire (Some sealed) len key1 (Some key) = Inr (True, w)"
proof -
  have v: "wire_verify_inner_mac (cmac_of key) sealed"
    "decrypt_wire_verified (cipher_of sealed key) (cmac_of key) sealed len = Inr (True, w)"
    using decrypt_wire_tried_key[OF assms(1)] by simp_all
  show ?thesis
  proof (cases "key1 = key")
    case True
    then show ?thesis using v decrypt_wire_first_key by simp
  next
    case False
    then have "\<not> wire_verify_inner_mac (cmac_of key1) sealed" using assms(2) by blast
    then show ?thesis using v decrypt_wire_fallback by simp
  qed
qed

lemma rekey:
  fixes rounds :: u64
  assumes "unat rounds < 2 ^ 16" "length renewed = 32" "conn_announced ctx \<or> (wire_iv env = Some r \<and> length r = 16)"
    and "n_party_client (ring_secret env) (conn ctx) (unat rounds) = Inr (True, Some key, c)" "sends_ok (conn ctx)"
  shows "\<exists>announcement c'. proc_ctrl env ctx ([1] @ wire_unpack64 43 @ wire_unpack16 (ucast rounds) @ renewed @ pad) =
     Inr (True, ctx\<lparr>conn := c', session := key, ctrl := renewed, conn_announced := True\<rparr>) \<and>
     conn_rx c' = conn_rx c \<and> outb c' = outb c @ announcement \<and> (conn_announced ctx \<longrightarrow> announcement = [])"
proof -
  let ?m = "[1] @ wire_unpack64 43 @ wire_unpack16 (ucast rounds) @ renewed @ pad"
  have "unat (take_bit 16 rounds) = unat rounds"
    using assms(1) by (simp add: unsigned_take_bit_eq take_bit_nat_eq_self)
  then have m: "msg_get_type ?m = Inr 1" "take 32 (msg_get_data 11 ?m) = renewed"
    "ctrl_msg_get_cnt ?m = Inr (take_bit 16 rounds)" "unat (take_bit 16 rounds) = unat rounds"
    using ctrl_msg_fields[OF assms(2), of rounds pad] by simp_all
  have "length (take 32 (msg_get_data 11 ?m)) = 32" unfolding m(2) by (rule assms(2))
  then have "32 \<le> length (msg_get_data 11 ?m)" unfolding length_take by linarith
  then have p: "proc_ctrl env ctx ?m =
      (let ctx' = ctx\<lparr>conn := c, session := key, ctrl := renewed\<rparr>
       in if conn_announced ctx then Inr (True, ctx') else announce_connection env ctx')"
    using m assms(4) by (simp add: proc_ctrl_def client_get_socket_def client_set_keys_def Let_def del: append.simps)
  show ?thesis
  proof (cases "conn_announced ctx")
    case True
    then show ?thesis unfolding p by (intro exI[of _ "[]"] exI[of _ c]) simp
  next
    case False
    let ?ctx = "ctx\<lparr>conn := c, session := key, ctrl := renewed\<rparr>"
    have "sends_ok (conn ?ctx)" using n_party_client_sends_ok[OF assms(4,5)] by simp
    then obtain frame c' where "announce_connection env ?ctx = Inr (True, ?ctx\<lparr>conn := c', conn_announced := True\<rparr>)"
      "conn_rx c' = conn_rx c" "outb c' = outb c @ frame"
      using announcement[of env r ?ctx] assms(3) False by auto
    then show ?thesis using False unfolding p by (intro exI[of _ frame] exI[of _ c']) simp
  qed
qed

text \<open>A client in front of a control cable and the keys relayed after it: it holds the control
  key, it can announce itself if it has to, and its old session key does not happen to
  verify the control wire.\<close>

definition rekey_ready :: "client_env \<Rightarrow> client_t \<Rightarrow> byte list \<Rightarrow> byte list \<Rightarrow> byte list \<Rightarrow> bool" where
  "rekey_ready env ctx ctrl_key cable relay \<longleftrightarrow>
     ctrl ctx = ctrl_key \<and> inb (conn ctx) = cable @ relay \<and> sends_ok (conn ctx) \<and>
     (conn_announced ctx \<or> (\<exists>r. wire_iv env = Some r \<and> length r = 16)) \<and>
     (\<forall>sealed. wire_of_bytes (drop 14 cable) = Inr sealed \<longrightarrow>
        wire_verify_inner_mac (cmac_of (session ctx)) sealed \<longrightarrow> session ctx = ctrl_key)"

text \<open>One iteration of the receiving loop ends with the new keys, everything read, the keys of
  the ring sent, and, behind them, the announcement of a client not yet announced.\<close>

definition rekeyed :: "client_env \<Rightarrow> client_t \<Rightarrow> byte list \<Rightarrow> byte list \<Rightarrow> byte list \<Rightarrow> bool" where
  "rekeyed env ctx key renewed ring \<longleftrightarrow>
     (\<exists>ctx' announcement. recv_step env ctx = Inr (True, ctx') \<and> session ctx' = key \<and> ctrl ctx' = renewed \<and>
        conn_announced ctx' \<and> inb (conn ctx') = [] \<and> outb (conn ctx') = outb (conn ctx) @ ring @ announcement \<and>
        (conn_announced ctx \<longrightarrow> announcement = []))"

lemma recv_step_rekeys:
  fixes rounds :: u64
  assumes "init_ctrl_key_cable (Some r) rounds renewed ctrl_key = Inr cable" "length r = 16" "length renewed = 32"
    and "unat rounds < 2 ^ 16" "rekey_ready env ctx ctrl_key cable relay"
    and "\<And>c. sends_ok c \<Longrightarrow> inb c = relay \<Longrightarrow>
          \<exists>c'. n_party_client (ring_secret env) c (unat rounds) = Inr (True, Some key, c') \<and> inb c' = [] \<and>
               outb c' = outb c @ ring"
  shows "rekeyed env ctx key renewed ring"
proof -
  have ctx: "ctrl ctx = ctrl_key" "inb (conn ctx) = cable @ relay" "sends_ok (conn ctx)"
    "\<forall>sealed. wire_of_bytes (drop 14 cable) = Inr sealed \<longrightarrow>
        wire_verify_inner_mac (cmac_of (session ctx)) sealed \<longrightarrow> session ctx = ctrl_key"
    using assms(5) by (simp_all add: rekey_ready_def)
  obtain r' where r': "conn_announced ctx \<or> wire_iv env = Some r' \<and> length r' = 16"
    using assms(5) by (auto simp: rekey_ready_def)
  obtain w sealed n pad where f: "cable = ascii ''parcel'' @ wire_unpack64 n @ wire_bytes sealed"
    "unat n = 14 + length (wire_bytes sealed)" "wf_wire sealed" 
    "decrypt_wire (Some sealed) (n - 14) ctrl_key None = Inr (True, w)" "wire_get_type w = wire_type_value TYPE_CTRL"
    "wire_data w = [1] @ wire_unpack64 43 @ wire_unpack16 (ucast rounds) @ renewed @ pad"
    using ctrl_key_cable_bytes[OF assms(2,3), of rounds ctrl_key None] assms(1) by auto
  have "wire_of_bytes (drop 14 cable) = Inr sealed" using f(1) wire_of_bytes_inverse[OF f(3)] by simp
  then have "decrypt_wire (Some sealed) (n - 14) (session ctx) (Some (ctrl ctx)) = Inr (True, w)"
    using decrypt_wire_either_key[OF f(4)] ctx(1,4) by blast
  then obtain rx where rx: "rx_bytes rx = relay" "recv_step env ctx =
      c_bind (handle_wire env (ctx\<lparr>conn := (conn ctx)\<lparr>conn_rx := rx\<rparr>\<rparr>) w) (\<lambda>(ok, ctx). Inr (True, ctx))"
    using recv_step_wire[of ctx n sealed relay w env] ctx(2) f(1-3) by auto
  let ?ctx = "ctx\<lparr>conn := (conn ctx)\<lparr>conn_rx := rx\<rparr>\<rparr>"
  have s: "sends_ok (conn ?ctx)" using ctx(3) by (simp add: sends_ok_def)
  then obtain c where c: "n_party_client (ring_secret env) (conn ?ctx) (unat rounds) = Inr (True, Some key, c)"
    "inb c = []" "outb c = outb (conn ctx) @ ring"
    using assms(6)[of "conn ?ctx"] rx(1) by auto
  have "conn_announced ?ctx \<or> wire_iv env = Some r' \<and> length r' = 16" using r' by simp
  from rekey[OF assms(4,3) this c(1) s, of pad] obtain announcement c' where
    "proc_ctrl env ?ctx (wire_data w) =
       Inr (True, ?ctx\<lparr>conn := c', session := key, ctrl := renewed, conn_announced := True\<rparr>)"
    "conn_rx c' = conn_rx c" "outb c' = outb c @ announcement" "conn_announced ctx \<longrightarrow> announcement = []"
    unfolding f(6) by auto
  then show ?thesis
    using rx(2) c(2,3) f(5) by (auto simp: handle_wire_def rekeyed_def)
qed

subsection \<open>Commands\<close>

lemma parse_loop_prefix:
  assumes "\<forall>(name, c) \<in> set names. c \<noteq> CMD_NONE"
  shows "parse_loop x names cmd =
    (case filter (\<lambda>(name, cmd). prefix x name) names of
       [] \<Rightarrow> cmd | (name, c) # others \<Rightarrow> if cmd = CMD_NONE \<and> others = [] then c else CMD_AMBIGUOUS)"
  using assms
proof (induction names arbitrary: cmd)
  case (Cons nc names)
  obtain name c where nc: "nc = (name, c)" by fastforce
  have "take (length x) name = x \<longleftrightarrow> prefix x name" by (metis append_eq_conv_conj append_take_drop_id prefix_def)
  then show ?case using Cons nc by (auto split: list.splits)
qed simp

subsection \<open>Properties\<close>

text \<open>A client for the examples.\<close>

definition example_client :: client_t where
  "example_client = \<lparr>conn = \<lparr>conn_rx = [], conn_tx = \<lparr>plan = [], sent = []\<rparr>\<rparr>, username = ascii ''ada'' @ [0],
     session = replicate 32 4, ctrl = replicate 32 4, conn_announced = True, keep_alive = True,
     last_sender = replicate 64 0, last_message_time = 0, files = Map.empty, shown = []\<rparr>"

definition example_client_env :: client_env where
  "example_client_env = \<lparr>wire_iv = Some (replicate 16 7), ring_secret = Some (replicate 32 1), clock = \<lambda>_. 1, home = None,
     
     disk = \<lparr>can_open = \<lambda>_. True, created = \<lparr>contents = [], file_gid = 0, file_uid = 0, file_mode = 0\<rparr>, written = \<lambda>n. n, close_ok = True, chmod_ok = True\<rparr>,
     new_name = [], new_name_len = 0, file_path = []\<rparr>"

lemma example_client_ready:
  "c_string (username example_client) 63 \<noteq> []" "wire_iv example_client_env = Some (replicate 16 7)"
  "sends_ok (conn example_client)"
  by (simp_all add: example_client_def example_client_env_def ascii_def c_string_def sends_ok_def)

text \<open>C14: text delivery. What a client with a name sends with \<^verbatim>\<open>send_text_msg\<close>, another client that
  has the same session key and finds those bytes in its socket, in any segmentation,
  shows: one iteration of its receiving loop takes exactly these bytes and prints the
  text unchanged, after the sender's name when it changed or enough time passed. The
  length of the text is not 7 modulo 16.\<close>

theorem text_message_delivered:
  assumes "0 \<notin> set text" "length text < 2 ^ 32" "length text mod 16 \<noteq> 7" "c_string (username a) 63 \<noteq> []"
    and "wire_iv env = Some r" "length r = 16" "sends_ok (conn a)"
  shows "\<exists>c frame. send_text_msg env a (text @ 0 # slack) (of_nat (length text)) = Inr (True, a\<lparr>conn := c\<rparr>) \<and>
     outb c = outb (conn a) @ frame \<and>
     (\<forall>env' b rest. session b = session a \<and> inb (conn b) = frame @ rest \<longrightarrow>
       (\<exists>b'. recv_step env' b = Inr (True, b') \<and> inb (conn b') = rest \<and>
          shown b' = shown b @ text_events env' b (username a) text))"
  using text_delivery[OF assms(1,2,4-7), of slack] assms(3) by auto

theorem text_message_delivered_witness:
  "\<exists>a' b b'. send_text_msg example_client_env example_client (ascii ''hello'' @ [0]) 5 = Inr (True, a') \<and>
     session b = session example_client \<and> inb (conn b) = outb (conn a') \<and> shown b = [] \<and>
     recv_step example_client_env b = Inr (True, b') \<and> inb (conn b') = [] \<and>
     shown b' = text_events example_client_env b (username example_client) (ascii ''hello'')"
proof -
  have "0 \<notin> set (ascii ''hello'')" by (simp add: ascii_def)
  with text_message_delivered[OF _ _ _ example_client_ready(1,2) _ example_client_ready(3), of "ascii ''hello''" "[]"]
  obtain c frame where
    s: "send_text_msg example_client_env example_client (ascii ''hello'' @ [0]) 5 = Inr (True, example_client\<lparr>conn := c\<rparr>)"
      "outb c = outb (conn example_client) @ frame"
      "\<forall>env' b rest. session b = session example_client \<and> inb (conn b) = frame @ rest \<longrightarrow>
       (\<exists>b'. recv_step env' b = Inr (True, b') \<and> inb (conn b') = rest \<and>
          shown b' = shown b @ text_events env' b (username example_client) (ascii ''hello''))"
    by auto
  let ?b = "example_client\<lparr>conn := \<lparr>conn_rx = [Segment frame], conn_tx = \<lparr>plan = [], sent = []\<rparr>\<rparr>\<rparr>"
  have "session ?b = session example_client \<and> inb (conn ?b) = frame @ []" by simp
  with s(3) obtain b' where "recv_step example_client_env ?b = Inr (True, b')" "inb (conn b') = []"
    "shown b' = shown ?b @ text_events example_client_env ?b (username example_client) (ascii ''hello'')" by blast
  then show ?thesis using s(1,2)
    by (intro exI[of _ "example_client\<lparr>conn := c\<rparr>"] exI[of _ ?b] exI[of _ b']) (simp add: example_client_def)
qed

text \<open>C29: over-read. When the length of the text is 7 modulo 16 the message fills the blocks of
  the wire exactly, no padding byte ends the text, and the receiving client's
  \<^verbatim>\<open>printf("%s")\<close> reads beyond the wire.\<close>

theorem text_message_overread:
  assumes "0 \<notin> set text" "length text < 2 ^ 32" "length text mod 16 = 7" "c_string (username a) 63 \<noteq> []"
    and "wire_iv env = Some r" "length r = 16" "sends_ok (conn a)"
  shows "\<exists>c frame. send_text_msg env a (text @ 0 # slack) (of_nat (length text)) = Inr (True, a\<lparr>conn := c\<rparr>) \<and>
     outb c = outb (conn a) @ frame \<and>
     (\<forall>env' b rest. session b = session a \<and> inb (conn b) = frame @ rest \<longrightarrow> recv_step env' b = Inl OutOfBounds)"
  using text_delivery[OF assms(1,2,4-7), of slack] assms(3) by auto

theorem text_message_overread_witness:
  "\<exists>a' b. send_text_msg example_client_env example_client (ascii ''goodbye'' @ [0]) 7 = Inr (True, a') \<and>
     session b = session example_client \<and> inb (conn b) = outb (conn a') \<and>
     recv_step example_client_env b = Inl OutOfBounds"
proof -
  have "0 \<notin> set (ascii ''goodbye'')" by (simp add: ascii_def)
  with text_message_overread[OF _ _ _ example_client_ready(1,2) _ example_client_ready(3), of "ascii ''goodbye''" "[]"]
  obtain c frame where
    s: "send_text_msg example_client_env example_client (ascii ''goodbye'' @ [0]) 7 = Inr (True, example_client\<lparr>conn := c\<rparr>)"
      "outb c = outb (conn example_client) @ frame"
      "\<forall>env' b rest. session b = session example_client \<and> inb (conn b) = frame @ rest \<longrightarrow>
         recv_step env' b = Inl OutOfBounds"
    by auto
  let ?b = "example_client\<lparr>conn := \<lparr>conn_rx = [Segment frame], conn_tx = \<lparr>plan = [], sent = []\<rparr>\<rparr>\<rparr>"
  have "session ?b = session example_client \<and> inb (conn ?b) = frame @ []" by simp
  with s show ?thesis
    by (intro exI[of _ "example_client\<lparr>conn := c\<rparr>"] exI[of _ ?b]) (simp add: example_client_def)
qed

text \<open>C4: the group gets new keys. When the daemon runs \<^verbatim>\<open>n_party_server\<close> over two or more clients in
  its slots whose secrets commute, one iteration of every client's receiving loop, on
  exactly the bytes the daemon sent to its slot, ends with the same session key for
  all and with the renewed control key, and sent what the daemon read from it.\<close>

theorem group_rekey:
  fixes rand :: "nat \<Rightarrow> byte list option"
  defines "secrets \<equiv> \<lambda>i. point_d (rand i)"
  assumes "2 \<le> n" "n \<le> 2 ^ 16" "exchange_commutes (secrets ` {1..n})" "length rand_iv = 16" "length renewed = 32"
    and "slots_are net sockets n (\<lambda>i. ring_stream (ring_key n secrets i) (n - 1)) outs"
  shows "\<exists>net' cable session_key.
    n_party_server (Some renewed) (Some rand_iv) net sockets n ctrl_key = Inr (True, renewed, net') \<and>
    (\<forall>i \<in> {1..n}. \<exists>relay. outb (net' (sockets ! i)) = outs i @ cable @ relay \<and>
      (\<forall>env ctx. rekey_ready env ctx ctrl_key cable relay \<and> ring_secret env = rand i \<longrightarrow>
         rekeyed env ctx session_key renewed (inb (net (sockets ! i)))))"
proof -
  obtain cable net' session_key where s:
    "init_ctrl_key_cable (Some rand_iv) (of_nat n - 1) renewed ctrl_key = Inr cable"
    "n_party_server (Some renewed) (Some rand_iv) net sockets n ctrl_key = Inr (True, renewed, net')"
    "\<forall>i \<in> {1..n}. \<exists>relay. outb (net' (sockets ! i)) = outs i @ cable @ relay \<and>
      (\<forall>c. sends_ok c \<and> inb c = relay \<longrightarrow>
        (\<exists>c'. n_party_client (rand i) c (n - 1) = Inr (True, Some session_key, c') \<and> inb c' = [] \<and>
              outb c' = outb c @ inb (net (sockets ! i))))"
    using n_party_exchange[of n rand rand_iv renewed net sockets outs ctrl_key] assms(2,4-7) unfolding secrets_def by blast
  have n: "unat (of_nat n - 1 :: u64) = n - 1" "n - 1 < 2 ^ 16"
    using assms(2,3) unat_of_nat[of "n - 1", where 'a = 64] by (simp_all add: of_nat_diff take_bit_nat_eq_self)
  have "rekeyed env ctx session_key renewed (inb (net (sockets ! i)))"
    if "\<forall>c. sends_ok c \<and> inb c = relay \<longrightarrow>
        (\<exists>c'. n_party_client (rand i) c (n - 1) = Inr (True, Some session_key, c') \<and> inb c' = [] \<and>
              outb c' = outb c @ inb (net (sockets ! i)))"
      "rekey_ready env ctx ctrl_key cable relay" "ring_secret env = rand i" for i relay env ctx
    by (rule recv_step_rekeys[OF s(1) assms(5,6) _ that(2)]) (use n that(1,3) in simp_all)
  with s(3) have "\<forall>i \<in> {1..n}. \<exists>relay. outb (net' (sockets ! i)) = outs i @ cable @ relay \<and>
      (\<forall>env ctx. rekey_ready env ctx ctrl_key cable relay \<and> ring_secret env = rand i \<longrightarrow>
         rekeyed env ctx session_key renewed (inb (net (sockets ! i))))" by blast
  with s(2) show ?thesis by blast
qed

theorem group_rekey_witness:
  "\<exists>net net' session_key. let sockets = [3, 5, 6] in
     n_party_server (Some (replicate 32 9)) (Some (replicate 16 7)) net sockets 2 (replicate 32 4) =
       Inr (True, replicate 32 9, net') \<and>
     (\<forall>i \<in> {1..2}. \<exists>ctx. inb (conn ctx) = outb (net' (sockets ! i)) \<and>
        rekeyed example_client_env ctx session_key (replicate 32 9) (inb (net (sockets ! i))))"
proof -
  let ?rand = "\<lambda>_ :: nat. Some (replicate 32 1) :: byte list option" and ?s = "[3, 5, 6] :: int list"
  let ?sec = "\<lambda>i :: nat. point_d (?rand i)" and ?tx = "\<lparr>plan = [Takes 5], sent = []\<rparr>"
  define net :: net_t where
    "net fd = \<lparr>conn_rx = [Segment (ring_stream (ring_key 2 ?sec (nat fd - 4)) 1)], conn_tx = ?tx\<rparr>" for fd
  have two: "{1..2} = {1, 2 :: nat}" by auto
  have "slots_are net ?s 2 (\<lambda>i. ring_stream (ring_key 2 ?sec i) (2 - 1)) (\<lambda>_. [])"
    unfolding slots_are_def two by (auto simp: net_def sends_ok_def inj_on_def)
  moreover have "exchange_commutes (?sec ` {1..2})" by (simp add: exchange_commutes_def)
  ultimately obtain net' cable session_key where s:
    "n_party_server (Some (replicate 32 9)) (Some (replicate 16 7)) net ?s 2 (replicate 32 4) =
       Inr (True, replicate 32 9, net')"
    "\<forall>i \<in> {1..2}. \<exists>relay. outb (net' (?s ! i)) = [] @ cable @ relay \<and>
      (\<forall>env ctx. rekey_ready env ctx (replicate 32 4) cable relay \<and> ring_secret env = ?rand i \<longrightarrow>
         rekeyed env ctx session_key (replicate 32 9) (inb (net (?s ! i))))"
    using group_rekey[of 2 ?rand "replicate 16 7" "replicate 32 9" net ?s "\<lambda>_. []" "replicate 32 4"] by auto
  have "\<exists>ctx. inb (conn ctx) = outb (net' (?s ! i)) \<and>
      rekeyed example_client_env ctx session_key (replicate 32 9) (inb (net (?s ! i)))" if i: "i \<in> {1..2}" for i
  proof -
    obtain relay where relay: "outb (net' (?s ! i)) = [] @ cable @ relay"
      "\<forall>env ctx. rekey_ready env ctx (replicate 32 4) cable relay \<and> ring_secret env = ?rand i \<longrightarrow>
         rekeyed env ctx session_key (replicate 32 9) (inb (net (?s ! i)))" using s(2) i by blast
    let ?ctx = "example_client\<lparr>conn := \<lparr>conn_rx = [Segment (cable @ relay)], conn_tx = ?tx\<rparr>\<rparr>"
    have "rekey_ready example_client_env ?ctx (replicate 32 4) cable relay \<and> ring_secret example_client_env = ?rand i"
      by (simp add: rekey_ready_def example_client_def example_client_env_def sends_ok_def)
    with relay(2) have "rekeyed example_client_env ?ctx session_key (replicate 32 9) (inb (net (?s ! i)))" by blast
    then show ?thesis using relay(1) by (intro exI[of _ ?ctx]) simp
  qed
  with s(1) show ?thesis unfolding Let_def by blast
qed

text \<open>C37: commands. \<^verbatim>\<open>parse_command\<close> finds the command whose name the input abbreviates: with exactly
  one name that has the input as a prefix its command, with several the ambiguity, with
  none \<^verbatim>\<open>CMD_NONE\<close>. The name for leaving is \<^verbatim>\<open>/q\<close>; \<^verbatim>\<open>/x\<close>, which the manual gives for it, is no command.\<close>

theorem parse_command_prefix:
  "parse_command input =
     (case filter (\<lambda>(name, cmd). prefix (c_str input) name) command_strings of
        [] \<Rightarrow> CMD_NONE | [(name, cmd)] \<Rightarrow> cmd | _ \<Rightarrow> CMD_AMBIGUOUS) \<and>
   parse_command (ascii ''/q'' @ [0]) = CMD_EXIT \<and> parse_command (ascii ''/x'' @ [0]) = CMD_NONE"
proof (intro conjI)
  have "\<forall>(name, c) \<in> set command_strings. c \<noteq> CMD_NONE" by (simp add: command_strings_def)
  then show "parse_command input =
     (case filter (\<lambda>(name, cmd). prefix (c_str input) name) command_strings of
        [] \<Rightarrow> CMD_NONE | [(name, cmd)] \<Rightarrow> cmd | _ \<Rightarrow> CMD_AMBIGUOUS)"
    unfolding parse_command_def by (subst parse_loop_prefix) (auto split: list.splits)
  show "parse_command (ascii ''/q'' @ [0]) = CMD_EXIT" by code_simp
  show "parse_command (ascii ''/x'' @ [0]) = CMD_NONE" by code_simp
qed

text \<open>C30: a lost connection. While the client runs, fourteen bytes without the signature make its
  receiving loop warn and then use the cable it did not get: a null pointer.\<close>

theorem bad_frame_crashes_client:
  assumes "inb (conn ctx) = hdr @ rest" "length hdr = 14" "take 6 hdr \<noteq> ascii ''parcel''" "keep_alive ctx"
  shows "recv_step env ctx = Inl NullDeref"
  using recv_cable_bad_header[OF assms(1-3)] assms(4) by (auto simp: recv_step_def client_recv_cable_def client_get_socket_def)

theorem bad_frame_crashes_client_witness:
  "recv_step example_client_env (example_client\<lparr>conn := \<lparr>conn_rx = [Segment (replicate 14 0)], conn_tx = \<lparr>plan = [], sent = []\<rparr>\<rparr>\<rparr>) =
     Inl NullDeref"
  by (rule bad_frame_crashes_client[where hdr = "replicate 14 0" and rest = "[]"])
    (simp, simp, code_simp, simp add: example_client_def)

end
