(* ===== verification/Console.thy ===== *)
theory Console
  imports Utf8 Slice Utils
begin

text \<open>
  The line editor of \<^verbatim>\<open>common/console.c\<close> over the terminal functions of
  \<^verbatim>\<open>common/xplatform.c\<close>.

  \<^item> \<open>tty_t\<close> is the terminal: what \<^verbatim>\<open>read\<close> will see on the standard input, how \<^verbatim>\<open>write\<close>
    answers with the bytes written so far, the terminal attributes with the answers of the calls that
    read and set them, and the width \<^verbatim>\<open>ioctl\<close> reports, \<open>None\<close> when it fails. Setting the attributes
    discards pending input, which is then not among what \<^verbatim>\<open>read\<close> will see.
  \<^item> \<open>line_t\<close> is the struct; \<open>line\<close> is the memory allocated for the line, so that
    \<^verbatim>\<open>line_allocation\<close> is its length. Byte offsets and sizes are natural numbers, whose sums
    cannot wrap because they index this memory; their differences are taken modulo
    \<open>2 ^ 64\<close>. Rows and columns are \<^verbatim>\<open>size_t\<close>.
  \<^item> A failed write in \<^verbatim>\<open>flush_console\<close> ends the program.
\<close>

record console_t =
  c_iflag :: u32
  c_lflag :: u32
  c_cflag :: u32
  c_vmin :: byte
  c_vtime :: byte

record attr_t =
  tc_mode :: console_t
  tc_plan :: "int list"

record tty_t =
  tty_in :: "recv_event list"
  tty_out :: tx_t
  tty_attr :: attr_t
  tty_winsize :: "u16 option"

record line_t =
  prompt :: "byte list"
  prompt_len :: u64
  prompt_size :: nat
  line :: "byte list"
  line_len :: u64
  line_size :: nat
  row :: u64
  offset :: nat
  column :: u64
  rendered_column :: u64
  console_width :: u64

datatype cursor_direction =
  MOVE_UP | MOVE_DOWN | MOVE_RIGHT | MOVE_LEFT | MOVE_HOME | MOVE_END | JUMP_FORWARD | JUMP_BACKWARD

primrec cursor_direction_value :: "cursor_direction \<Rightarrow> nat" where
  "cursor_direction_value MOVE_UP = 0"
| "cursor_direction_value MOVE_DOWN = 1"
| "cursor_direction_value MOVE_RIGHT = 2"
| "cursor_direction_value MOVE_LEFT = 3"
| "cursor_direction_value MOVE_HOME = 4"
| "cursor_direction_value MOVE_END = 5"
| "cursor_direction_value JUMP_FORWARD = 6"
| "cursor_direction_value JUMP_BACKWARD = 7"

abbreviation (input) ESC :: byte where "ESC \<equiv> 27"
abbreviation (input) BACKSPACE :: byte where "BACKSPACE \<equiv> 127"
abbreviation (input) ENTER :: byte where "ENTER \<equiv> 13"
abbreviation (input) TAB :: byte where "TAB \<equiv> 9"

definition size_sub :: "nat \<Rightarrow> nat \<Rightarrow> nat" where
  "size_sub a b = (a + (2 ^ 64 - b)) mod 2 ^ 64"

definition memmove :: "byte list \<Rightarrow> nat \<Rightarrow> nat \<Rightarrow> nat \<Rightarrow> byte list c_result" where
  "memmove mem dst src n = c_bind (mem_read mem src n) (mem_store mem dst)"

subsection \<open>The terminal\<close>

definition xwrite :: "tx_t \<Rightarrow> byte list \<Rightarrow> int \<times> tx_t" where
  "xwrite fd data = xsend fd data"

function full_write :: "tx_t \<Rightarrow> byte list \<Rightarrow> bool \<times> tx_t" where
  "full_write fd data =
     (if data = [] then (True, fd)
      else case xwrite fd data of (r, fd) \<Rightarrow>
             if r < 1 then (False, fd) else full_write fd (drop (nat r) data))"
  by auto
termination
  by (relation "measure (\<lambda>(fd, data). length data)") auto

declare full_write.simps [simp del]

definition xgetch :: "tty_t \<Rightarrow> byte \<times> tty_t" where
  "xgetch tty =
     (case xrecv (tty_in tty) 1 of (r, bytes, rx) \<Rightarrow>
        (if r = 1 then bytes ! 0 else 0, tty\<lparr>tty_in := rx\<rparr>))"

text \<open>The length, the four bytes of the caller's array, which were zero, and the terminal.\<close>

definition xgetcp :: "tty_t \<Rightarrow> nat \<times> byte list \<times> tty_t" where
  "xgetcp tty =
     (case xrecv (tty_in tty) 1 of (r, bytes, rx) \<Rightarrow>
        let tty = tty\<lparr>tty_in := rx\<rparr>
        in if r \<noteq> 1 then (0, replicate 4 0, tty)
           else
             let c0 = bytes ! 0; c = mem_write (replicate 4 0) 0 [c0]
             in if c0 < 0x80 then (1, c, tty)
                else
                  let len = (if c0 AND 0xf8 = 0xf0 \<and> c0 \<le> 0xf4 then 4
                             else if c0 AND 0xf0 = 0xe0 then 3
                             else if c0 AND 0xe0 = 0xc0 then 2 else 0)
                  in if len = 0 then (0, c, tty)
                     else case xrecv (tty_in tty) (len - 1) of (r, bytes, rx) \<Rightarrow>
                       (if r \<noteq> int (len - 1) then 0 else len, mem_write c 1 bytes, tty\<lparr>tty_in := rx\<rparr>))"

definition xwinsize :: "tty_t \<Rightarrow> u64" where
  "xwinsize tty = (case tty_winsize tty of None \<Rightarrow> 0 | Some ws_col \<Rightarrow> ucast ws_col)"

datatype xconsole_mode = CONSOLE_MODE_RAW | CONSOLE_MODE_ORIG

text \<open>The changes \<^verbatim>\<open>xtcsetattr\<close> makes for the raw mode, with the values the flags have on Linux; the answer
  of a call that reads or sets the attributes; and the function itself with what it leaves in \<^verbatim>\<open>*orig\<close>.\<close>

definition raw_mode :: "console_t \<Rightarrow> console_t" where
  "raw_mode m = m\<lparr>c_iflag := c_iflag m AND NOT (0x400 OR 0x2 OR 0x20 OR 0x100 OR 0x10),
                  c_lflag := c_lflag m AND NOT (0x8 OR 0x2 OR 0x8000),
                  c_cflag := c_cflag m OR 0x30, c_vmin := 1, c_vtime := 0\<rparr>"

definition tc_answer :: "tty_t \<Rightarrow> int \<times> tty_t" where
  "tc_answer tty =
     (case tc_plan (tty_attr tty) of
        [] \<Rightarrow> (0, tty)
      | r # rs \<Rightarrow> (r, tty\<lparr>tty_attr := (tty_attr tty)\<lparr>tc_plan := rs\<rparr>\<rparr>))"

definition tcsetattr :: "tty_t \<Rightarrow> console_t \<Rightarrow> int \<times> tty_t" where
  "tcsetattr tty m =
     (case tc_answer tty of (r, tty) \<Rightarrow>
        if r < 0 then (- 1, tty) else (0, tty\<lparr>tty_attr := (tty_attr tty)\<lparr>tc_mode := m\<rparr>\<rparr>))"

definition xtcsetattr :: "tty_t \<Rightarrow> console_t \<Rightarrow> xconsole_mode \<Rightarrow> int \<times> console_t \<times> tty_t" where
  "xtcsetattr tty orig mode =
     (case mode of
        CONSOLE_MODE_RAW \<Rightarrow>
          (case tc_answer tty of (r, tty) \<Rightarrow>
             if r < 0 then (- 1, orig, tty)
             else let orig = tc_mode (tty_attr tty); (r, tty) = tcsetattr tty (raw_mode orig) in (r, orig, tty))
      | CONSOLE_MODE_ORIG \<Rightarrow> (let (r, tty) = tcsetattr tty orig in (r, orig, tty)))"

definition ring_bell :: "tty_t \<Rightarrow> tty_t" where
  "ring_bell tty = tty\<lparr>tty_out := snd (full_write (tty_out tty) [7])\<rparr>"

definition clear_screen :: "tty_t \<Rightarrow> tty_t" where
  "clear_screen tty = tty\<lparr>tty_out := snd (full_write (tty_out tty) ([ESC] @ ascii ''[H'' @ [ESC] @ ascii ''[2J''))\<rparr>"

subsection \<open>Drawing\<close>

definition update_row_count :: "line_t \<Rightarrow> u64 \<Rightarrow> line_t" where
  "update_row_count ctx rows = (if rows > row ctx then ctx\<lparr>row := rows\<rparr> else ctx)"

definition slice_put :: "slice_t \<Rightarrow> byte list \<Rightarrow> slice_t c_result" where
  "slice_put seq bytes = c_bind (slice_append seq bytes (length bytes)) (\<lambda>(_, seq). Inr seq)"

definition move_cursor_pos :: "slice_t \<Rightarrow> cursor_direction \<Rightarrow> u64 \<Rightarrow> slice_t c_result" where
  "move_cursor_pos seq dir dist =
     c_bind (xutoa (ucast dist) (replicate 11 0)) (\<lambda>(len, digits).
     c_bind (slice_put seq ([ESC] @ ascii ''['')) (\<lambda>seq.
     c_bind (slice_append seq digits len) (\<lambda>(_, seq).
     slice_put seq [0x41 + of_nat (cursor_direction_value dir)])))"

primrec clear_rows :: "slice_t \<Rightarrow> nat \<Rightarrow> slice_t c_result" where
  "clear_rows seq 0 = Inr seq"
| "clear_rows seq (Suc n) =
     c_bind (slice_put seq ([13, ESC] @ ascii ''[0K'' @ [ESC] @ ascii ''[1A'')) (\<lambda>seq. clear_rows seq n)"

text \<open>The escape sequence \<^verbatim>\<open>flush_console\<close> builds: first up to the restored text, with the struct and
  \<^verbatim>\<open>rows\<close> as they are then, and then the rest.\<close>

definition draw_text :: "line_t \<Rightarrow> (line_t \<times> u64 \<times> slice_t) c_result" where
  "draw_text ctx =
     (if console_width ctx = 0 then Inl DivByZero
      else
        let rows = (prompt_len ctx + line_len ctx + console_width ctx - 1) div console_width ctx;
            ctx = update_row_count ctx rows;
            cursor_rows = row ctx - (prompt_len ctx + rendered_column ctx + console_width ctx) div console_width ctx
        in c_bind (if cursor_rows \<noteq> 0 then move_cursor_pos DYNAMIC_SLICE MOVE_DOWN cursor_rows
                   else Inr DYNAMIC_SLICE) (\<lambda>seq.
           c_bind (clear_rows seq (unat (row ctx - 1))) (\<lambda>seq.
           c_bind (slice_put seq ([13, ESC] @ ascii ''[0K'')) (\<lambda>seq.
           c_bind (slice_append seq (prompt ctx) (prompt_size ctx)) (\<lambda>(_, seq).
           c_bind (slice_append seq (line ctx) (line_size ctx)) (\<lambda>(_, seq).
           Inr (ctx, rows, seq)))))))"

definition draw_line :: "line_t \<Rightarrow> (line_t \<times> byte list) c_result" where
  "draw_line ctx =
     c_bind (draw_text ctx) (\<lambda>(ctx, rows, seq).
       let eol = (offset ctx \<noteq> 0 \<and> offset ctx = line_size ctx);
           columns = (prompt_len ctx + column ctx) mod console_width ctx
       in c_bind (if eol \<and> columns = 0
                  then c_bind (slice_put seq [10, 13]) (\<lambda>seq. Inr (seq, rows + 1, update_row_count ctx (rows + 1)))
                  else Inr (seq, rows, ctx)) (\<lambda>(seq, rows, ctx).
          let rows = rows - (prompt_len ctx + column ctx + console_width ctx) div console_width ctx
          in c_bind (if rows \<noteq> 0 then move_cursor_pos seq MOVE_UP rows else Inr seq) (\<lambda>seq.
             c_bind (slice_put seq [13]) (\<lambda>seq.
             c_bind (if columns \<noteq> 0 then move_cursor_pos seq MOVE_RIGHT columns else Inr seq) (\<lambda>seq.
             c_bind (mem_read (slice_data seq) 0 (slice_len seq)) (\<lambda>bytes.
             Inr (ctx\<lparr>rendered_column := column ctx\<rparr>, bytes)))))))"

definition flush_console :: "line_t \<Rightarrow> tty_t \<Rightarrow> (line_t \<times> tty_t) c_result" where
  "flush_console ctx tty =
     c_bind (draw_line ctx) (\<lambda>(ctx, bytes).
     case full_write (tty_out tty) bytes of (ok, out) \<Rightarrow>
       if \<not> ok then Inl Exited else Inr (ctx, tty\<lparr>tty_out := out\<rparr>))"

subsection \<open>Editing\<close>

definition insert_char :: "line_t \<Rightarrow> tty_t \<Rightarrow> byte list \<Rightarrow> nat \<Rightarrow> (bool \<times> line_t \<times> tty_t) c_result" where
  "insert_char ctx tty c len =
     c_bind (codepoint_width c 0 len) (\<lambda>cp_len.
     if cp_len = 0 then Inr (False, ctx, tty)
     else c_bind (if line_size ctx \<noteq> offset ctx
                  then memmove (line ctx) (offset ctx + len) (offset ctx) (size_sub (line_size ctx) (offset ctx))
                  else Inr (line ctx)) (\<lambda>mem.
          c_bind (mem_read c 0 len) (\<lambda>bytes.
          c_bind (mem_store mem (offset ctx) bytes) (\<lambda>mem.
          let ctx = ctx\<lparr>line := mem, offset := offset ctx + len, line_size := line_size ctx + len,
                        line_len := line_len ctx + of_nat cp_len, column := column ctx + of_nat cp_len\<rparr>
          in c_bind (mem_store (line ctx) (line_size ctx) [0]) (\<lambda>mem.
             c_bind (flush_console (ctx\<lparr>line := mem\<rparr>) tty) (\<lambda>(ctx, tty).
             Inr (True, ctx, tty)))))))"

definition move_cursor_right :: "line_t \<Rightarrow> (bool \<times> line_t) c_result" where
  "move_cursor_right ctx =
     (if offset ctx \<noteq> line_size ctx
      then c_bind (next_codepoint (line ctx) (offset ctx) True) (\<lambda>(_, cp_size, cp_len).
           Inr (True, ctx\<lparr>offset := offset ctx + cp_size, column := column ctx + of_nat (the cp_len)\<rparr>))
      else Inr (False, ctx))"

definition move_cursor_left :: "line_t \<Rightarrow> (bool \<times> line_t) c_result" where
  "move_cursor_left ctx =
     (if offset ctx > 0
      then c_bind (prev_codepoint (line ctx) (offset ctx) True) (\<lambda>(_, cp_size, cp_len).
           Inr (True, ctx\<lparr>offset := offset ctx - cp_size, column := column ctx - of_nat (the cp_len)\<rparr>))
      else Inr (False, ctx))"

lemma prev_loop_steps: "prev_loop s pos n = Inr (p, k) \<Longrightarrow> p < pos \<and> k = n + (pos - p)"
proof (induction pos arbitrary: n)
  case (Suc pos)
  obtain b where b: "mem_at s pos = Inr b" using Suc.prems by (cases "mem_at s pos") simp_all
  define going where "going \<longleftrightarrow> b AND 0x80 \<noteq> 0 \<and> b AND 0xc0 = 0x80"
  have "prev_loop s (Suc pos) n = (if going then prev_loop s pos (n + 1) else Inr (pos, n + 1))"
    unfolding going_def prev_loop.simps b c_bind_simps ..
  with Suc show ?case by (cases going) fastforce+
qed simp

lemma move_cursor_left_back: "move_cursor_left ctx = Inr (True, ctx') \<Longrightarrow> offset ctx' < offset ctx"
  by (auto simp: move_cursor_left_def prev_codepoint_def c_bind_eq_Inr split: if_splits dest!: prev_loop_steps)

lemma lead_size_pos: "0 < lead_size b"
proof -
  have "0 < (if P then 4 else if Q then 3 else if R then 2 else 1 :: nat)" for P Q R by simp
  then show ?thesis unfolding lead_size_def .
qed

lemma move_cursor_right_on:
  "move_cursor_right ctx = Inr (b, ctx') \<Longrightarrow> offset ctx < line_size ctx \<Longrightarrow>
     offset ctx < offset ctx' \<and> line_size ctx' = line_size ctx"
  using lead_size_pos by (auto simp: move_cursor_right_def next_codepoint_def c_bind_eq_Inr Let_def split: if_splits)

text \<open>The loops of \<^verbatim>\<open>move_cursor_word_start\<close>: the character before the cursor is looked at again after
  every step.\<close>

function word_back :: "(byte \<Rightarrow> bool) \<Rightarrow> line_t \<Rightarrow> line_t c_result" where
  "word_back going ctx =
     c_bind (prev_codepoint (line ctx) (offset ctx) False) (\<lambda>(cp, _, _).
     c_bind (mem_at (line ctx) cp) (\<lambda>b.
     if going b
     then c_bind (move_cursor_left ctx) (\<lambda>(moved, ctx). if \<not> moved then Inr ctx else word_back going ctx)
     else Inr ctx))"
  by auto
termination by (relation "measure (\<lambda>(going, ctx). offset ctx)") (auto dest: move_cursor_left_back)

definition move_cursor_word_start :: "line_t \<Rightarrow> line_t c_result" where
  "move_cursor_word_start ctx =
     c_bind (word_back (\<lambda>b. b = 0x20) ctx) (\<lambda>ctx. word_back (\<lambda>b. b \<noteq> 0x20) ctx)"

function word_forward :: "(byte \<Rightarrow> bool) \<Rightarrow> line_t \<Rightarrow> line_t c_result" where
  "word_forward stop ctx =
     (if offset ctx < line_size ctx
      then c_bind (mem_at (line ctx) (offset ctx)) (\<lambda>b.
           if b = 0 \<or> stop b then Inr ctx
           else c_bind (move_cursor_right ctx) (\<lambda>(_, ctx). word_forward stop ctx))
      else Inr ctx)"
  by auto
termination by (relation "measure (\<lambda>(stop, ctx). line_size ctx - offset ctx)") (auto dest: move_cursor_right_on)

definition move_cursor_word_end :: "line_t \<Rightarrow> line_t c_result" where
  "move_cursor_word_end ctx =
     c_bind (word_forward (\<lambda>b. b \<noteq> 0x20) ctx) (\<lambda>ctx. word_forward (\<lambda>b. b = 0x20) ctx)"

declare word_back.simps [simp del] word_forward.simps [simp del]

definition update_cursor_pos :: "line_t \<Rightarrow> tty_t \<Rightarrow> cursor_direction \<Rightarrow> (line_t \<times> tty_t) c_result" where
  "update_cursor_pos ctx tty direction =
     c_bind (case direction of
               MOVE_UP \<Rightarrow> Inr ctx
             | MOVE_DOWN \<Rightarrow> Inr ctx
             | MOVE_RIGHT \<Rightarrow> c_bind (move_cursor_right ctx) (\<lambda>(_, ctx). Inr ctx)
             | MOVE_LEFT \<Rightarrow> c_bind (move_cursor_left ctx) (\<lambda>(_, ctx). Inr ctx)
             | MOVE_HOME \<Rightarrow> Inr (ctx\<lparr>offset := 0, column := 0\<rparr>)
             | MOVE_END \<Rightarrow> Inr (ctx\<lparr>offset := line_size ctx, column := line_len ctx\<rparr>)
             | JUMP_FORWARD \<Rightarrow> move_cursor_word_end ctx
             | JUMP_BACKWARD \<Rightarrow> move_cursor_word_start ctx) (\<lambda>ctx. flush_console ctx tty)"

text \<open>At most one of the two conditions of the code holds; the changes of the last block come
  before the flush.\<close>

definition delete_char :: "line_t \<Rightarrow> tty_t \<Rightarrow> bool \<Rightarrow> (line_t \<times> tty_t) c_result" where
  "delete_char ctx tty del =
     (let finish = (\<lambda>ctx cp_size cp_len.
            let ctx = ctx\<lparr>line_size := size_sub (line_size ctx) cp_size\<rparr>
            in c_bind (mem_store (line ctx) (line_size ctx) [0]) (\<lambda>mem.
               flush_console (ctx\<lparr>line := mem, line_len := line_len ctx - of_nat cp_len\<rparr>) tty))
      in if \<not> del \<and> offset ctx > 0 \<and> line_size ctx > 0
         then c_bind (prev_codepoint (line ctx) (offset ctx) True) (\<lambda>(_, cp_size, cp_len).
              c_bind (memmove (line ctx) (offset ctx - cp_size) (offset ctx) (size_sub (line_size ctx) (offset ctx))) (\<lambda>mem.
              finish (ctx\<lparr>line := mem, offset := offset ctx - cp_size, column := column ctx - of_nat (the cp_len)\<rparr>)
                cp_size (the cp_len)))
         else if del \<and> line_size ctx > 0 \<and> offset ctx < line_size ctx
         then c_bind (next_codepoint (line ctx) (offset ctx) True) (\<lambda>(_, cp_size, cp_len).
              c_bind (memmove (line ctx) (offset ctx) (offset ctx + cp_size)
                        (size_sub (size_sub (line_size ctx) (offset ctx)) cp_size)) (\<lambda>mem.
              finish (ctx\<lparr>line := mem\<rparr>) cp_size (the cp_len)))
         else Inr (ctx, tty))"

subsection \<open>Reading a line\<close>

text \<open>The two calls of \<^verbatim>\<open>xgetch\<close> in the initialiser are taken from left to right.\<close>

definition escape_key :: "line_t \<Rightarrow> tty_t \<Rightarrow> (line_t \<times> tty_t) c_result" where
  "escape_key ctx tty =
     (case xgetch tty of (seq0, tty) \<Rightarrow>
      case xgetch tty of (seq1, tty) \<Rightarrow>
        if seq0 \<noteq> 0x5b then Inr (ctx, tty)
        else
          c_bind (if 0x30 \<le> seq1 \<and> seq1 \<le> 0x39
                  then case xgetch tty of (c, tty) \<Rightarrow>
                         if c = 0x7e then if seq1 = 0x33 then delete_char ctx tty True else Inr (ctx, tty)
                         else if c = 0x3b
                         then case xgetch tty of (c, tty) \<Rightarrow>
                                if c = 0x35
                                then case xgetch tty of (c, tty) \<Rightarrow>
                                       if c = 0x43 then update_cursor_pos ctx tty JUMP_FORWARD
                                       else if c = 0x44 then update_cursor_pos ctx tty JUMP_BACKWARD
                                       else Inr (ctx, tty)
                                else Inr (ctx, tty)
                         else Inr (ctx, tty)
                  else Inr (ctx, tty)) (\<lambda>(ctx, tty).
          if seq1 = 0x44 then update_cursor_pos ctx tty MOVE_LEFT
          else if seq1 = 0x43 then update_cursor_pos ctx tty MOVE_RIGHT
          else if seq1 = 0x48 then update_cursor_pos ctx tty MOVE_HOME
          else if seq1 = 0x46 then update_cursor_pos ctx tty MOVE_END
          else Inr (ctx, tty)))"

datatype key_result = Continue | Failed | Returned

text \<open>One iteration of the loop of \<^verbatim>\<open>xgetline\<close>: resizing, reading a key, acting on it.\<close>

definition resize_line :: "line_t \<Rightarrow> line_t option c_result" where
  "resize_line ctx =
     (if line_size ctx = length (line ctx) - 2
      then if length (line ctx) * 2 mod 2 ^ 64 < length (line ctx) then Inr None
           else c_bind (xrealloc (line ctx) (length (line ctx) * 2)) (\<lambda>mem. Inr (Some (ctx\<lparr>line := mem\<rparr>)))
      else Inr (Some ctx))"

definition line_key :: "line_t \<Rightarrow> tty_t \<Rightarrow> (key_result \<times> line_t \<times> tty_t) c_result" where
  "line_key ctx tty =
     c_bind (resize_line ctx) (\<lambda>resized. case resized of
        None \<Rightarrow> Inr (Failed, ctx, tty)
      | Some ctx \<Rightarrow>
          case xgetcp tty of (len, c, tty) \<Rightarrow>
            if c ! 0 = 0 then Inr (Returned, ctx, tty)
            else if c ! 0 = TAB then Inr (Continue, ctx, ring_bell tty)
            else if c ! 0 = ENTER then
              if line_size ctx \<noteq> 0
              then c_bind (update_cursor_pos ctx tty MOVE_END) (\<lambda>(ctx, tty). Inr (Returned, ctx, tty))
              else Inr (Continue, ctx, ring_bell tty)
            else if c ! 0 = ESC then c_bind (escape_key ctx tty) (\<lambda>(ctx, tty). Inr (Continue, ctx, tty))
            else if c ! 0 = BACKSPACE then c_bind (delete_char ctx tty False) (\<lambda>(ctx, tty). Inr (Continue, ctx, tty))
            else c_bind (insert_char ctx tty c len) (\<lambda>(_, ctx, tty). Inr (Continue, ctx, tty)))"

fun input_size :: "recv_event list \<Rightarrow> nat" where
  "input_size [] = 0"
| "input_size (RecvError # rx) = Suc (input_size rx)"
| "input_size (Segment bs # rx) = Suc (length bs + input_size rx)"

lemma xrecv_input: "xrecv rx n = (r, bytes, rx') \<Longrightarrow> input_size rx' \<le> input_size rx \<and> (r \<noteq> 0 \<longrightarrow> input_size rx' < input_size rx)"
  by (cases rx rule: input_size.cases) (auto split: if_splits)

lemma xgetch_input: "xgetch tty = (c, tty') \<Longrightarrow> input_size (tty_in tty') \<le> input_size (tty_in tty)"
  by (auto simp: xgetch_def split: prod.splits dest: xrecv_input)

lemma xgetcp_input:
  assumes "xgetcp tty = (len, c, tty')" "c ! 0 \<noteq> 0"
  shows "input_size (tty_in tty') < input_size (tty_in tty)"
proof -
  obtain r bytes rx where x: "xrecv (tty_in tty) 1 = (r, bytes, rx)" by (metis surj_pair)
  have "r = 1" using assms x by (auto simp: xgetcp_def Let_def split: if_splits)
  then have "input_size rx < input_size (tty_in tty)" using xrecv_input[OF x] by simp
  moreover have "input_size (tty_in tty') \<le> input_size rx"
    using assms(1) x \<open>r = 1\<close> xrecv_input[of rx]
    by (auto simp: xgetcp_def Let_def split: if_splits prod.splits)
  ultimately show ?thesis by simp
qed

lemma flush_console_in: "flush_console ctx tty = Inr (ctx', tty') \<Longrightarrow> tty_in tty' = tty_in tty"
  by (auto simp: flush_console_def elim!: c_bind_InrE split: if_splits prod.split_asm)

lemma update_cursor_pos_in: "update_cursor_pos ctx tty d = Inr (ctx', tty') \<Longrightarrow> tty_in tty' = tty_in tty"
  unfolding update_cursor_pos_def by (elim c_bind_InrE) (rule flush_console_in)

lemma delete_char_in: "delete_char ctx tty del = Inr (ctx', tty') \<Longrightarrow> tty_in tty' = tty_in tty"
  by (auto simp: delete_char_def Let_def elim!: c_bind_InrE split: if_splits dest: flush_console_in)

lemma insert_char_in: "insert_char ctx tty c len = Inr (b, ctx', tty') \<Longrightarrow> tty_in tty' = tty_in tty"
  by (auto simp: insert_char_def Let_def elim!: c_bind_InrE split: if_splits dest: flush_console_in)

lemma escape_key_input:
  "escape_key ctx tty = Inr (ctx', tty') \<Longrightarrow> input_size (tty_in tty') \<le> input_size (tty_in tty)"
  unfolding escape_key_def
  by (auto elim!: c_bind_InrE split: prod.split_asm if_splits dest!: update_cursor_pos_in delete_char_in xgetch_input)

lemma line_key_input:
  assumes "line_key ctx tty = Inr (Continue, ctx', tty')"
  shows "input_size (tty_in tty') < input_size (tty_in tty)"
proof -
  obtain ctx1 where ctx1: "resize_line ctx = Inr (Some ctx1)"
    using assms by (auto simp: line_key_def elim!: c_bind_InrE split: option.split_asm)
  obtain len c tty1 where cp: "xgetcp tty = (len, c, tty1)" by (metis surj_pair)
  have "input_size (tty_in tty') \<le> input_size (tty_in tty1)"
    using assms ctx1 cp unfolding line_key_def
    by (auto simp: ring_bell_def elim!: c_bind_InrE split: if_splits
        dest: escape_key_input delete_char_in insert_char_in update_cursor_pos_in)
  moreover have "c ! 0 \<noteq> 0" using assms ctx1 cp by (auto simp: line_key_def)
  ultimately show ?thesis using xgetcp_input[OF cp] by simp
qed

function xgetline_loop :: "line_t \<Rightarrow> tty_t \<Rightarrow> (key_result \<times> line_t \<times> tty_t) c_result" where
  "xgetline_loop ctx tty =
     c_bind (line_key ctx tty) (\<lambda>(res, ctx, tty).
     case res of Continue \<Rightarrow> xgetline_loop ctx tty | _ \<Rightarrow> Inr (res, ctx, tty))"
  by auto
termination
  by (relation "measure (\<lambda>(ctx, tty). input_size (tty_in tty))") (auto dest: line_key_input)

declare xgetline_loop.simps [simp del]

text \<open>\<open>fresh\<close> is what the new allocation of 64 bytes holds.\<close>

definition xgetline :: "byte list \<Rightarrow> byte list \<Rightarrow> tty_t \<Rightarrow> ((byte list \<times> nat) option \<times> tty_t) c_result" where
  "xgetline fresh prmpt tty =
     c_bind (utf8_rendered_length prmpt) (\<lambda>prmpt_len.
     c_bind (xgetline_loop
        \<lparr>prompt = prmpt, prompt_len = of_nat prmpt_len, prompt_size = strlen prmpt, line = fresh, line_len = 0, line_size = 0,
         row = 0, offset = 0, column = 0, rendered_column = 0, console_width = xwinsize tty\<rparr> tty) (\<lambda>(res, ctx, tty).
     Inr (if res = Failed then None else Some (line ctx, line_size ctx), tty)))"

text \<open>\<^verbatim>\<open>_xprompt\<close>; without a line \<^verbatim>\<open>NULL\<close>. What \<^verbatim>\<open>orig\<close> holds at first is never used.\<close>

definition xprompt_once :: "byte list \<Rightarrow> byte list \<Rightarrow> tty_t \<Rightarrow> ((byte list \<times> nat) option \<times> tty_t) c_result" where
  "xprompt_once fresh prmpt tty =
     (case xtcsetattr tty \<lparr>c_iflag = 0, c_lflag = 0, c_cflag = 0, c_vmin = 0, c_vtime = 0\<rparr> CONSOLE_MODE_RAW of (r, orig, tty) \<Rightarrow>
      if r \<noteq> 0 then Inr (None, tty)
      else case xwrite (tty_out tty) (take (strlen prmpt) prmpt) of (w, out) \<Rightarrow>
        let tty = tty\<lparr>tty_out := out\<rparr>
        in if w \<noteq> int (strlen prmpt) then Inr (None, tty)
           else c_bind (xgetline fresh prmpt tty) (\<lambda>(text, tty).
             if text = None then Inr (None, tty)
             else case xtcsetattr tty orig CONSOLE_MODE_ORIG of (r, orig, tty) \<Rightarrow>
               if r \<noteq> 0 then Inr (None, tty)
               else case xwrite (tty_out tty) [10] of (w, out) \<Rightarrow>
                 Inr (if w \<noteq> 1 then None else text, tty\<lparr>tty_out := out\<rparr>)))"

text \<open>The loops of \<^verbatim>\<open>xprompt\<close> have no bound: \<open>None\<close> is not returning. \<open>limit\<close> is \<^verbatim>\<open>*len\<close>.\<close>

partial_function (option) xprompt_loop ::
  "byte list \<Rightarrow> byte list \<Rightarrow> nat \<Rightarrow> tty_t \<Rightarrow> (byte list \<times> nat \<times> tty_t) c_result option" where
  "xprompt_loop fresh prmpt limit tty =
     (case xprompt_once fresh prmpt tty of
        Inl e \<Rightarrow> Some (Inl e)
      | Inr (text, tty) \<Rightarrow>
          (case text of
             None \<Rightarrow> xprompt_loop fresh prmpt limit tty
           | Some (bytes, len) \<Rightarrow>
               if limit \<noteq> 0 \<and> len > limit then xprompt_loop fresh prmpt limit tty
               else Some (Inr (bytes, len, tty))))"

declare xprompt_loop.simps [code]

definition xprompt :: "byte list \<Rightarrow> byte list \<Rightarrow> nat \<Rightarrow> tty_t \<Rightarrow> (byte list \<times> nat \<times> tty_t) c_result" where
  "xprompt fresh prmpt limit tty =
     (case xprompt_loop fresh prmpt limit tty of None \<Rightarrow> Inl NonTermination | Some r \<Rightarrow> r)"

end
