(* ===== verification/Line_Editor.thy ===== *)
theory Line_Editor
  imports Console
begin

text \<open>
  The line editor of \<^verbatim>\<open>Console\<close> implements a text with a cursor: \<open>line_shows ctx l r\<close> says that the
  bytes, sizes and columns of the struct are those of the code points \<open>l\<close> before and \<open>r\<close>
  behind the cursor.
\<close>

subsection \<open>Escape sequences\<close>

lemma utoa_digits_length: "value < 10 ^ k \<Longrightarrow> length (utoa_digits value) \<le> k"
proof (induction k arbitrary: "value")
  case 0
  then show ?case by (simp add: utoa_digits.simps)
next
  case (Suc k)
  have "value div 10 < 10 ^ k" using Suc.prems by (simp add: less_mult_imp_div_less)
  from Suc.IH[OF this] show ?case by (subst utoa_digits.simps) simp
qed

lemma utoa_write_fits:
  assumes "2 * (k + length ds) \<le> length str" "ds \<noteq> []"
  shows "\<exists>str'. utoa_write str k ds = Inr (k + length ds, str') \<and> length str' = length str"
  using assms
proof (induction ds arbitrary: str k)
  case (Cons d ds)
  let ?str = "mem_write (mem_write str k [d]) (k + 1 + k) [0]"
  have s: "utoa_write str k (d # ds) = utoa_write ?str (k + 1) ds" "length ?str = length str" using Cons.prems by simp_all
  show ?case
  proof (cases "ds = []")
    case True
    then show ?thesis using s by simp
  next
    case False
    with Cons.IH[of "k + 1" ?str] Cons.prems s show ?thesis by simp
  qed
qed simp

lemma xutoa_fits:
  assumes "unat v < 10 ^ 5"
  shows "\<exists>n digits. xutoa v (replicate 11 0) = Inr (n, digits) \<and> n \<le> 5 \<and> length digits = 11"
proof (cases "utoa_digits (unat v) = []")
  case True
  then show ?thesis by (simp add: xutoa_def)
next
  case False
  have "length (utoa_digits (unat v)) \<le> 5" by (rule utoa_digits_length[OF assms])
  with utoa_write_fits[of 0 "rev (utoa_digits (unat v))" "replicate 11 0"] False show ?thesis
    by (auto simp: xutoa_def)
qed

text \<open>A growing slice that holds these bytes.\<close>

definition grows :: "slice_t \<Rightarrow> nat \<Rightarrow> bool" where
  "grows s n \<longleftrightarrow> slice_wf s \<and> dynamic s \<and> slice_len s \<le> n"

lemma length_slice_bytes: "slice_wf s \<Longrightarrow> length (slice_bytes s) = slice_len s"
  by (simp add: slice_bytes_def slice_wf_def)

lemma grows_mono: "grows s m \<Longrightarrow> m \<le> n \<Longrightarrow> grows s n"
  by (simp add: grows_def)

lemma grows_append:
  assumes "grows s m" "n \<le> length src" "m + n \<le> k" "k \<le> 2 ^ 60"
  shows "\<exists>s'. slice_append s src n = Inr (True, s') \<and> grows s' k"
proof -
  obtain ok s' where a: "slice_append s src n = Inr (ok, s')" "slice_wf s'" "dynamic s' = dynamic s" "ok"
    "slice_bytes s' = slice_bytes s @ take n src"
    using slice_append_appends[of s n src] assms by (auto simp: grows_def split: if_splits)
  then have "slice_len s' = slice_len s + n"
    using assms(1,2) length_slice_bytes[of s'] length_slice_bytes[of s] by (simp add: grows_def)
  with a show ?thesis using assms(1,3) by (auto simp: grows_def)
qed

lemma grows_put:
  assumes "grows s m" "m + length bytes \<le> k" "k \<le> 2 ^ 60"
  shows "\<exists>s'. slice_put s bytes = Inr s' \<and> grows s' k"
  using grows_append[OF assms(1) order_refl assms(2,3)] by (auto simp: slice_put_def)

lemma grows_move_cursor:
  assumes "grows s m" "unat dist < 10 ^ 5" "m + 8 \<le> k" "k \<le> 2 ^ 60"
  shows "\<exists>s'. move_cursor_pos s dir dist = Inr s' \<and> grows s' k"
proof -
  have "unat (ucast dist :: u32) = unat dist" using assms(2) by (simp add: unsigned_ucast_eq take_bit_nat_eq_self)
  then obtain n digits where d: "xutoa (ucast dist) (replicate 11 0) = Inr (n, digits)" "n \<le> 5" "length digits = 11"
    using xutoa_fits[of "ucast dist"] assms(2) by auto
  obtain s1 where s1: "slice_put s ([27] @ ascii ''['') = Inr s1" "grows s1 (m + 2)"
    using grows_put[OF assms(1), of "[27] @ ascii ''[''" "m + 2"] assms(3,4) by auto
  obtain s2 where s2: "slice_append s1 digits n = Inr (True, s2)" "grows s2 (m + 7)"
    using grows_append[OF s1(2), of n digits "m + 7"] d assms(3,4) by auto
  obtain s3 where s3: "slice_put s2 [0x41 + of_nat (cursor_direction_value dir)] = Inr s3" "grows s3 k"
    using grows_put[OF s2(2), of "[0x41 + of_nat (cursor_direction_value dir)]" k] assms(3,4) by auto
  have "move_cursor_pos s dir dist = Inr s3" using d(1) s1(1) s2(1) s3(1) by (simp add: move_cursor_pos_def)
  then show ?thesis using s3(2) by blast
qed

lemma grows_clear_rows:
  assumes "grows s m" "m + 9 * n \<le> k" "k \<le> 2 ^ 60"
  shows "\<exists>s'. clear_rows s n = Inr s' \<and> grows s' k"
  using assms
proof (induction n arbitrary: s m)
  case 0
  then show ?case using grows_mono by auto
next
  case (Suc n)
  obtain s1 where "slice_put s ([13, 27] @ ascii ''[0K'' @ [27] @ ascii ''[1A'') = Inr s1" "grows s1 (m + 9)"
    using grows_put[OF Suc.prems(1), of "[13, 27] @ ascii ''[0K'' @ [27] @ ascii ''[1A''" "m + 9"] Suc.prems(2,3) by auto
  with Suc.IH[of s1 "m + 9"] Suc.prems(2,3) show ?case by simp
qed

subsection \<open>Rows\<close>

lemma ceil_div:
  fixes m w :: nat
  assumes "0 < w"
  shows "m mod w \<noteq> 0 \<Longrightarrow> (m + w - 1) div w = m div w + 1" "m < n \<Longrightarrow> m div w + 1 \<le> (n + w - 1) div w"
    "m \<le> n \<Longrightarrow> m div w \<le> (n + w - 1) div w" "(m + w) div w = m div w + 1" "(m + w - 1) div w \<le> m"
proof -
  show "(m + w) div w = m div w + 1" using assms by (simp add: div_add_self2)
  have n: "m div w + 1 \<le> (n + w - 1) div w" if "m < n" for m n :: nat
  proof -
    have "(m + w) div w \<le> (n + w - 1) div w" using that by (intro div_le_mono) simp
    then show ?thesis using assms by (simp add: div_add_self2)
  qed
  then show "m < n \<Longrightarrow> m div w + 1 \<le> (n + w - 1) div w" .
  show "m \<le> n \<Longrightarrow> m div w \<le> (n + w - 1) div w" using assms by (intro div_le_mono) simp
  show "(m + w - 1) div w = m div w + 1" if r: "m mod w \<noteq> 0"
  proof -
    have "m = m mod w + m div w * w" by simp
    then have "m + w - 1 = (m mod w - 1) + (m div w + 1) * w" using r unfolding add_mult_distrib by linarith
    moreover have "(m mod w - 1) div w = 0" using assms by (simp add: less_imp_diff_less)
    ultimately show ?thesis using assms by (simp only: div_mult_self1)
  qed
  show "(m + w - 1) div w \<le> m"
  proof -
    have "m * 1 \<le> m * w" using assms by (intro mult_le_mono2) simp
    then have "m + w - 1 < (m + 1) * w" using assms unfolding add_mult_distrib by linarith
    from less_mult_imp_div_less[OF this] show ?thesis by simp
  qed
qed

text \<open>The geometry of the screen before and after every flush: the terminal has a width, the prompt
  does not fill its rows exactly, text and prompt together stay below \<open>2 ^ 15\<close> columns, and
  the row count reaches the row the cursor was left in.\<close>

definition layout_ok :: "line_t \<Rightarrow> bool" where
  "layout_ok ctx \<longleftrightarrow>
     (let w = unat (console_width ctx); p = unat (prompt_len ctx)
      in 0 < w \<and> w < 2 ^ 16 \<and> p mod w \<noteq> 0 \<and> p < 2 ^ 15 \<and> unat (row ctx) \<le> 2 ^ 15 + 1 \<and>
         unat (rendered_column ctx) < 2 ^ 15 \<and>
         (p + unat (rendered_column ctx)) div w + 1 \<le> max (unat (row ctx)) (p div w + 1) \<and>
         prompt_size ctx \<le> length (prompt ctx) \<and> prompt_size ctx < 2 ^ 32)"

definition cursor_ok :: "line_t \<Rightarrow> bool" where
  "cursor_ok ctx \<longleftrightarrow>
     unat (prompt_len ctx) + unat (line_len ctx) < 2 ^ 15 \<and> column ctx \<le> line_len ctx \<and>
     line_size ctx \<le> length (line ctx) \<and> line_size ctx < 2 ^ 32 \<and>
     (column ctx = line_len ctx \<longrightarrow> offset ctx = line_size ctx \<and> (offset ctx = 0 \<longrightarrow> line_len ctx = 0))"

lemma unat_sum_small: "unat a + unat b < 2 ^ 20 \<Longrightarrow> unat (a + b) = unat a + unat b" for a b :: u64
  by (simp add: unat_add_lem[THEN iffD1])

lemma unat_ceil:
  fixes a b w :: u64
  assumes "0 < unat w" "unat a + unat b + unat w < 2 ^ 20"
  shows "unat ((a + b + w - 1) div w) = (unat a + unat b + unat w - 1) div unat w"
    "unat ((a + b + w) div w) = (unat a + unat b) div unat w + 1"
    "unat ((a + b) mod w) = (unat a + unat b) mod unat w"
proof -
  have s: "unat (a + b) = unat a + unat b" "unat (a + b + w) = unat a + unat b + unat w"
    using assms unat_sum_small[of a b] unat_sum_small[of "a + b" w] by simp_all
  moreover have "1 \<le> a + b + w" using s(2) assms(1) by (simp add: word_le_nat_alt)
  then have "unat (a + b + w - 1) = unat a + unat b + unat w - 1" using s(2) by (simp add: unat_sub)
  ultimately show "unat ((a + b + w - 1) div w) = (unat a + unat b + unat w - 1) div unat w"
    "unat ((a + b + w) div w) = (unat a + unat b) div unat w + 1"
    "unat ((a + b) mod w) = (unat a + unat b) mod unat w"
    using assms(1) ceil_div(4) by (simp_all only: unat_div unat_mod)
qed

definition rows_of :: "line_t \<Rightarrow> u64" where
  "rows_of ctx = (prompt_len ctx + line_len ctx + console_width ctx - 1) div console_width ctx"

lemma layout_nats:
  assumes "layout_ok ctx" "cursor_ok ctx"
  defines "w \<equiv> unat (console_width ctx)" and "p \<equiv> unat (prompt_len ctx)" and "l \<equiv> unat (line_len ctx)"
    and "c \<equiv> unat (column ctx)" and "rc \<equiv> unat (rendered_column ctx)"
  shows "0 < w" "unat (rows_of ctx) = (p + l + w - 1) div w" "p div w + 1 \<le> unat (rows_of ctx)" "unat (rows_of ctx) < 2 ^ 15"
    "unat ((prompt_len ctx + rendered_column ctx + console_width ctx) div console_width ctx) = (p + rc) div w + 1"
    "unat ((prompt_len ctx + column ctx + console_width ctx) div console_width ctx) = (p + c) div w + 1"
    "unat ((prompt_len ctx + column ctx) mod console_width ctx) = (p + c) mod w" "c \<le> l" "p + l < 2 ^ 15"
proof -
  have lay: "0 < w" "w < 2 ^ 16" "p mod w \<noteq> 0" "p < 2 ^ 15" "rc < 2 ^ 15"
    using assms(1) by (simp_all add: layout_ok_def Let_def w_def p_def rc_def)
  have cur: "p + l < 2 ^ 15" "c \<le> l"
    using assms(2) by (simp_all only: cursor_ok_def word_le_nat_alt p_def l_def c_def)
  show "0 < w" "c \<le> l" "p + l < 2 ^ 15" using lay cur by simp_all
  show R: "unat (rows_of ctx) = (p + l + w - 1) div w"
    unfolding rows_of_def p_def l_def w_def using lay cur by (subst unat_ceil; simp add: p_def l_def w_def)
  show "unat ((prompt_len ctx + rendered_column ctx + console_width ctx) div console_width ctx) = (p + rc) div w + 1"
    unfolding p_def rc_def w_def using lay cur by (subst unat_ceil; simp add: p_def rc_def w_def)
  show "unat ((prompt_len ctx + column ctx + console_width ctx) div console_width ctx) = (p + c) div w + 1"
    "unat ((prompt_len ctx + column ctx) mod console_width ctx) = (p + c) mod w"
    unfolding p_def c_def w_def using lay cur by (subst unat_ceil; simp add: p_def c_def w_def l_def)+
  show "unat (rows_of ctx) < 2 ^ 15" using ceil_div(5)[OF lay(1), of "p + l"] cur(1) unfolding R by linarith
  show "p div w + 1 \<le> unat (rows_of ctx)"
    using ceil_div(1)[OF lay(1,3)] div_le_mono[of "p + w - 1" "p + l + w - 1" w] unfolding R by simp
qed

definition row_max :: "u64 \<Rightarrow> u64 \<Rightarrow> u64" where
  "row_max r rows = (if rows > r then rows else r)"

lemma row_max: "unat (row_max r rows) = max (unat r) (unat rows)" "update_row_count ctx rows = ctx\<lparr>row := row_max (row ctx) rows\<rparr>"
  by (simp_all add: row_max_def word_less_nat_alt update_row_count_def)

lemma draw_text_ok:
  assumes "layout_ok ctx" "cursor_ok ctx"
  shows "\<exists>seq. draw_text ctx = Inr (ctx\<lparr>row := row_max (row ctx) (rows_of ctx)\<rparr>, rows_of ctx, seq) \<and> grows seq (2 ^ 34)"
proof -
  define r1 where "r1 = row_max (row ctx) (rows_of ctx)"
  define cr where "cr = (prompt_len ctx + rendered_column ctx + console_width ctx) div console_width ctx"
  note nats = layout_nats[OF assms]
  have lay: "unat (row ctx) \<le> 2 ^ 15 + 1" "unat cr \<le> unat r1" "prompt_size ctx \<le> length (prompt ctx)" "prompt_size ctx < 2 ^ 32"
    using assms(1) nats(3) unfolding r1_def cr_def nats(5) row_max(1) by (simp_all add: layout_ok_def Let_def) linarith
  have cur: "line_size ctx \<le> length (line ctx)" "line_size ctx < 2 ^ 32" using assms(2) by (simp_all add: cursor_ok_def)
  have r1b: "unat r1 \<le> 2 ^ 15 + 1" "1 \<le> unat r1" using lay(1,2) nats(4,5) unfolding cr_def[symmetric] r1_def row_max(1) by linarith+
  have "unat (r1 - cr) < 10 ^ 5" using lay(2) r1b(1) by (simp add: word_le_nat_alt unat_sub)
  then obtain s1 where s1: "(if r1 - cr \<noteq> 0 then move_cursor_pos DYNAMIC_SLICE MOVE_DOWN (r1 - cr) else Inr DYNAMIC_SLICE) = Inr s1" "grows s1 8"
    using grows_move_cursor[of DYNAMIC_SLICE 0 "r1 - cr" 8 MOVE_DOWN] slices_wf(3)
    by (cases "r1 - cr = 0") (auto simp: grows_def DYNAMIC_SLICE_def)
  have "unat (r1 - 1) \<le> 2 ^ 15" using r1b by (simp add: word_le_nat_alt unat_sub)
  then obtain s2 where s2: "clear_rows s1 (unat (r1 - 1)) = Inr s2" "grows s2 (2 ^ 20)"
    using grows_clear_rows[OF s1(2), of "unat (r1 - 1)" "2 ^ 20"] by auto
  obtain s3 where s3: "slice_put s2 ([13, 27] @ ascii ''[0K'') = Inr s3" "grows s3 (2 ^ 21)"
    using grows_put[OF s2(2), of "[13, 27] @ ascii ''[0K''" "2 ^ 21"] by auto
  obtain s4 where s4: "slice_append s3 (prompt ctx) (prompt_size ctx) = Inr (True, s4)" "grows s4 (2 ^ 33)"
    using grows_append[OF s3(2) lay(3), of "2 ^ 33"] lay(4) by auto
  obtain s5 where s5: "slice_append s4 (line ctx) (line_size ctx) = Inr (True, s5)" "grows s5 (2 ^ 34)"
    using grows_append[OF s4(2) cur(1), of "2 ^ 34"] cur(2) by auto
  have w: "console_width ctx \<noteq> 0" using nats(1) by (auto simp: unat_0_iff)
  have "draw_text ctx = Inr (ctx\<lparr>row := r1\<rparr>, rows_of ctx, s5)"
    using s1(1) s2(1) s3(1) s4(1) s5(1) w
    unfolding draw_text_def Let_def rows_of_def[symmetric] row_max(2) r1_def[symmetric] cr_def
    by (simp split del: if_split cong: if_cong)
  with s5(2) show ?thesis unfolding r1_def by blast
qed

text \<open>The rows counted reach the row of the cursor: at the end of a full row one more is counted.\<close>

lemma cursor_row_counted:
  assumes "layout_ok ctx" "cursor_ok ctx"
  defines "columns \<equiv> (prompt_len ctx + column ctx) mod console_width ctx"
  defines "full \<equiv> (offset ctx \<noteq> 0 \<and> offset ctx = line_size ctx) \<and> columns = 0"
  shows "unat ((prompt_len ctx + column ctx + console_width ctx) div console_width ctx) \<le>
     unat (if full then rows_of ctx + 1 else rows_of ctx)"
proof -
  define w p l c where "w = unat (console_width ctx)" and "p = unat (prompt_len ctx)" and "l = unat (line_len ctx)"
    and "c = unat (column ctx)"
  note nats = layout_nats[OF assms(1,2), folded w_def p_def l_def c_def]
  have R1: "unat (rows_of ctx + 1) = (p + l + w - 1) div w + 1" using nats(2,4) unat_sum_small[of "rows_of ctx" 1] by simp
  have cols: "columns = 0 \<longleftrightarrow> (p + c) mod w = 0" unfolding columns_def nats(7)[symmetric] by (simp add: unat_0_iff)
  consider (f) full | (part) "\<not> full" "(p + c) mod w \<noteq> 0" | (inner) "\<not> full" "(p + c) mod w = 0" by blast
  then have "(p + c) div w + 1 \<le> unat (if full then rows_of ctx + 1 else rows_of ctx)"
  proof cases
    case f
    then show ?thesis using ceil_div(3)[OF nats(1), of "p + c" "p + l"] nats(8) R1 by simp
  next
    case part
    have "(p + c + w - 1) div w \<le> (p + l + w - 1) div w" using nats(8) by (intro div_le_mono) simp
    then show ?thesis using part ceil_div(1)[OF nats(1), of "p + c"] nats(2) by simp
  next
    case inner
    have "c \<noteq> l"
    proof
      assume "c = l"
      then have "column ctx = line_len ctx" by (simp only: c_def l_def word_unat_eq_iff)
      then have o: "offset ctx = line_size ctx" "offset ctx = 0 \<longrightarrow> line_len ctx = 0" using assms(2) by (simp_all add: cursor_ok_def)
      with inner cols have "offset ctx = 0" by (auto simp: full_def)
      then have "p mod w = 0" using inner(2) o(2) \<open>c = l\<close> by (simp add: l_def)
      then show False using assms(1) by (simp add: layout_ok_def Let_def p_def w_def)
    qed
    then show ?thesis using ceil_div(2)[OF nats(1), of "p + c" "p + l"] nats(2,8) inner by simp
  qed
  then show ?thesis unfolding nats(6) .
qed

lemma draw_line_ok:
  assumes "layout_ok ctx" "cursor_ok ctx"
  shows "\<exists>r bytes. draw_line ctx = Inr (ctx\<lparr>row := r, rendered_column := column ctx\<rparr>, bytes) \<and>
     layout_ok (ctx\<lparr>row := r, rendered_column := column ctx\<rparr>)"
proof -
  define columns where "columns = (prompt_len ctx + column ctx) mod console_width ctx"
  define cc where "cc = (prompt_len ctx + column ctx + console_width ctx) div console_width ctx"
  define full where "full \<longleftrightarrow> (offset ctx \<noteq> 0 \<and> offset ctx = line_size ctx) \<and> columns = 0"
  define rows where "rows = (if full then rows_of ctx + 1 else rows_of ctx)"
  define r where "r = row_max (row_max (row ctx) (rows_of ctx)) rows"
  note nats = layout_nats[OF assms]
  obtain s5 where s5: "draw_text ctx = Inr (ctx\<lparr>row := row_max (row ctx) (rows_of ctx)\<rparr>, rows_of ctx, s5)" "grows s5 (2 ^ 34)"
    using draw_text_ok[OF assms] by blast
  have cc: "unat cc \<le> unat rows" using cursor_row_counted[OF assms] by (simp add: cc_def rows_def full_def columns_def)
  have rows: "unat rows \<le> 2 ^ 15" using nats(4) unat_sum_small[of "rows_of ctx" 1] by (simp add: rows_def)
  obtain s6 where s6: "(if full then c_bind (slice_put s5 [10, 13]) (\<lambda>seq. Inr (seq, rows_of ctx + 1, ctx\<lparr>row := r\<rparr>))
       else Inr (s5, rows_of ctx, ctx\<lparr>row := r\<rparr>)) = Inr (s6, rows, ctx\<lparr>row := r\<rparr>)" "grows s6 (2 ^ 35)"
    using grows_put[OF s5(2), of "[10, 13]" "2 ^ 35"] grows_mono[OF s5(2), of "2 ^ 35"] by (cases full) (auto simp: rows_def)
  have "unat (rows - cc) < 10 ^ 5" using cc rows by (simp add: word_le_nat_alt unat_sub)
  then obtain s7 where s7: "(if rows - cc \<noteq> 0 then move_cursor_pos s6 MOVE_UP (rows - cc) else Inr s6) = Inr s7" "grows s7 (2 ^ 36)"
    using grows_move_cursor[OF s6(2), of "rows - cc" "2 ^ 36" MOVE_UP] grows_mono[OF s6(2), of "2 ^ 36"] by (cases "rows - cc = 0") auto
  obtain s8 where s8: "slice_put s7 [13] = Inr s8" "grows s8 (2 ^ 37)"
    using grows_put[OF s7(2), of "[13]" "2 ^ 37"] by auto
  have "unat (console_width ctx) < 10 ^ 5" using assms(1) by (simp add: layout_ok_def Let_def)
  then have "unat columns < 10 ^ 5"
    unfolding columns_def nats(7) by (rule order.strict_trans[OF mod_less_divisor[OF nats(1)]])
  then obtain s9 where s9: "(if columns \<noteq> 0 then move_cursor_pos s8 MOVE_RIGHT columns else Inr s8) = Inr s9" "grows s9 (2 ^ 38)"
    using grows_move_cursor[OF s8(2), of columns "2 ^ 38" MOVE_RIGHT] grows_mono[OF s8(2), of "2 ^ 38"] by (cases "columns = 0") auto
  obtain bytes where bytes: "mem_read (slice_data s9) 0 (slice_len s9) = Inr bytes" using s9(2) by (simp add: grows_def slice_wf_def)
  have r: "(if full then row_max (row_max (row ctx) (rows_of ctx)) (rows_of ctx + 1) else row_max (row ctx) (rows_of ctx)) = r"
    by (auto simp: r_def rows_def row_max_def)
  have f: "(0 < offset ctx \<and> offset ctx = line_size ctx \<and> columns = 0) = full" by (simp add: full_def)
  have "draw_line ctx = Inr (ctx\<lparr>row := r, rendered_column := column ctx\<rparr>, bytes)"
    using s6(1) s7(1) s8(1) s9(1) bytes r
    unfolding draw_line_def s5(1) c_bind_simps prod.case Let_def row_max(2)
    by (cases full) (simp_all add: f columns_def[symmetric] cc_def[symmetric] split del: if_split cong: if_cong)
  moreover have "layout_ok (ctx\<lparr>row := r, rendered_column := column ctx\<rparr>)"
    using assms(1) cc rows nats(4,6,8,9) unfolding layout_ok_def Let_def cc_def
    by (simp add: r_def row_max(1))
  ultimately show ?thesis by blast
qed

definition writes_ok :: "tty_t \<Rightarrow> bool" where
  "writes_ok tty \<longleftrightarrow> SendError \<notin> set (plan (tty_out tty)) \<and> Takes 0 \<notin> set (plan (tty_out tty))"

lemma full_write_ok:
  assumes "SendError \<notin> set (plan fd)" "Takes 0 \<notin> set (plan fd)"
  shows "\<exists>fd'. full_write fd data = (True, fd') \<and> set (plan fd') \<subseteq> set (plan fd)"
  using assms
proof (induction fd data rule: full_write.induct)
  case (1 fd data)
  show ?case
  proof (cases "data = []")
    case True
    then show ?thesis by (subst full_write.simps) simp
  next
    case False
    obtain r fd1 where x: "xwrite fd data = (r, fd1)" by fastforce
    have r: "\<not> r < 1" "set (plan fd1) \<subseteq> set (plan fd)"
      using x False "1.prems" by (auto simp: xwrite_def xsend.simps min_def split: list.splits send_event.splits if_splits)
    obtain fd' where "full_write fd1 (drop (nat r) data) = (True, fd')" "set (plan fd') \<subseteq> set (plan fd1)"
      using "1.IH"[OF False x[symmetric] r(1)] "1.prems" r(2) by blast
    then show ?thesis using False x r by (subst full_write.simps) auto
  qed
qed

lemma flush_console_ok:
  assumes "layout_ok ctx" "cursor_ok ctx" "writes_ok tty"
  shows "\<exists>r tty'. flush_console ctx tty = Inr (ctx\<lparr>row := r, rendered_column := column ctx\<rparr>, tty') \<and>
     layout_ok (ctx\<lparr>row := r, rendered_column := column ctx\<rparr>) \<and> tty_in tty' = tty_in tty \<and> writes_ok tty'"
proof -
  obtain r bytes where d: "draw_line ctx = Inr (ctx\<lparr>row := r, rendered_column := column ctx\<rparr>, bytes)"
    "layout_ok (ctx\<lparr>row := r, rendered_column := column ctx\<rparr>)" using draw_line_ok[OF assms(1,2)] by blast
  obtain out where "full_write (tty_out tty) bytes = (True, out)" "set (plan out) \<subseteq> set (plan (tty_out tty))"
    using full_write_ok[of "tty_out tty" bytes] assms(3) by (auto simp: writes_ok_def)
  then show ?thesis using d assms(3)
    by (intro exI[of _ r] exI[of _ "tty\<lparr>tty_out := out\<rparr>"]) (auto simp: flush_console_def writes_ok_def)
qed

subsection \<open>Text\<close>

definition encoded :: "u32 list \<Rightarrow> byte list" where
  "encoded cs = concat (map utf8_encode cs)"

definition cp_columns :: "u32 \<Rightarrow> nat" where
  "cp_columns c = (case cp_rendered_width c of Inr w \<Rightarrow> w | Inl _ \<Rightarrow> 0)"

definition columns_of :: "u32 list \<Rightarrow> nat" where
  "columns_of cs = sum_list (map cp_columns cs)"

lemma cp_columns: "cp_rendered_width c = Inr (cp_columns c)" "0 < cp_columns c" "cp_columns c \<le> 2"
  using cp_rendered_width_total[of c] by (simp_all add: cp_columns_def)

lemma encoded_simps [simp]: "encoded [] = []" "encoded (c # cs) = utf8_encode c @ encoded cs" "encoded (cs @ ds) = encoded cs @ encoded ds"
  "columns_of [] = 0" "columns_of (c # cs) = cp_columns c + columns_of cs" "columns_of (cs @ ds) = columns_of cs + columns_of ds"
  by (simp_all add: encoded_def columns_of_def)

lemma length_utf8_encode: "0 < length (utf8_encode c)" "length (utf8_encode c) \<le> 4"
  using lead_size_encode(2)[of c] by (simp, simp add: utf8_encode_def)

lemma encoded_length: "length (encoded cs) \<le> 4 * columns_of cs" "encoded cs = [] \<longleftrightarrow> cs = []" "columns_of cs = 0 \<longleftrightarrow> cs = []"
proof -
  show "length (encoded cs) \<le> 4 * columns_of cs"
  proof (induction cs)
    case (Cons c cs)
    then show ?case using length_utf8_encode(2)[of c] cp_columns(2)[of c] by (simp add: add_mono order_trans[of _ 4])
  qed simp
  show "encoded cs = [] \<longleftrightarrow> cs = []" by (cases cs) (simp_all add: lead_size_encode(2))
  show "columns_of cs = 0 \<longleftrightarrow> cs = []" using cp_columns(2) by (cases cs) auto
qed

definition line_shows :: "line_t \<Rightarrow> u32 list \<Rightarrow> u32 list \<Rightarrow> bool" where
  "line_shows ctx l r \<longleftrightarrow>
     (\<exists>slack. line ctx = encoded l @ encoded r @ slack \<and> (l @ r \<noteq> [] \<longrightarrow> take 1 slack = [0])) \<and>
     offset ctx = length (encoded l) \<and> line_size ctx = length (encoded l) + length (encoded r) \<and>
     column ctx = of_nat (columns_of l) \<and> line_len ctx = of_nat (columns_of l + columns_of r) \<and>
     (\<forall>c \<in> set (l @ r). c < 0x110000) \<and> unat (prompt_len ctx) + columns_of l + columns_of r < 2 ^ 15 \<and> layout_ok ctx"

lemma unat_columns: "n < 2 ^ 15 \<Longrightarrow> unat (of_nat n :: u64) = n"
  by (simp add: unat_of_nat take_bit_nat_eq_self)

lemma line_shows_cursor_ok:
  assumes "line_shows ctx l r"
  shows "cursor_ok ctx"
proof -
  have b: "unat (prompt_len ctx) + columns_of l + columns_of r < 2 ^ 15" "column ctx = of_nat (columns_of l)"
    "line_len ctx = of_nat (columns_of l + columns_of r)" "offset ctx = length (encoded l)"
    "line_size ctx = length (encoded l) + length (encoded r)" "line_size ctx \<le> length (line ctx)"
    using assms by (auto simp: line_shows_def)
  then have n: "unat (column ctx) = columns_of l" "unat (line_len ctx) = columns_of l + columns_of r"
    using unat_columns[of "columns_of l"] unat_columns[of "columns_of l + columns_of r"] by simp_all
  have "column ctx = line_len ctx \<longleftrightarrow> r = []" unfolding word_unat_eq_iff n using encoded_length(3)[of r] by simp
  moreover have "line_size ctx < 2 ^ 32" using encoded_length(1)[of l] encoded_length(1)[of r] b(1,5) by simp
  ultimately show ?thesis
    using b n by (simp add: cursor_ok_def word_le_nat_alt encoded_length(2))
qed

text \<open>An operation ends with the line showing this text; the allocation and the input are left.\<close>

definition reaches :: "(line_t \<times> tty_t) c_result \<Rightarrow> line_t \<Rightarrow> tty_t \<Rightarrow> u32 list \<Rightarrow> u32 list \<Rightarrow> bool" where
  "reaches res ctx tty l r \<longleftrightarrow>
     (\<exists>ctx' tty'. res = Inr (ctx', tty') \<and> line_shows ctx' l r \<and> length (line ctx') = length (line ctx) \<and>
        prompt_len ctx' = prompt_len ctx \<and> tty_in tty' = tty_in tty \<and> writes_ok tty')"

lemma shown_flush:
  assumes "line_shows ctx l r" "writes_ok tty"
  shows "reaches (flush_console ctx tty) ctx tty l r"
proof -
  have "layout_ok ctx" using assms(1) by (simp add: line_shows_def)
  from flush_console_ok[OF this line_shows_cursor_ok[OF assms(1)] assms(2)] obtain r' tty' where
    "flush_console ctx tty = Inr (ctx\<lparr>row := r', rendered_column := column ctx\<rparr>, tty')"
    "layout_ok (ctx\<lparr>row := r', rendered_column := column ctx\<rparr>)" "tty_in tty' = tty_in tty" "writes_ok tty'" by blast
  then show ?thesis using assms(1) by (auto simp: line_shows_def reaches_def)
qed

subsection \<open>Editing\<close>

lemma insert_bytes:
  fixes a b x slack :: "byte list"
  assumes "length x < length slack"
  shows "mem_write (mem_write (mem_write (a @ b @ slack) (length a + length x) b) (length a) x) (length a + length b + length x) [0] =
     a @ x @ b @ 0 # drop (Suc (length x)) slack"
proof -
  define y where "y = take (length x) (b @ slack)"
  have y: "length y = length x" using assms by (simp add: y_def)
  have 1: "mem_write (a @ b @ slack) (length a + length x) b = a @ y @ b @ drop (length x) slack"
    using assms by (simp add: mem_write_def y_def)
  have 2: "mem_write (a @ y @ z) (length a) x = a @ x @ z" for z using y by (simp add: mem_write_def)
  have 3: "mem_write (a @ x @ b @ z) (length a + length b + length x) [0] = a @ x @ b @ 0 # drop 1 z" for z
    by (simp add: mem_write_def)
  show ?thesis unfolding 1 2 3 by simp
qed

lemma delete_bytes:
  assumes "mem = a @ x @ b @ slack" "x \<noteq> []"
  shows "mem_write (mem_write mem (length a) b) (length a + length b) [0] = a @ b @ 0 # drop 1 (drop (length b) (x @ b @ slack))"
    "length (mem_write (mem_write mem (length a) b) (length a + length b) [0]) = length mem"
    "mem_store (mem_write mem (length a) b) (length a + length b) [0] =
       Inr (mem_write (mem_write mem (length a) b) (length a + length b) [0])"
proof -
  have len: "length a + length b + 1 \<le> length mem" "length a + length b \<le> length mem"
    using assms length_greater_0_conv[of x] unfolding assms(1) length_append by linarith+
  then show "length (mem_write (mem_write mem (length a) b) (length a + length b) [0]) = length mem"
    "mem_store (mem_write mem (length a) b) (length a + length b) [0] =
       Inr (mem_write (mem_write mem (length a) b) (length a + length b) [0])"
    by simp_all
  show "mem_write (mem_write mem (length a) b) (length a + length b) [0] = a @ b @ 0 # drop 1 (drop (length b) (x @ b @ slack))"
    unfolding assms(1) by (simp add: mem_write_def)
qed

lemma size_sub: "b \<le> a \<Longrightarrow> a < 2 ^ 64 \<Longrightarrow> size_sub a b = a - b"
  by (simp add: size_sub_def mod_if)

lemma reaches_cong: "reaches res ctx1 tty l r \<Longrightarrow> length (line ctx1) = length (line ctx) \<Longrightarrow> prompt_len ctx1 = prompt_len ctx \<Longrightarrow> reaches res ctx tty l r"
  by (simp add: reaches_def)

lemma memmove_tail:
  assumes "length x < length slack"
  shows "memmove (a @ b @ slack) (length a + length x) (length a) (length b) =
     Inr (mem_write (a @ b @ slack) (length a + length x) b)"
  using assms by (simp add: memmove_def mem_read_def)

lemma insert_char_shows:
  assumes "line_shows ctx l r" "writes_ok tty" "c < 0x110000"
    and "line_size ctx + length (utf8_encode c) < length (line ctx)"
    and "unat (prompt_len ctx) + columns_of l + columns_of r + cp_columns c < 2 ^ 15"
  shows "reaches (c_bind (insert_char ctx tty (utf8_encode c @ pad) (length (utf8_encode c))) (\<lambda>(_, ctx, tty). Inr (ctx, tty)))
     ctx tty (l @ [c]) r"
proof -
  let ?a = "encoded l" and ?b = "encoded r" and ?x = "utf8_encode c"
  obtain slack where m: "line ctx = ?a @ ?b @ slack" "offset ctx = length ?a" "line_size ctx = length ?a + length ?b"
    "column ctx = of_nat (columns_of l)" "line_len ctx = of_nat (columns_of l + columns_of r)" "layout_ok ctx"
    "\<forall>c \<in> set (l @ r). c < 0x110000"
    using assms(1) by (auto simp: line_shows_def)
  have slack: "length ?x < length slack" using assms(4) m(1,3) by simp
  have size: "size_sub (line_size ctx) (offset ctx) = length ?b"
    using line_shows_cursor_ok[OF assms(1)] m(2,3) by (simp add: cursor_ok_def size_sub)
  let ?mem = "mem_write (mem_write (?a @ ?b @ slack) (length ?a + length ?x) ?b) (length ?a) ?x"
  define ctx1 where "ctx1 = ctx\<lparr>offset := length ?a + length ?x, line_size := length ?a + length ?b + length ?x,
    line_len := line_len ctx + of_nat (cp_columns c), column := column ctx + of_nat (cp_columns c),
    line := mem_write ?mem (length ?a + length ?b + length ?x) [0]\<rparr>"
  have "line_shows ctx1 (l @ [c]) r"
    using m assms(3,5) slack unfolding ctx1_def insert_bytes[OF slack] by (auto simp: line_shows_def layout_ok_def)
  moreover have "length (line ctx1) = length (line ctx)" "prompt_len ctx1 = prompt_len ctx"
    using m(1) slack unfolding ctx1_def insert_bytes[OF slack] by simp_all
  moreover have "insert_char ctx tty (?x @ pad) (length ?x) = c_bind (flush_console ctx1 tty) (\<lambda>(ctx, tty). Inr (True, ctx, tty))"
  proof -
    have "codepoint_width (?x @ pad) 0 (length ?x) = Inr (cp_columns c)"
      using decode_encode[OF assms(3), of "[]" pad] cp_columns(1)[of c] by (simp add: codepoint_width_def)
    moreover have "(if line_size ctx \<noteq> offset ctx
        then memmove (line ctx) (offset ctx + length ?x) (offset ctx) (size_sub (line_size ctx) (offset ctx)) else Inr (line ctx)) =
        Inr (mem_write (?a @ ?b @ slack) (length ?a + length ?x) ?b)"
      using memmove_tail[OF slack, of ?a ?b] size m(1-3) by (cases "?b = []") (simp_all add: mem_write_def)
    ultimately show ?thesis
      using m(1-3) slack cp_columns(2)[of c] unfolding insert_char_def
      by (simp add: ctx1_def Let_def m(4,5) mem_read_def split del: if_split)
  qed
  ultimately show ?thesis using shown_flush[of ctx1 "l @ [c]" r tty] assms(2) by (auto simp: reaches_def)
qed

text \<open>Deleting the code point before or behind the cursor.\<close>

lemma shown_after_delete:
  assumes "line_shows ctx l (c # r)"
  defines "mem \<equiv> mem_write (mem_write (line ctx) (length (encoded l)) (encoded r)) (length (encoded l) + length (encoded r)) [0]"
  shows "line_shows (ctx\<lparr>line_size := length (encoded l) + length (encoded r), line := mem,
           line_len := of_nat (columns_of l + columns_of r)\<rparr>) l r" "length mem = length (line ctx)"
proof -
  obtain slack where m: "line ctx = encoded l @ utf8_encode c @ encoded r @ slack" using assms(1) by (auto simp: line_shows_def)
  have mem: "mem = encoded l @ encoded r @ 0 # drop 1 (drop (length (encoded r)) (utf8_encode c @ encoded r @ slack))"
    unfolding mem_def by (rule delete_bytes(1)[OF m lead_size_encode(2)])
  show "line_shows (ctx\<lparr>line_size := length (encoded l) + length (encoded r), line := mem,
      line_len := of_nat (columns_of l + columns_of r)\<rparr>) l r"
    using assms(1) unfolding mem by (auto simp: line_shows_def layout_ok_def)
  show "length mem = length (line ctx)" unfolding mem_def by (rule delete_bytes(2)[OF m lead_size_encode(2)])
qed

lemma move_shows:
  assumes "line_shows ctx l r"
  shows "\<exists>ctx'. c_bind (move_cursor_left ctx) (\<lambda>(_, ctx). Inr ctx) = Inr ctx' \<and>
       line_shows ctx' (butlast l) (if l = [] then r else last l # r) \<and> line ctx' = line ctx \<and> prompt_len ctx' = prompt_len ctx"
    and "\<exists>ctx'. c_bind (move_cursor_right ctx) (\<lambda>(_, ctx). Inr ctx) = Inr ctx' \<and>
       line_shows ctx' (l @ take 1 r) (tl r) \<and> line ctx' = line ctx \<and> prompt_len ctx' = prompt_len ctx"
    and "line_shows (ctx\<lparr>offset := 0, column := 0\<rparr>) [] (l @ r)"
    and "line_shows (ctx\<lparr>offset := line_size ctx, column := line_len ctx\<rparr>) (l @ r) []"
proof -
  obtain slack where m: "line ctx = encoded l @ encoded r @ slack" "offset ctx = length (encoded l)"
    "line_size ctx = length (encoded l) + length (encoded r)"
    "column ctx = of_nat (columns_of l)" "line_len ctx = of_nat (columns_of l + columns_of r)" "layout_ok ctx"
    "\<forall>c \<in> set (l @ r). c < 0x110000" "l @ r \<noteq> [] \<longrightarrow> take 1 slack = [0]" "unat (prompt_len ctx) + columns_of l + columns_of r < 2 ^ 15"
    using assms by (auto simp: line_shows_def)
  show "line_shows (ctx\<lparr>offset := 0, column := 0\<rparr>) [] (l @ r)" "line_shows (ctx\<lparr>offset := line_size ctx, column := line_len ctx\<rparr>) (l @ r) []"
    using m by (auto simp: line_shows_def layout_ok_def add.assoc)
  show "\<exists>ctx'. c_bind (move_cursor_left ctx) (\<lambda>(_, ctx). Inr ctx) = Inr ctx' \<and>
       line_shows ctx' (butlast l) (if l = [] then r else last l # r) \<and> line ctx' = line ctx \<and> prompt_len ctx' = prompt_len ctx"
  proof (cases l rule: rev_cases)
    case Nil
    then show ?thesis using assms m(2) by (simp add: move_cursor_left_def)
  next
    case (snoc l' c)
    have "prev_codepoint (line ctx) (offset ctx) True = Inr (length (encoded l'), length (utf8_encode c), Some (cp_columns c))"
      using codepoint_steps[of c "encoded l'" "encoded r @ slack"] m(1,2,7) snoc cp_columns(1)[of c] by auto
    then have "move_cursor_left ctx = Inr (True, ctx\<lparr>offset := length (encoded l'), column := of_nat (columns_of l')\<rparr>)"
      using m(2,4) snoc length_utf8_encode(1)[of c] by (simp add: move_cursor_left_def)
    then show ?thesis using m snoc by (auto simp: line_shows_def layout_ok_def add.assoc)
  qed
  show "\<exists>ctx'. c_bind (move_cursor_right ctx) (\<lambda>(_, ctx). Inr ctx) = Inr ctx' \<and>
       line_shows ctx' (l @ take 1 r) (tl r) \<and> line ctx' = line ctx \<and> prompt_len ctx' = prompt_len ctx"
  proof (cases r)
    case Nil
    then show ?thesis using assms m(2,3) by (simp add: move_cursor_right_def)
  next
    case (Cons c r')
    have "next_codepoint (line ctx) (offset ctx) True =
        Inr (length (encoded l) + length (utf8_encode c), length (utf8_encode c), Some (cp_columns c))"
      using codepoint_steps[of c "encoded l" "encoded r' @ slack"] m(1,2,7) Cons cp_columns(1)[of c] by auto
    then have "move_cursor_right ctx =
        Inr (True, ctx\<lparr>offset := length (encoded (l @ [c])), column := of_nat (columns_of (l @ [c]))\<rparr>)"
      using m(2,3,4) Cons length_utf8_encode(1)[of c] by (simp add: move_cursor_right_def)
    then show ?thesis using m Cons by (auto simp: line_shows_def layout_ok_def add.assoc)
  qed
qed

lemma delete_char_shows:
  assumes "line_shows ctx l r" "writes_ok tty"
  shows "reaches (delete_char ctx tty False) ctx tty (butlast l) r"
proof (cases l rule: rev_cases)
  case Nil
  then show ?thesis using assms by (auto simp: delete_char_def reaches_def line_shows_def)
next
  case (snoc l' c)
  let ?a = "encoded l'" and ?b = "encoded r" and ?x = "utf8_encode c"
  obtain slack where m: "line ctx = ?a @ ?x @ ?b @ slack" "offset ctx = length ?a + length ?x"
    "line_size ctx = length ?a + length ?x + length ?b" "column ctx = of_nat (columns_of l') + of_nat (cp_columns c)"
    "line_len ctx = of_nat (columns_of l' + columns_of r) + of_nat (cp_columns c)" "c < 0x110000"
    using assms(1) snoc by (auto simp: line_shows_def)
  have size: "line_size ctx < 2 ^ 64" using line_shows_cursor_ok[OF assms(1)] by (simp add: cursor_ok_def)
  define ctx0 where "ctx0 = ctx\<lparr>offset := length ?a, column := of_nat (columns_of l')\<rparr>"
  define ctx1 where "ctx1 = ctx0\<lparr>line_size := length ?a + length ?b,
    line := mem_write (mem_write (line ctx0) (length ?a) ?b) (length ?a + length ?b) [0],
    line_len := of_nat (columns_of l' + columns_of r)\<rparr>"
  have "line_shows ctx0 l' (c # r)"
    using assms(1) snoc by (auto simp: line_shows_def layout_ok_def ctx0_def add.assoc)
  then have ctx1: "line_shows ctx1 l' r" "length (line ctx1) = length (line ctx)" "prompt_len ctx1 = prompt_len ctx"
    using shown_after_delete[of ctx0 l' c r] by (simp_all add: ctx1_def ctx0_def)
  have "prev_codepoint (line ctx) (offset ctx) True = Inr (length ?a, length ?x, Some (cp_columns c))"
    using codepoint_steps[OF m(6), of ?a "?b @ slack"] m(1,2) cp_columns(1)[of c] by auto
  moreover have "size_sub (line_size ctx) (offset ctx) = length ?b" "size_sub (line_size ctx) (length ?x) = length ?a + length ?b"
    using size m(2,3) by (simp_all add: size_sub)
  moreover have "memmove (line ctx) (length ?a) (length ?a + length ?x) (length ?b) = Inr (mem_write (line ctx) (length ?a) ?b)"
    unfolding m(1) by (simp add: memmove_def mem_read_def)
  ultimately have "delete_char ctx tty False = flush_console ctx1 tty"
    using m(2-5) delete_bytes(3)[OF m(1) lead_size_encode(2)] lead_size_encode(2)[of c]
    by (simp add: delete_char_def ctx1_def ctx0_def Let_def)
  then show ?thesis using reaches_cong[OF shown_flush[OF ctx1(1) assms(2)] ctx1(2,3)] snoc by simp
qed

lemma delete_forward_shows:
  assumes "line_shows ctx l r" "writes_ok tty"
  shows "reaches (delete_char ctx tty True) ctx tty l (tl r)"
proof (cases r)
  case Nil
  then show ?thesis using assms by (auto simp: delete_char_def reaches_def line_shows_def)
next
  case (Cons c r')
  let ?a = "encoded l" and ?b = "encoded r'" and ?x = "utf8_encode c"
  obtain slack where m: "line ctx = ?a @ ?x @ ?b @ slack" "offset ctx = length ?a" "line_size ctx = length ?a + (length ?x + length ?b)"
    "line_len ctx = of_nat (columns_of l + columns_of r') + of_nat (cp_columns c)" "c < 0x110000"
    using assms(1) Cons by (auto simp: line_shows_def add.assoc)
  have size: "line_size ctx < 2 ^ 64" using line_shows_cursor_ok[OF assms(1)] by (simp add: cursor_ok_def)
  define ctx1 where "ctx1 = ctx\<lparr>line_size := length ?a + length ?b,
    line := mem_write (mem_write (line ctx) (length ?a) ?b) (length ?a + length ?b) [0],
    line_len := of_nat (columns_of l + columns_of r')\<rparr>"
  have ctx1: "line_shows ctx1 l r'" "length (line ctx1) = length (line ctx)" "prompt_len ctx1 = prompt_len ctx"
    using shown_after_delete[of ctx l c r'] assms(1) Cons by (simp_all add: ctx1_def)
  have "next_codepoint (line ctx) (offset ctx) True = Inr (length ?a + length ?x, length ?x, Some (cp_columns c))"
    using codepoint_steps[OF m(5), of ?a "?b @ slack"] m(1,2) cp_columns(1)[of c] by auto
  moreover have "size_sub (line_size ctx) (offset ctx) = length ?x + length ?b" "size_sub (length ?x + length ?b) (length ?x) = length ?b"
    "size_sub (line_size ctx) (length ?x) = length ?a + length ?b"
    using size m(2,3) by (simp_all add: size_sub)
  moreover have "memmove (line ctx) (length ?a) (length ?a + length ?x) (length ?b) = Inr (mem_write (line ctx) (length ?a) ?b)"
    unfolding m(1) by (simp add: memmove_def mem_read_def)
  ultimately have "delete_char ctx tty True = flush_console ctx1 tty"
    using m(2,3,4) delete_bytes(3)[OF m(1) lead_size_encode(2)] lead_size_encode(2)[of c]
    by (simp add: delete_char_def ctx1_def Let_def)
  then show ?thesis using reaches_cong[OF shown_flush[OF ctx1(1) assms(2)] ctx1(2,3)] Cons by simp
qed

end
