(* ===== verification/Line_Keys.thy ===== *)
theory Line_Keys
  imports Line_Editor
begin

text \<open>
  The keys of the line editor: what \<^verbatim>\<open>xgetline\<close> reads from the terminal edits the text with a cursor
  that the struct shows.
\<close>

subsection \<open>Keys\<close>

text \<open>A text with a cursor, and the keys that edit it.\<close>

datatype edit = Insert u32 | Left | Right | Home | End | Backspace | Delete | JumpForward | JumpBackward

fun apply_edit :: "edit \<Rightarrow> u32 list \<times> u32 list \<Rightarrow> u32 list \<times> u32 list" where
  "apply_edit (Insert c) (l, r) = (l @ [c], r)"
| "apply_edit Left (l, r) = (butlast l, if l = [] then r else last l # r)"
| "apply_edit Right (l, r) = (l @ take 1 r, tl r)"
| "apply_edit Home (l, r) = ([], l @ r)"
| "apply_edit End (l, r) = (l @ r, [])"
| "apply_edit Backspace (l, r) = (butlast l, r)"
| "apply_edit Delete (l, r) = (l, tl r)"
| "apply_edit JumpForward (l, r) =
     (let spaces = takeWhile (\<lambda>c. c = 0x20) r; rest = dropWhile (\<lambda>c. c = 0x20) r
      in (l @ spaces @ takeWhile (\<lambda>c. c \<noteq> 0x20) rest, dropWhile (\<lambda>c. c \<noteq> 0x20) rest))"
| "apply_edit JumpBackward (l, r) =
     (let spaces = takeWhile (\<lambda>c. c = 0x20) (rev l); rest = dropWhile (\<lambda>c. c = 0x20) (rev l)
      in (rev (dropWhile (\<lambda>c. c \<noteq> 0x20) rest), rev (takeWhile (\<lambda>c. c \<noteq> 0x20) rest) @ rev spaces @ r))"

fun key_bytes :: "edit \<Rightarrow> byte list" where
  "key_bytes (Insert c) = utf8_encode c"
| "key_bytes Left = [27, 0x5b, 0x44]"
| "key_bytes Right = [27, 0x5b, 0x43]"
| "key_bytes Home = [27, 0x5b, 0x48]"
| "key_bytes End = [27, 0x5b, 0x46]"
| "key_bytes Backspace = [127]"
| "key_bytes Delete = [27, 0x5b, 0x33, 0x7e]"
| "key_bytes JumpForward = [27, 0x5b, 0x31, 0x3b, 0x35, 0x43]"
| "key_bytes JumpBackward = [27, 0x5b, 0x31, 0x3b, 0x35, 0x44]"

text \<open>When the code stays within the allocation of \<open>n\<close> bytes: an insertion must leave room for the
  terminating NUL, and jumping backward needs a space before the word.\<close>

fun edit_fits :: "nat \<Rightarrow> edit \<Rightarrow> u32 list \<times> u32 list \<Rightarrow> bool" where
  "edit_fits n (Insert c) (l, r) \<longleftrightarrow> length (encoded (l @ r)) + length (utf8_encode c) < n"
| "edit_fits n JumpBackward (l, r) \<longleftrightarrow> (\<exists>c \<in> set (dropWhile (\<lambda>c. c = 0x20) (rev l)). c = 0x20)"
| "edit_fits n _ t \<longleftrightarrow> True"

text \<open>The allocation doubles when all but two of its bytes are used, and at no other size.\<close>

fun alloc_for :: "nat \<Rightarrow> u32 list \<times> u32 list \<Rightarrow> nat" where
  "alloc_for n (l, r) = (if length (encoded (l @ r)) = n - 2 then n * 2 else n)"

fun edits_fit :: "nat \<Rightarrow> edit list \<Rightarrow> u32 list \<times> u32 list \<Rightarrow> bool" where
  "edits_fit n [] t \<longleftrightarrow> True"
| "edits_fit n (e # es) t \<longleftrightarrow> edit_fits (alloc_for n t) e t \<and> edits_fit (alloc_for n t) es (apply_edit e t)"

definition typable :: "u32 \<Rightarrow> bool" where
  "typable c \<longleftrightarrow> 0x20 \<le> c \<and> c \<noteq> 0x7f \<and> c < 0x110000"

definition pending :: "byte list \<Rightarrow> recv_event list \<Rightarrow> recv_event list" where
  "pending bs rx = (if bs = [] then rx else Segment bs # rx)"

lemma xrecv_pending: "xs \<noteq> [] \<Longrightarrow> xrecv (pending (xs @ ys) rx) (length xs) = (int (length xs), xs, pending ys rx)"
  by (simp add: pending_def)

lemma xgetch_pending: "tty_in tty = pending (b # bs) rx \<Longrightarrow> xgetch tty = (b, tty\<lparr>tty_in := pending bs rx\<rparr>)"
  using xrecv_pending[of "[b]" bs rx] by (simp add: xgetch_def)

lemma xgetcp_ascii:
  "tty_in tty = pending (b # bs) rx \<Longrightarrow> b < 0x80 \<Longrightarrow> xgetcp tty = (1, [b, 0, 0, 0], tty\<lparr>tty_in := pending bs rx\<rparr>)"
  using xrecv_pending[of "[b]" bs rx] by (simp add: xgetcp_def mem_write_def numeral_eq_Suc)

lemma lead_byte_bound:
  assumes "c < 0x110000" "length (utf8_encode c) = 4"
  shows "hd (utf8_encode c) \<le> 0xf4"
proof -
  have "\<not> c < 0x80" "\<not> c < 0x800" "\<not> c < 0x10000" using assms(2) by (auto simp: utf8_encode_def split: if_splits)
  then have hd: "hd (utf8_encode c) = 0xf0 OR (ucast (drop_bit 18 c) AND 0x07)" by (simp add: utf8_encode_def)
  have "unat (drop_bit 18 c) < 5" using assms(1) by (simp add: drop_bit_eq_div word_less_nat_alt unat_div less_mult_imp_div_less)
  then have "drop_bit 18 c \<in> {0, 1, 2, 3, 4}" by (simp add: word_unat_eq_iff) linarith
  then show ?thesis unfolding hd by auto
qed

lemma ascii_bytes_less:
  "c < 0x80 \<Longrightarrow> (ucast c :: byte) < 0x80" "b < 0x80 \<Longrightarrow> lead_size b = 1" for c :: u32 and b :: byte
proof -
  show "(ucast c :: byte) < 0x80" if "c < 0x80"
    using that by (simp add: word_less_nat_alt unsigned_ucast_eq take_bit_nat_eq_self)
  assume "b < 0x80"
  then have "(ucast b :: u32) < 0x80" by (simp add: word_less_nat_alt unsigned_ucast_eq take_bit_nat_eq_self)
  then have "(ucast (ucast b :: u32) :: byte) AND 0x80 = 0" by (rule ascii_byte(1))
  moreover have "(ucast (ucast b :: u32) :: byte) = b" by (rule bit_word_eqI) (simp add: bit_simps)
  ultimately show "lead_size b = 1" by (intro ascii_masks) simp
qed

lemma xgetcp_multi:
  assumes "xrecv (tty_in tty) 1 = (1, [b], rx)" "\<not> b < 0x80" "n \<noteq> 0" "xrecv rx (n - 1) = (int (n - 1), cs, rx')"
    and "(if b AND 0xf8 = 0xf0 \<and> b \<le> 0xf4 then 4 else if b AND 0xf0 = 0xe0 then 3 else if b AND 0xe0 = 0xc0 then 2 else 0) = n"
  shows "xgetcp tty = (n, mem_write (mem_write (replicate 4 0) 0 [b]) 1 cs, tty\<lparr>tty_in := rx'\<rparr>)"
  using assms(2-4) unfolding xgetcp_def Let_def assms(1) prod.case nth_Cons_0 assms(5) by simp

text \<open>\<^verbatim>\<open>xgetcp\<close> reads exactly the bytes of an encoded code point that lie together in the input.\<close>

lemma xgetcp_encoded:
  assumes "tty_in tty = pending (utf8_encode c @ bs) rx" "c < 0x110000"
  shows "xgetcp tty = (length (utf8_encode c), utf8_encode c @ replicate (4 - length (utf8_encode c)) 0, tty\<lparr>tty_in := pending bs rx\<rparr>)"
proof (cases "c < 0x80")
  case True
  then have "utf8_encode c = [ucast c]" by (simp add: utf8_encode_def)
  then show ?thesis using xgetcp_ascii[of tty "ucast c" bs rx] assms(1) ascii_bytes_less(1)[OF True] by (simp add: numeral_eq_Suc)
next
  case False
  obtain b cs where e: "utf8_encode c = b # cs" using lead_size_encode(2)[of c] by (cases "utf8_encode c") auto
  have cs: "cs \<noteq> []" using False e by (auto simp: utf8_encode_def split: if_splits)
  have n: "lead_size b = Suc (length cs)" using lead_size_encode(1)[of c] e by simp
  then have "\<not> b < 0x80" using ascii_bytes_less(2)[of b] cs by auto
  moreover have "Suc (length cs) = 4 \<Longrightarrow> b \<le> 0xf4" using lead_byte_bound[OF assms(2)] e by simp
  then have "(if b AND 0xf8 = 0xf0 \<and> b \<le> 0xf4 then 4 else if b AND 0xf0 = 0xe0 then 3 else if b AND 0xe0 = 0xc0 then 2 else 0) = Suc (length cs)"
    using n cs unfolding lead_size_def by (metis length_0_conv old.nat.inject One_nat_def)
  moreover have "length cs \<le> 3" using length_utf8_encode(2)[of c] e by simp
  ultimately show ?thesis
    using xgetcp_multi[of tty b "pending (cs @ bs) rx" "Suc (length cs)" cs "pending bs rx"]
      xrecv_pending[of "[b]" "cs @ bs" rx] xrecv_pending[OF cs, of bs rx] assms(1) e
    by (simp add: mem_write_def)
qed

subsection \<open>Words\<close>

lemma encoded_lead:
  assumes "typable c"
  shows "hd (utf8_encode c) = 0x20 \<longleftrightarrow> c = 0x20" "hd (utf8_encode c) \<noteq> 0"
    "mem_at (encoded l @ utf8_encode c @ rest) (length (encoded l)) = Inr (hd (utf8_encode c))"
proof -
  show "mem_at (encoded l @ utf8_encode c @ rest) (length (encoded l)) = Inr (hd (utf8_encode c))"
    using lead_size_encode(2)[of c] by (cases "utf8_encode c") simp_all
  have "(hd (utf8_encode c) = 0x20 \<longleftrightarrow> c = 0x20) \<and> hd (utf8_encode c) \<noteq> 0"
  proof (cases "c < 0x80")
    case True
    define x :: byte where "x = ucast c"
    have "c = ucast x" using ascii_byte(2)[OF True] by (simp add: x_def)
    then have "x = 0x20 \<Longrightarrow> c = 0x20" "x = 0 \<Longrightarrow> c = 0" by simp_all
    moreover have "c = 0x20 \<Longrightarrow> x = 0x20" "c \<noteq> 0" using assms by (auto simp: x_def typable_def)
    ultimately have "(x = 0x20 \<longleftrightarrow> c = 0x20) \<and> x \<noteq> 0" by blast
    moreover have "hd (utf8_encode c) = x" using True by (simp add: utf8_encode_def x_def)
    ultimately show ?thesis by simp
  next
    case False
    obtain b cs where e: "utf8_encode c = b # cs" using lead_size_encode(2)[of c] by (cases "utf8_encode c") auto
    then have "cs \<noteq> []" using False by (auto simp: utf8_encode_def split: if_splits)
    then have "lead_size b \<noteq> 1" using lead_size_encode(1)[of c] e by simp
    then have "\<not> b < 0x80" using ascii_bytes_less(2) by blast
    moreover have "c \<noteq> 0x20" using False by auto
    ultimately show ?thesis using e by auto
  qed
  then show "hd (utf8_encode c) = 0x20 \<longleftrightarrow> c = 0x20" "hd (utf8_encode c) \<noteq> 0" by simp_all
qed

lemma word_back_shows:
  assumes "line_shows ctx l r" "\<And>c. c \<in> set l \<Longrightarrow> typable c \<and> g (hd (utf8_encode c)) = G c"
  shows "if \<forall>c \<in> set l. G c then word_back g ctx = Inl OutOfBounds
     else \<exists>ctx'. word_back g ctx = Inr ctx' \<and> line_shows ctx' (rev (dropWhile G (rev l))) (rev (takeWhile G (rev l)) @ r) \<and>
            line ctx' = line ctx \<and> prompt_len ctx' = prompt_len ctx"
  using assms
proof (induction l arbitrary: ctx r rule: rev_induct)
  case Nil
  then have "offset ctx = 0" by (simp add: line_shows_def)
  then show ?case by (subst word_back.simps) (simp add: prev_codepoint_def)
next
  case (snoc c l)
  obtain slack where m: "line ctx = encoded l @ utf8_encode c @ encoded r @ slack" "offset ctx = length (encoded l) + length (utf8_encode c)"
    "c < 0x110000" using snoc.prems(1) by (auto simp: line_shows_def)
  have c: "typable c" "g (hd (utf8_encode c)) = G c" using snoc.prems(2) by simp_all
  have "prev_codepoint (line ctx) (offset ctx) False = Inr (length (encoded l), length (utf8_encode c), None)"
    using codepoint_steps[of c "encoded l" "encoded r @ slack"] m cp_columns(1)[of c] by (auto simp: prev_codepoint_def elim!: c_bind_InrE)
  moreover have "mem_at (line ctx) (length (encoded l)) = Inr (hd (utf8_encode c))" unfolding m(1) by (rule encoded_lead(3)[OF c(1)])
  ultimately have step: "word_back g ctx =
      (if G c then c_bind (move_cursor_left ctx) (\<lambda>(moved, ctx). if \<not> moved then Inr ctx else word_back g ctx) else Inr ctx)"
    using c(2) by (subst word_back.simps) simp
  obtain b ctx1 where mv: "move_cursor_left ctx = Inr (b, ctx1)" "line_shows ctx1 l (c # r)" "line ctx1 = line ctx" "prompt_len ctx1 = prompt_len ctx"
    using move_shows(1)[OF snoc.prems(1)] by (auto elim!: c_bind_InrE)
  have "b" using mv(1) m(2) length_utf8_encode(1)[of c] by (auto simp: move_cursor_left_def elim!: c_bind_InrE split: if_splits)
  then have "G c \<Longrightarrow> word_back g ctx = word_back g ctx1" using step mv(1) by simp
  moreover have "\<not> G c \<Longrightarrow> word_back g ctx = Inr ctx" using step by simp
  ultimately show ?case using snoc.IH[OF mv(2)] snoc.prems mv(3,4) by (cases "G c") (auto split: if_splits)
qed

lemma word_forward_shows:
  assumes "line_shows ctx l r" "\<And>c. c \<in> set r \<Longrightarrow> typable c \<and> s (hd (utf8_encode c)) = (\<not> G c)"
  shows "\<exists>ctx'. word_forward s ctx = Inr ctx' \<and> line_shows ctx' (l @ takeWhile G r) (dropWhile G r) \<and>
     line ctx' = line ctx \<and> prompt_len ctx' = prompt_len ctx"
  using assms
proof (induction r arbitrary: ctx l)
  case Nil
  then have "offset ctx = line_size ctx" by (simp add: line_shows_def)
  then show ?case using Nil by (subst word_forward.simps) simp
next
  case (Cons c r)
  obtain slack where m: "line ctx = encoded l @ utf8_encode c @ encoded r @ slack" "offset ctx = length (encoded l)"
    "offset ctx < line_size ctx" using Cons.prems(1) length_utf8_encode(1)[of c] by (auto simp: line_shows_def)
  have c: "typable c" "s (hd (utf8_encode c)) = (\<not> G c)" using Cons.prems(2) by simp_all
  have "mem_at (line ctx) (offset ctx) = Inr (hd (utf8_encode c))" unfolding m(1,2) by (rule encoded_lead(3)[OF c(1)])
  then have step: "word_forward s ctx =
      (if \<not> G c then Inr ctx else c_bind (move_cursor_right ctx) (\<lambda>(_, ctx). word_forward s ctx))"
    using c(2) m(3) encoded_lead(2)[OF c(1)] by (subst word_forward.simps) simp
  obtain b ctx1 where mv: "move_cursor_right ctx = Inr (b, ctx1)" "line_shows ctx1 (l @ [c]) r" "line ctx1 = line ctx" "prompt_len ctx1 = prompt_len ctx"
    using move_shows(2)[OF Cons.prems(1)] by (auto elim!: c_bind_InrE)
  show ?case
  proof (cases "G c")
    case True
    then show ?thesis using Cons.IH[OF mv(2)] Cons.prems(2) mv step by auto
  next
    case False
    then show ?thesis using step Cons.prems(1) by simp
  qed
qed

subsection \<open>Acting on a key\<close>

fun edit_action :: "edit \<Rightarrow> line_t \<Rightarrow> tty_t \<Rightarrow> (line_t \<times> tty_t) c_result" where
  "edit_action (Insert c) ctx tty =
     c_bind (insert_char ctx tty (utf8_encode c @ replicate (4 - length (utf8_encode c)) 0) (length (utf8_encode c)))
       (\<lambda>(_, ctx, tty). Inr (ctx, tty))"
| "edit_action Left ctx tty = update_cursor_pos ctx tty MOVE_LEFT"
| "edit_action Right ctx tty = update_cursor_pos ctx tty MOVE_RIGHT"
| "edit_action Home ctx tty = update_cursor_pos ctx tty MOVE_HOME"
| "edit_action End ctx tty = update_cursor_pos ctx tty MOVE_END"
| "edit_action Backspace ctx tty = delete_char ctx tty False"
| "edit_action Delete ctx tty = delete_char ctx tty True"
| "edit_action JumpForward ctx tty = update_cursor_pos ctx tty JUMP_FORWARD"
| "edit_action JumpBackward ctx tty = update_cursor_pos ctx tty JUMP_BACKWARD"

lemma typable_lead:
  assumes "typable c"
  shows "hd (utf8_encode c) \<notin> {0, 9, 13, 27, 127}"
proof (cases "c < 0x80")
  case True
  define x :: byte where "x = ucast c"
  have "c = ucast x" using ascii_byte(2)[OF True] by (simp add: x_def)
  then have "x \<noteq> 0 \<and> x \<noteq> 9 \<and> x \<noteq> 13 \<and> x \<noteq> 27 \<and> x \<noteq> 127" using assms by (auto simp: typable_def)
  moreover have "hd (utf8_encode c) = x" using True by (simp add: utf8_encode_def x_def)
  ultimately show ?thesis by simp
next
  case False
  obtain b cs where e: "utf8_encode c = b # cs" using lead_size_encode(2)[of c] by (cases "utf8_encode c") auto
  then have "cs \<noteq> []" using False by (auto simp: utf8_encode_def split: if_splits)
  then have "lead_size b \<noteq> 1" using lead_size_encode(1)[of c] e by simp
  then have "\<not> b < 0x80" using ascii_bytes_less(2) by blast
  then show ?thesis using e by auto
qed

lemma line_key_action:
  assumes "resize_line ctx = Inr (Some ctx1)" "tty_in tty = pending (key_bytes e @ bs) rx" "\<And>c. e = Insert c \<Longrightarrow> typable c"
  shows "line_key ctx tty = c_bind (edit_action e ctx1 (tty\<lparr>tty_in := pending bs rx\<rparr>)) (\<lambda>(ctx, tty). Inr (Continue, ctx, tty))"
proof (cases e)
  case (Insert c)
  then have c: "typable c" "c < 0x110000" using assms(3) by (simp_all add: typable_def)
  obtain b cs where e: "utf8_encode c = b # cs" using lead_size_encode(2)[of c] by (cases "utf8_encode c") auto
  have "b \<notin> {0, 9, 13, 27, 127}" using typable_lead[OF c(1)] e by simp
  then show ?thesis
    using assms(1) xgetcp_encoded[of tty c bs rx] assms(2) Insert c(2) e unfolding line_key_def by (simp add: c_bind_assoc case_prod_unfold)
qed (use assms(1,2) in \<open>auto simp: line_key_def escape_key_def xgetcp_ascii xgetch_pending c_bind_assoc case_prod_unfold\<close>)

lemma resize_shows:
  assumes "line_shows ctx l r" "2 < length (line ctx)"
  shows "\<exists>ctx'. resize_line ctx = Inr (Some ctx') \<and> line_shows ctx' l r \<and> prompt_len ctx' = prompt_len ctx \<and>
     length (line ctx') = alloc_for (length (line ctx)) (l, r)"
proof -
  have s: "line_size ctx = length (encoded (l @ r))" using assms(1) by (simp add: line_shows_def)
  show ?thesis
  proof (cases "line_size ctx = length (line ctx) - 2")
    case True
    let ?ctx = "ctx\<lparr>line := line ctx @ replicate (length (line ctx)) 0\<rparr>"
    have "line_size ctx < 2 ^ 32" using line_shows_cursor_ok[OF assms(1)] by (simp add: cursor_ok_def)
    then have "length (line ctx) < 2 ^ 33" using True by simp
    then have "resize_line ctx = Inr (Some ?ctx)" using True assms(2) by (auto simp: resize_line_def xrealloc_def)
    moreover have "line_shows ?ctx l r" using assms by (auto simp: line_shows_def layout_ok_def)
    ultimately show ?thesis using True s assms(2) by (auto)
  next
    case False
    then show ?thesis using assms(1) s by (auto simp: resize_line_def)
  qed
qed

lemma word_start_shows:
  assumes "line_shows ctx l r" "\<And>c. c \<in> set l \<Longrightarrow> typable c"
  defines "l1 \<equiv> rev (dropWhile (\<lambda>c. c = 0x20) (rev l))" and "r1 \<equiv> rev (takeWhile (\<lambda>c. c = 0x20) (rev l)) @ r"
  shows "if 0x20 \<in> set l1
     then \<exists>ctx'. move_cursor_word_start ctx = Inr ctx' \<and>
            line_shows ctx' (rev (dropWhile (\<lambda>c. c \<noteq> 0x20) (rev l1))) (rev (takeWhile (\<lambda>c. c \<noteq> 0x20) (rev l1)) @ r1) \<and>
            line ctx' = line ctx \<and> prompt_len ctx' = prompt_len ctx
     else move_cursor_word_start ctx = Inl OutOfBounds"
proof -
  have all: "(\<forall>c \<in> set l. c = 0x20) \<longleftrightarrow> l1 = []" by (simp add: l1_def dropWhile_eq_Nil_conv)
  have "typable c \<and> (hd (utf8_encode c) = 0x20) = (c = 0x20)" if "c \<in> set l" for c
    using assms(2)[OF that] encoded_lead(1) by simp
  from word_back_shows[OF assms(1) this, folded l1_def r1_def, unfolded all]
  consider (blank) "l1 = []" "word_back (\<lambda>b. b = 0x20) ctx = Inl OutOfBounds"
    | (word) ctx1 where "word_back (\<lambda>b. b = 0x20) ctx = Inr ctx1" "line_shows ctx1 l1 r1" "line ctx1 = line ctx" "prompt_len ctx1 = prompt_len ctx"
    by (cases "l1 = []") auto
  then show ?thesis
  proof cases
    case blank
    then show ?thesis by (simp add: move_cursor_word_start_def)
  next
    case word
    have t: "typable c \<and> (hd (utf8_encode c) \<noteq> 0x20) = (c \<noteq> 0x20)" if "c \<in> set l1" for c
      using assms(2)[of c] that encoded_lead(1)[of c] by (auto simp: l1_def dest: set_dropWhileD)
    have none: "(\<forall>c \<in> set l1. c \<noteq> 0x20) \<longleftrightarrow> 0x20 \<notin> set l1" by blast
    from word_back_shows[OF word(2) t, unfolded none] show ?thesis
      using word by (cases "0x20 \<in> set l1") (auto simp: move_cursor_word_start_def)
  qed
qed

lemma moved_shows:
  assumes "line_shows ctx' l r" "line ctx' = line ctx" "prompt_len ctx' = prompt_len ctx" "writes_ok tty"
  shows "reaches (flush_console ctx' tty) ctx tty l r"
  using reaches_cong[OF shown_flush[OF assms(1,4)]] assms(2,3) by simp

lemma edit_action_reaches:
  assumes "line_shows ctx l r" "writes_ok tty" "\<And>c. c \<in> set (l @ r) \<Longrightarrow> typable c" "\<And>c. e = Insert c \<Longrightarrow> typable c"
    and "unat (prompt_len ctx) + columns_of l + columns_of r + 2 < 2 ^ 15" "edit_fits (length (line ctx)) e (l, r)"
  shows "reaches (edit_action e ctx tty) ctx tty (fst (apply_edit e (l, r))) (snd (apply_edit e (l, r)))"
proof (cases e)
  case (Insert c)
  then have "line_size ctx + length (utf8_encode c) < length (line ctx)" "c < 0x110000"
    using assms(1,4,6) by (auto simp: line_shows_def typable_def)
  then show ?thesis using insert_char_shows[OF assms(1,2)] Insert assms(5) cp_columns(3)[of c] by simp
next
  case Left
  then show ?thesis using move_shows(1)[OF assms(1)] moved_shows[OF _ _ _ assms(2)] by (auto simp: update_cursor_pos_def)
next
  case Right
  then show ?thesis using move_shows(2)[OF assms(1)] moved_shows[OF _ _ _ assms(2)] by (auto simp: update_cursor_pos_def)
next
  case Home
  then show ?thesis using moved_shows[OF move_shows(3)[OF assms(1)] _ _ assms(2)] by (simp add: update_cursor_pos_def)
next
  case End
  then show ?thesis using moved_shows[OF move_shows(4)[OF assms(1)] _ _ assms(2)] by (simp add: update_cursor_pos_def)
next
  case Backspace
  then show ?thesis using delete_char_shows[OF assms(1,2)] by simp
next
  case Delete
  then show ?thesis using delete_forward_shows[OF assms(1,2)] by simp
next
  case JumpForward
  obtain ctx1 where 1: "word_forward (\<lambda>b. b \<noteq> 0x20) ctx = Inr ctx1" "line ctx1 = line ctx" "prompt_len ctx1 = prompt_len ctx"
    "line_shows ctx1 (l @ takeWhile (\<lambda>c. c = 0x20) r) (dropWhile (\<lambda>c. c = 0x20) r)"
    using word_forward_shows[OF assms(1), of "\<lambda>b. b \<noteq> 0x20" "\<lambda>c. c = 0x20"] assms(3) encoded_lead(1) by auto
  obtain ctx2 where 2: "word_forward (\<lambda>b. b = 0x20) ctx1 = Inr ctx2" "line ctx2 = line ctx1" "prompt_len ctx2 = prompt_len ctx1"
    "line_shows ctx2 (fst (apply_edit e (l, r))) (snd (apply_edit e (l, r)))"
    using word_forward_shows[OF 1(4), of "\<lambda>b. b = 0x20" "\<lambda>c. c \<noteq> 0x20"] assms(3) encoded_lead(1) JumpForward
    by (auto simp: Let_def dest: set_dropWhileD)
  show ?thesis using moved_shows[OF 2(4) _ _ assms(2), of ctx] 1 2 JumpForward by (simp add: update_cursor_pos_def move_cursor_word_end_def)
next
  case JumpBackward
  then show ?thesis
    using word_start_shows[OF assms(1)] assms(3,6) moved_shows[OF _ _ _ assms(2), of _ _ _ ctx] by (auto simp: update_cursor_pos_def Let_def)
qed

lemma edit_action_faults:
  assumes "line_shows ctx l r" "\<And>c. c \<in> set (l @ r) \<Longrightarrow> typable c" "\<And>c. e = Insert c \<Longrightarrow> typable c"
    and "\<not> edit_fits (length (line ctx)) e (l, r)"
  shows "edit_action e ctx tty = Inl OutOfBounds"
proof (cases e)
  case (Insert c)
  let ?x = "utf8_encode c" and ?pad = "replicate (4 - length (utf8_encode c)) 0"
  obtain slack where m: "line ctx = encoded l @ encoded r @ slack" "offset ctx = length (encoded l)"
    "line_size ctx = length (encoded l) + length (encoded r)" using assms(1) by (auto simp: line_shows_def)
  have big: "length (line ctx) \<le> line_size ctx + length ?x" using assms(4) m Insert by simp
  have "c < 0x110000" using assms(3) Insert by (simp add: typable_def)
  then have w: "codepoint_width (?x @ ?pad) 0 (length ?x) = Inr (cp_columns c)" "cp_columns c \<noteq> 0"
    using decode_encode[of c "[]" ?pad] cp_columns(1,2)[of c] by (simp_all add: codepoint_width_def)
  have store: "mem_store mem k bytes = Inl OutOfBounds \<or> (\<exists>mem'. mem_store mem k bytes = Inr mem' \<and> length mem' = length mem)"
    for mem bytes :: "byte list" and k by (simp add: mem_store_def)
  have move: "memmove mem d s n = Inl OutOfBounds \<or> (\<exists>mem'. memmove mem d s n = Inr mem' \<and> length mem' = length mem)" for mem d s n
    using store[of mem d] by (auto simp: memmove_def mem_read_def)
  define mem where "mem = (if line_size ctx \<noteq> offset ctx
    then memmove (line ctx) (offset ctx + length ?x) (offset ctx) (size_sub (line_size ctx) (offset ctx)) else Inr (line ctx))"
  consider "mem = Inl OutOfBounds" | (ok) mem1 where "mem = Inr mem1" "length mem1 = length (line ctx)"
    using move[of "line ctx" "offset ctx + length ?x"] by (cases "line_size ctx = offset ctx") (auto simp: mem_def)
  then have "insert_char ctx tty (?x @ ?pad) (length ?x) = Inl OutOfBounds"
  proof cases
    case ok
    have "mem_read (?x @ ?pad) 0 (length ?x) = Inr ?x" by (simp add: mem_read_def)
    then show ?thesis using store[of mem1 "offset ctx" ?x] ok w big by (auto simp: insert_char_def mem_def[symmetric] Let_def)
  qed (simp add: insert_char_def mem_def[symmetric] w)
  then show ?thesis using Insert by simp
next
  case JumpBackward
  then show ?thesis using word_start_shows[OF assms(1)] assms(2,4) by (auto simp: update_cursor_pos_def)
qed (use assms(4) in simp_all)

lemma line_key_edits:
  assumes "line_shows ctx l r" "writes_ok tty" "\<And>c. c \<in> set (l @ r) \<Longrightarrow> typable c" "\<And>c. e = Insert c \<Longrightarrow> typable c"
    and "tty_in tty = pending (key_bytes e @ bs) rx" "2 < length (line ctx)"
    and "unat (prompt_len ctx) + columns_of l + columns_of r + 2 < 2 ^ 15"
  defines "n \<equiv> alloc_for (length (line ctx)) (l, r)"
  shows "if edit_fits n e (l, r)
     then \<exists>ctx' tty'. line_key ctx tty = Inr (Continue, ctx', tty') \<and>
            line_shows ctx' (fst (apply_edit e (l, r))) (snd (apply_edit e (l, r))) \<and>
            length (line ctx') = n \<and> prompt_len ctx' = prompt_len ctx \<and> tty_in tty' = pending bs rx \<and> writes_ok tty'
     else line_key ctx tty = Inl OutOfBounds"
proof -
  obtain ctx1 where c1: "resize_line ctx = Inr (Some ctx1)" "line_shows ctx1 l r" "prompt_len ctx1 = prompt_len ctx" "length (line ctx1) = n"
    using resize_shows[OF assms(1,6)] unfolding n_def by blast
  let ?tty = "tty\<lparr>tty_in := pending bs rx\<rparr>"
  have key: "line_key ctx tty = c_bind (edit_action e ctx1 ?tty) (\<lambda>(ctx, tty). Inr (Continue, ctx, tty))"
    by (rule line_key_action[OF c1(1) assms(5,4)])
  have w: "writes_ok ?tty" using assms(2) by (simp add: writes_ok_def)
  show ?thesis
  proof (cases "edit_fits n e (l, r)")
    case True
    then show ?thesis
      using edit_action_reaches[OF c1(2) w assms(3,4), of e] assms(7) c1(3,4) key by (auto simp: reaches_def)
  next
    case False
    then show ?thesis using edit_action_faults[OF c1(2) assms(3,4), of e ?tty] c1(4) key by simp
  qed
qed

lemma apply_edit_text:
  assumes "apply_edit e (l, r) = (l', r')"
  shows "set (l' @ r') \<subseteq> set (l @ r) \<union> {c. e = Insert c} \<and> columns_of l' + columns_of r' \<le> columns_of l + columns_of r + 2 \<and>
    length (encoded (l' @ r')) \<le> length (encoded (l @ r)) + (case e of Insert c \<Rightarrow> length (utf8_encode c) | _ \<Rightarrow> 0)"
proof -
  have keep: ?thesis if "l' @ r' = l @ r"
  proof -
    have "columns_of l' + columns_of r' = columns_of l + columns_of r" using arg_cong[OF that, of columns_of] by simp
    then show ?thesis using that by simp
  qed
  show ?thesis
  proof (cases e)
    case (Insert c)
    then show ?thesis using assms cp_columns(3)[of c] by auto
  next
    case Backspace
    then show ?thesis using assms by (cases l rule: rev_cases) auto
  next
    case Delete
    then show ?thesis using assms by (cases r) auto
  next
    case Left
    then show ?thesis using assms by (intro keep) (cases l rule: rev_cases, auto)
  next
    case Right
    then show ?thesis using assms by (intro keep) (cases r, auto)
  next
    case JumpBackward
    have "rev (dropWhile P xs) @ rev (takeWhile P xs) = rev xs" for P and xs :: "u32 list"
      by (simp flip: rev_append)
    from this[of "\<lambda>c. c = 0x20" "rev l"] this[of "\<lambda>c. c \<noteq> 0x20" "dropWhile (\<lambda>c. c = 0x20) (rev l)"]
    show ?thesis using JumpBackward assms by (intro keep) (auto simp: Let_def simp flip: append_assoc)
  next
    case JumpForward
    show ?thesis using JumpForward assms by (intro keep) (auto simp: Let_def)
  qed (use assms keep in auto)
qed

subsection \<open>Reading a line\<close>

lemma xgetline_edits:
  assumes "line_shows ctx l r" "writes_ok tty" "\<And>c. c \<in> set (l @ r) \<Longrightarrow> typable c" "\<And>c. Insert c \<in> set es \<Longrightarrow> typable c"
    and "tty_in tty = pending (concat (map key_bytes es) @ bs) rx" "2 < length (line ctx)"
    and "unat (prompt_len ctx) + columns_of l + columns_of r + 2 * length es < 2 ^ 15"
  shows "if edits_fit (length (line ctx)) es (l, r)
     then \<exists>ctx' tty'. xgetline_loop ctx tty = xgetline_loop ctx' tty' \<and>
            line_shows ctx' (fst (fold apply_edit es (l, r))) (snd (fold apply_edit es (l, r))) \<and>
            2 < length (line ctx') \<and> tty_in tty' = pending bs rx \<and> writes_ok tty'
     else xgetline_loop ctx tty = Inl OutOfBounds"
  using assms
proof (induction es arbitrary: ctx tty l r)
  case Nil
  then show ?case by auto
next
  case (Cons e es)
  define n where "n = alloc_for (length (line ctx)) (l, r)"
  obtain l' r' where t: "apply_edit e (l, r) = (l', r')" by fastforce
  note keeps = apply_edit_text[OF t]
  have "tty_in tty = pending (key_bytes e @ concat (map key_bytes es) @ bs) rx" using Cons.prems(5) by simp
  from line_key_edits[OF Cons.prems(1-3) _ this Cons.prems(6), folded n_def] Cons.prems(4,7)
  consider (fault) "\<not> edit_fits n e (l, r)" "line_key ctx tty = Inl OutOfBounds"
    | (ok) ctx1 tty1 where "edit_fits n e (l, r)" "line_key ctx tty = Inr (Continue, ctx1, tty1)" "line_shows ctx1 l' r'"
        "length (line ctx1) = n" "prompt_len ctx1 = prompt_len ctx" "tty_in tty1 = pending (concat (map key_bytes es) @ bs) rx" "writes_ok tty1"
    by (cases "edit_fits n e (l, r)") (auto simp: t)
  then show ?case
  proof cases
    case fault
    then show ?thesis by (subst xgetline_loop.simps) (simp add: n_def)
  next
    case ok
    have "2 < length (line ctx1)" using Cons.prems(6) ok(4) by (simp add: n_def)
    moreover have "typable c" if "c \<in> set (l' @ r')" for c using that keeps Cons.prems(3,4) by auto
    moreover have "unat (prompt_len ctx1) + columns_of l' + columns_of r' + 2 * length es < 2 ^ 15"
      using keeps Cons.prems(7) ok(5) by simp
    ultimately have "if edits_fit n es (l', r')
      then \<exists>ctx' tty'. xgetline_loop ctx1 tty1 = xgetline_loop ctx' tty' \<and>
            line_shows ctx' (fst (fold apply_edit es (l', r'))) (snd (fold apply_edit es (l', r'))) \<and>
            2 < length (line ctx') \<and> tty_in tty' = pending bs rx \<and> writes_ok tty'
      else xgetline_loop ctx1 tty1 = Inl OutOfBounds"
      using Cons.IH[OF ok(3,7) _ _ ok(6)] Cons.prems(4) ok(4) by simp
    moreover have "xgetline_loop ctx tty = xgetline_loop ctx1 tty1" using ok(2) by (subst xgetline_loop.simps) simp
    ultimately show ?thesis using ok(1) by (simp add: t n_def)
  qed
qed

lemma xgetline_enter:
  assumes "line_shows ctx l r" "writes_ok tty" "tty_in tty = pending (13 # bs) rx" "2 < length (line ctx)" "l @ r \<noteq> []"
  shows "\<exists>ctx' tty'. xgetline_loop ctx tty = Inr (Returned, ctx', tty') \<and> line_shows ctx' (l @ r) [] \<and>
     tty_in tty' = pending bs rx \<and> writes_ok tty'"
proof -
  let ?tty = "tty\<lparr>tty_in := pending bs rx\<rparr>"
  obtain ctx1 where c1: "resize_line ctx = Inr (Some ctx1)" "line_shows ctx1 l r" using resize_shows[OF assms(1,4)] by blast
  have "line_size ctx1 \<noteq> 0" using c1(2) assms(5) encoded_length(2)[of "l @ r"] by (auto simp: line_shows_def)
  moreover have "writes_ok ?tty" using assms(2) by (simp add: writes_ok_def)
  from moved_shows[OF move_shows(4)[OF c1(2)] _ _ this, of ctx1] obtain ctx2 tty2 where
    "update_cursor_pos ctx1 ?tty MOVE_END = Inr (ctx2, tty2)" "line_shows ctx2 (l @ r) []" "tty_in tty2 = pending bs rx" "writes_ok tty2"
    by (auto simp: update_cursor_pos_def reaches_def)
  ultimately show ?thesis using c1(1) xgetcp_ascii[OF assms(3)] by (subst xgetline_loop.simps) (simp add: line_key_def)
qed

text \<open>No key changes the results the attribute calls will have.\<close>

lemma xgetch_attr: "xgetch tty = (c, tty') \<Longrightarrow> tty_attr tty' = tty_attr tty"
  by (auto simp: xgetch_def split: prod.splits)

lemma xgetcp_attr: "xgetcp tty = (len, c, tty') \<Longrightarrow> tty_attr tty' = tty_attr tty"
  by (auto simp: xgetcp_def Let_def split: prod.splits if_splits)

lemma flush_console_attr: "flush_console ctx tty = Inr (ctx', tty') \<Longrightarrow> tty_attr tty' = tty_attr tty"
  by (auto simp: flush_console_def elim!: c_bind_InrE split: if_splits prod.split_asm)

lemma update_cursor_pos_attr: "update_cursor_pos ctx tty d = Inr (ctx', tty') \<Longrightarrow> tty_attr tty' = tty_attr tty"
  unfolding update_cursor_pos_def by (elim c_bind_InrE) (rule flush_console_attr)

lemma delete_char_attr: "delete_char ctx tty del = Inr (ctx', tty') \<Longrightarrow> tty_attr tty' = tty_attr tty"
  by (auto simp: delete_char_def Let_def elim!: c_bind_InrE split: if_splits dest: flush_console_attr)

lemma insert_char_attr: "insert_char ctx tty c len = Inr (b, ctx', tty') \<Longrightarrow> tty_attr tty' = tty_attr tty"
  by (auto simp: insert_char_def Let_def elim!: c_bind_InrE split: if_splits dest: flush_console_attr)

lemma escape_key_attr: "escape_key ctx tty = Inr (ctx', tty') \<Longrightarrow> tty_attr tty' = tty_attr tty"
  unfolding escape_key_def
  by (auto elim!: c_bind_InrE split: prod.split_asm if_splits dest!: update_cursor_pos_attr delete_char_attr xgetch_attr)

lemma line_key_attr:
  assumes "line_key ctx tty = Inr (res, ctx', tty')"
  shows "tty_attr tty' = tty_attr tty"
proof (cases "resize_line ctx = Inr None")
  case True
  then show ?thesis using assms by (simp add: line_key_def)
next
  case False
  then obtain ctx1 where Some: "resize_line ctx = Inr (Some ctx1)"
    using assms by (auto simp: line_key_def elim!: c_bind_InrE split: option.split_asm)
  obtain len c tty1 where cp: "xgetcp tty = (len, c, tty1)" by (metis surj_pair)
  have "tty_attr tty' = tty_attr tty1"
    using assms Some cp unfolding line_key_def
    by (auto simp: ring_bell_def elim!: c_bind_InrE split: if_splits
        dest: escape_key_attr delete_char_attr insert_char_attr update_cursor_pos_attr)
  then show ?thesis using xgetcp_attr[OF cp] by simp
qed

lemma xgetline_loop_attr: "xgetline_loop ctx tty = Inr (res, ctx', tty') \<Longrightarrow> tty_attr tty' = tty_attr tty"
proof (induction ctx tty arbitrary: res ctx' tty' rule: xgetline_loop.induct)
  case (1 ctx tty)
  obtain res1 ctx1 tty1 where k: "line_key ctx tty = Inr (res1, ctx1, tty1)"
    using "1.prems" by (subst (asm) xgetline_loop.simps) (auto elim!: c_bind_InrE)
  then have "tty_attr tty1 = tty_attr tty" by (rule line_key_attr)
  moreover have "tty_attr tty' = tty_attr tty1"
    using "1.IH"[OF k refl refl] "1.prems" k by (subst (asm) xgetline_loop.simps) (cases res1, auto)
  ultimately show ?case by simp
qed

text \<open>The prompt fits the screen: the terminal has a width that the prompt does not fill, and the columns
  of prompt and text can be counted.\<close>

definition prompt_fits :: "byte list \<Rightarrow> u64 \<Rightarrow> nat \<Rightarrow> bool" where
  "prompt_fits prmpt width n \<longleftrightarrow>
     0 \<in> set prmpt \<and> length prmpt < 2 ^ 32 \<and>
     (case utf8_rendered_length prmpt of
        Inl _ \<Rightarrow> False
      | Inr p \<Rightarrow> p mod unat width \<noteq> 0 \<and> 0 < width \<and> width < 2 ^ 16 \<and> p + 2 * n < 2 ^ 15)"

lemma xgetline_start:
  assumes "prompt_fits prmpt (xwinsize tty) n" "length fresh = 64"
  shows "\<exists>ctx. xgetline fresh prmpt tty = c_bind (xgetline_loop ctx tty) (\<lambda>(res, ctx, tty).
       Inr (if res = Failed then None else Some (line ctx, line_size ctx), tty)) \<and>
     line_shows ctx [] [] \<and> length (line ctx) = 64 \<and> unat (prompt_len ctx) + 2 * n < 2 ^ 15"
proof -
  obtain p where p: "utf8_rendered_length prmpt = Inr p" "p mod unat (xwinsize tty) \<noteq> 0" "0 < xwinsize tty"
    "xwinsize tty < 2 ^ 16" "p + 2 * n < 2 ^ 15" "length prmpt < 2 ^ 32"
    using assms(1) by (auto simp: prompt_fits_def split: sum.splits)
  let ?ctx = "\<lparr>prompt = prmpt, prompt_len = of_nat p, prompt_size = strlen prmpt, line = fresh, line_len = 0, line_size = 0,
         row = 0, offset = 0, column = 0, rendered_column = 0, console_width = xwinsize tty\<rparr>"
  have u: "unat (of_nat p :: u64) = p" using p(5) by (intro unat_columns) simp
  have "layout_ok ?ctx" using p u strlen_c_str(3)[of prmpt] by (simp add: layout_ok_def word_less_nat_alt)
  then have "line_shows ?ctx [] []" using p(5) u by (simp add: line_shows_def)
  then show ?thesis using p(1,5) u assms(2) by (intro exI[of _ ?ctx]) (simp add: xgetline_def)
qed

lemma xgetline_returns:
  assumes "prompt_fits prmpt (xwinsize tty) (length es)" "length fresh = 64" "writes_ok tty"
    and "tty_in tty = Segment (concat (map key_bytes es) @ 13 # bs) # rx" "\<And>c. Insert c \<in> set es \<Longrightarrow> typable c"
    and "edits_fit 64 es ([], [])" "fold apply_edit es ([], []) = (l, r)" "l @ r \<noteq> []"
  shows "\<exists>buf tty'. xgetline fresh prmpt tty = Inr (Some (buf, length (encoded (l @ r))), tty') \<and>
     take (length (encoded (l @ r)) + 1) buf = encoded (l @ r) @ [0] \<and> tty_in tty' = pending bs rx \<and> writes_ok tty' \<and> tty_attr tty' = tty_attr tty"
proof -
  obtain ctx where ctx: "xgetline fresh prmpt tty = c_bind (xgetline_loop ctx tty) (\<lambda>(res, ctx, tty).
       Inr (if res = Failed then None else Some (line ctx, line_size ctx), tty))"
     "line_shows ctx [] []" "length (line ctx) = 64" "unat (prompt_len ctx) + 2 * length es < 2 ^ 15"
    using xgetline_start[OF assms(1,2)] by blast
  have tin: "tty_in tty = pending (concat (map key_bytes es) @ 13 # bs) rx" using assms(4) by (simp add: pending_def)
  obtain ctx1 tty1 where 1: "xgetline_loop ctx tty = xgetline_loop ctx1 tty1" "line_shows ctx1 l r" "2 < length (line ctx1)"
    "tty_in tty1 = pending (13 # bs) rx" "writes_ok tty1"
    using xgetline_edits[OF ctx(2) assms(3) _ assms(5) tin] assms(6,7) ctx(3,4) by auto
  obtain ctx2 tty2 where 2: "xgetline_loop ctx1 tty1 = Inr (Returned, ctx2, tty2)" "line_shows ctx2 (l @ r) []" "tty_in tty2 = pending bs rx" "writes_ok tty2"
    using xgetline_enter[OF 1(2,5,4,3) assms(8)] by blast
  have "line_size ctx2 = length (encoded (l @ r))" "take (length (encoded (l @ r)) + 1) (line ctx2) = encoded (l @ r) @ [0]"
    using 2(2) assms(8) by (auto simp: line_shows_def)
  moreover have "tty_attr tty2 = tty_attr tty" using xgetline_loop_attr[of ctx tty] 1(1) 2(1) by simp
  ultimately show ?thesis using ctx(1) 1(1) 2(1,3,4) by simp
qed

lemma ascii_edits_fit:
  assumes "\<And>c. Insert c \<in> set es \<Longrightarrow> c < 0x80" "JumpBackward \<notin> set es" "length (encoded (fst t @ snd t)) + 2 \<le> n" "2 < n"
  shows "edits_fit n es t"
  using assms
proof (induction es arbitrary: n t)
  case (Cons e es)
  obtain l r where t: "t = (l, r)" by fastforce
  obtain l' r' where e: "apply_edit e (l, r) = (l', r')" by fastforce
  have one: "length (utf8_encode c) = 1" if "e = Insert c" for c using Cons.prems(1) that by (simp add: utf8_encode_def)
  define m where "m = alloc_for n (l, r)"
  have m: "length (encoded (l @ r)) + 3 \<le> m" "2 < m" using Cons.prems(3,4) t by (auto simp: m_def)
  have "length (encoded (l' @ r')) \<le> length (encoded (l @ r)) + 1"
    using apply_edit_text[OF e] one by (auto split: edit.splits)
  then have "edits_fit m es (l', r')" using Cons.IH[of "(l', r')" m] Cons.prems(1,2) m by simp
  moreover have "edit_fits m e (l, r)" using Cons.prems(2) m one by (cases e) auto
  ultimately show ?case unfolding t edits_fit.simps m_def[symmetric] e by simp
qed simp

text \<open>
  C10: the line editor implements a text with a cursor. For keys that insert code points, move the
  cursor by one, by words or to an end, or delete, followed by ENTER, \<^verbatim>\<open>xgetline\<close> returns
  exactly the UTF-8 bytes of the text these edits build, NUL-terminated, and leaves the rest of the input,
  whenever the edits fit the allocation as it grows and the terminal accepts the output.
\<close>

theorem line_editor_implements_text:
  assumes "prompt_fits prmpt (xwinsize tty) (length es)" "length fresh = 64" "writes_ok tty"
    and "tty_in tty = Segment (concat (map key_bytes es) @ 13 # bs) # rx" "\<And>c. Insert c \<in> set es \<Longrightarrow> typable c"
    and "edits_fit 64 es ([], [])" "fold apply_edit es ([], []) = (l, r)" "l @ r \<noteq> []"
  shows "\<exists>buf tty'. xgetline fresh prmpt tty = Inr (Some (buf, length (encoded (l @ r))), tty') \<and>
     take (length (encoded (l @ r)) + 1) buf = encoded (l @ r) @ [0] \<and> tty_in tty' = pending bs rx"
  using xgetline_returns[OF assms] by blast

definition example_tty :: "byte list \<Rightarrow> tty_t" where
  "example_tty bs = \<lparr>tty_in = [Segment bs, RecvError], tty_out = \<lparr>plan = [Takes 5], sent = []\<rparr>, 
     tty_attr = \<lparr>tc_mode = \<lparr>c_iflag = 0x500, c_lflag = 0x8a3b, c_cflag = 0xbf, c_vmin = 1, c_vtime = 0\<rparr>, tc_plan = []\<rparr>, tty_winsize = Some 80\<rparr>"

definition example_edits :: "edit list" where
  "example_edits = [Insert 0x61, Insert 0x20, Insert 0x1f600, Home, JumpForward, Right, Insert 0xe9, JumpBackward, Backspace, End, Left, Delete, Left]"

lemma example_prompt: "prompt_fits [0x3e, 0x20, 0] 80 n \<longleftrightarrow> n < 2 ^ 14 - 1"
proof -
  have "utf8_rendered_length [0x3e, 0x20, 0] = Inr 2"
    using utf8_rendered_length_counts[of "[0x3e, 0x20]" "[]"] by (simp add: utf8_encode_def)
  then show ?thesis by (auto simp: prompt_fits_def)
qed

lemma example_encodings: "utf8_encode 0x61 = [0x61]" "utf8_encode 0x20 = [0x20]" "utf8_encode 0xe9 = [0xc3, 0xa9]"
  "utf8_encode 0x1f600 = [0xf0, 0x9f, 0x98, 0x80]"
  by (simp_all add: utf8_encode_def cont_def)

theorem line_editor_implements_text_witness:
  "\<exists>buf tty'. xgetline (replicate 64 0) [0x3e, 0x20, 0] (example_tty (concat (map key_bytes example_edits) @ 13 # [0x2f, 0x71])) =
       Inr (Some (buf, 3), tty') \<and> take 4 buf = [0x61, 0xc3, 0xa9, 0] \<and> tty_in tty' = [Segment [0x2f, 0x71], RecvError]"
proof -
  let ?tty = "example_tty (concat (map key_bytes example_edits) @ 13 # [0x2f, 0x71])"
  have "\<exists>buf tty'. xgetline (replicate 64 0) [0x3e, 0x20, 0] ?tty = Inr (Some (buf, length (encoded ([0x61] @ [0xe9]))), tty') \<and>
     take (length (encoded ([0x61] @ [0xe9])) + 1) buf = encoded ([0x61] @ [0xe9]) @ [0] \<and> tty_in tty' = pending [0x2f, 0x71] [RecvError]"
    by (rule line_editor_implements_text[of _ _ example_edits])
      (auto simp: example_tty_def example_prompt xwinsize_def writes_ok_def typable_def example_edits_def example_encodings)
  then show ?thesis by (simp add: example_encodings pending_def numeral_eq_Suc)
qed

lemma xgetline_ascii:
  assumes "prompt_fits prmpt (xwinsize tty) (length cs)" "length fresh = 64" "writes_ok tty" "cs \<noteq> []"
    and "\<forall>c \<in> set cs. 0x20 \<le> c \<and> c < 0x7f" "tty_in tty = Segment (encoded cs @ 13 # bs) # rx"
  shows "\<exists>buf tty'. xgetline fresh prmpt tty = Inr (Some (buf, length cs), tty') \<and>
     take (length cs + 1) buf = map ucast cs @ [0] \<and> tty_in tty' = pending bs rx \<and> writes_ok tty' \<and> tty_attr tty' = tty_attr tty"
proof -
  have small: "c < 0x80" "typable c" if "c \<in> set cs" for c
    using assms(5) that order.strict_trans[of c "0x7f" "0x80"] order.strict_trans[of c "0x7f" "0x110000"] by (auto simp: typable_def)
  have bytes: "encoded cs = map ucast cs" using small(1) by (induction cs) (auto simp: utf8_encode_def)
  have edits: "fold apply_edit (map Insert cs) (l, []) = (l @ cs, [])" for l by (induction cs arbitrary: l) auto
  have keys: "concat (map key_bytes (map Insert cs)) = encoded cs" by (simp add: encoded_def comp_def)
  have "edits_fit 64 (map Insert cs) ([], [])" using small(1) by (intro ascii_edits_fit) auto
  then show ?thesis
    using xgetline_returns[of prmpt tty "map Insert cs" fresh bs rx cs "[]"] assms small(2) edits[of "[]"] keys bytes by auto
qed

text \<open>The same line through \<^verbatim>\<open>xprompt\<close>, on a terminal that takes every write whole and every change of
  its attributes: the attributes end as they were.\<close>

lemma tc_answer_mode: "tc_answer tty = (r, tty') \<Longrightarrow> tc_mode (tty_attr tty') = tc_mode (tty_attr tty)"
  by (auto simp: tc_answer_def split: list.splits)

lemma xtcsetattr_ok:
  assumes "tc_plan (tty_attr tty) = []"
  shows "xtcsetattr tty orig CONSOLE_MODE_RAW =
       (0, tc_mode (tty_attr tty), tty\<lparr>tty_attr := (tty_attr tty)\<lparr>tc_mode := raw_mode (tc_mode (tty_attr tty))\<rparr>\<rparr>)"
    and "xtcsetattr tty orig CONSOLE_MODE_ORIG = (0, orig, tty\<lparr>tty_attr := (tty_attr tty)\<lparr>tc_mode := orig\<rparr>\<rparr>)"
  using assms by (simp_all add: xtcsetattr_def tcsetattr_def tc_answer_def Let_def)

lemma xprompt_once_ascii:
  assumes "prompt_fits prmpt (xwinsize tty) (length cs)" "length fresh = 64" "cs \<noteq> []" "plan (tty_out tty) = []" "tc_plan (tty_attr tty) = []"
    and "\<forall>c \<in> set cs. 0x20 \<le> c \<and> c < 0x7f" "tty_in tty = Segment (encoded cs @ 13 # bs) # rx"
  shows "\<exists>slack tty'. xprompt_once fresh prmpt tty = Inr (Some (map ucast cs @ 0 # slack, length cs), tty') \<and>
     tty_in tty' = pending bs rx \<and> tty_attr tty' = tty_attr tty"
proof -
  let ?raw = "(tty_attr tty)\<lparr>tc_mode := raw_mode (tc_mode (tty_attr tty))\<rparr>"
  define tty1 where "tty1 = tty\<lparr>tty_attr := ?raw, tty_out := (tty_out tty)\<lparr>sent := sent (tty_out tty) @ take (strlen prmpt) prmpt\<rparr>\<rparr>"
  have w: "xwrite (tty_out tty) (take (strlen prmpt) prmpt) = (int (strlen prmpt), tty_out tty1)"
    using assms(4) strlen_c_str(3)[of prmpt] by (simp add: xwrite_def xsend.simps tty1_def)
  have "prompt_fits prmpt (xwinsize tty1) (length cs)" "writes_ok tty1" "tty_in tty1 = Segment (encoded cs @ 13 # bs) # rx" "tty_attr tty1 = ?raw"
    using assms(1,4,7) by (simp_all add: tty1_def writes_ok_def xwinsize_def)
  with xgetline_ascii[of prmpt tty1 cs fresh bs rx] assms(2,3,6) obtain buf tty2 where
    g: "xgetline fresh prmpt tty1 = Inr (Some (buf, length cs), tty2)" "take (length cs + 1) buf = map ucast cs @ [0]"
      "tty_in tty2 = pending bs rx" "writes_ok tty2" "tty_attr tty2 = ?raw" by auto
  have "fst (xwrite (tty_out tty2) [10]) = 1"
    using g(4) by (auto simp: xwrite_def xsend.simps writes_ok_def min_def split: list.splits send_event.splits)
  then obtain out where o: "xwrite (tty_out tty2) [10] = (1, out)" by (metis prod.collapse)
  define tty3 where "tty3 = tty2\<lparr>tty_attr := tty_attr tty, tty_out := out\<rparr>"
  have "tc_plan (tty_attr tty2) = []" "(tty_attr tty2)\<lparr>tc_mode := tc_mode (tty_attr tty)\<rparr> = tty_attr tty" using g(5) assms(5) by simp_all
  then have "xprompt_once fresh prmpt tty = Inr (Some (buf, length cs), tty3)"
    using w g(1) o by (simp add: xprompt_once_def xtcsetattr_ok assms(5) tty1_def tty3_def)
  moreover have "buf = map ucast cs @ 0 # drop (length cs + 1) buf" using g(2) append_take_drop_id[of "length cs + 1" buf] by simp
  ultimately show ?thesis using g(3) by (intro exI[of _ "drop (length cs + 1) buf"] exI[of _ tty3]) (simp add: tty3_def)
qed

lemma xprompt_ascii:
  assumes "prompt_fits prmpt (xwinsize tty) (length cs)" "length fresh = 64" "cs \<noteq> []" "plan (tty_out tty) = []" "tc_plan (tty_attr tty) = []"
    and "\<forall>c \<in> set cs. 0x20 \<le> c \<and> c < 0x7f" "tty_in tty = Segment (encoded cs @ 13 # bs) # rx"
  shows "\<exists>slack tty'. xprompt fresh prmpt 0 tty = Inr (map ucast cs @ 0 # slack, length cs, tty') \<and> tty_in tty' = pending bs rx \<and>
     tty_attr tty' = tty_attr tty"
  using xprompt_once_ascii[OF assms] by (auto simp: xprompt_def xprompt_loop.simps)

text \<open>
  a line of printable ASCII characters of any length is returned as typed: \<^verbatim>\<open>xgetline\<close> grows
  its 64 bytes as often as needed, and every insertion stays within them.
\<close>

lemma ascii_line_returned:
  assumes "prompt_fits prmpt (xwinsize tty) (length cs)" "length fresh = 64" "writes_ok tty" "cs \<noteq> []"
    and "\<forall>c \<in> set cs. 0x20 \<le> c \<and> c < 0x7f" "tty_in tty = Segment (encoded cs @ 13 # bs) # rx"
  shows "\<exists>buf tty'. xgetline fresh prmpt tty = Inr (Some (buf, length cs), tty') \<and>
     take (length cs + 1) buf = map ucast cs @ [0] \<and> tty_in tty' = pending bs rx"
  using xgetline_ascii[OF assms] by blast

text \<open>
  C24: an edit that does not fit is not refused. The allocation grows only when exactly two bytes of it are
  left, so a longer code point typed with three left is written past its end; and jumping backward over the
  first word reads before its start.
\<close>

theorem line_editor_overruns:
  assumes "prompt_fits prmpt (xwinsize tty) (length es)" "length fresh = 64" "writes_ok tty"
    and "tty_in tty = Segment (concat (map key_bytes es) @ 13 # bs) # rx" "\<And>c. Insert c \<in> set es \<Longrightarrow> typable c"
    and "\<not> edits_fit 64 es ([], [])"
  shows "xgetline fresh prmpt tty = Inl OutOfBounds"
proof -
  obtain ctx where ctx: "xgetline fresh prmpt tty = c_bind (xgetline_loop ctx tty) (\<lambda>(res, ctx, tty).
       Inr (if res = Failed then None else Some (line ctx, line_size ctx), tty))"
     "line_shows ctx [] []" "length (line ctx) = 64" "unat (prompt_len ctx) + 2 * length es < 2 ^ 15"
    using xgetline_start[OF assms(1,2)] by blast
  have tin: "tty_in tty = pending (concat (map key_bytes es) @ 13 # bs) rx" using assms(4) by (simp add: pending_def)
  show ?thesis using xgetline_edits[OF ctx(2) assms(3) _ assms(5) tin] assms(6) ctx(1,3,4) by simp
qed

theorem line_editor_overruns_witness:
  "xgetline (replicate 64 0) [0x3e, 0x20, 0]
     (example_tty (concat (map key_bytes (replicate 61 (Insert 0x61) @ [Insert 0x1f600])) @ [13])) = Inl OutOfBounds"
proof (rule line_editor_overruns[of _ _ "replicate 61 (Insert 0x61) @ [Insert 0x1f600]"])
  have "edits_fit 64 (replicate k (Insert 0x61) @ es) (l, []) \<longleftrightarrow> edits_fit 64 es (l @ replicate k 0x61, [])"
    if "length (encoded l) + k < 62" for k l es
    using that by (induction k arbitrary: l) (simp_all add: example_encodings replicate_append_same)
  from this[of "[]" 61] show "\<not> edits_fit 64 (replicate 61 (Insert 0x61) @ [Insert 0x1f600]) ([], [])"
    by (simp add: encoded_def example_encodings)
qed (auto simp: example_tty_def example_prompt xwinsize_def writes_ok_def typable_def)

text \<open>
  C25: whenever \<^verbatim>\<open>_xprompt\<close> returns a line, the attributes of the terminal are what they were before it,
  however the calls that read and set them, the writes and the keys went.
\<close>

theorem prompt_restores_terminal:
  assumes "xprompt_once fresh prmpt tty = Inr (Some l, tty')"
  shows "tc_mode (tty_attr tty') = tc_mode (tty_attr tty)"
proof -
  let ?o = "\<lparr>c_iflag = 0, c_lflag = 0, c_cflag = 0, c_vmin = 0, c_vtime = 0\<rparr>"
  obtain r orig tty1 where raw: "xtcsetattr tty ?o CONSOLE_MODE_RAW = (r, orig, tty1)" by (metis surj_pair)
  have r: "r = 0" using assms raw by (auto simp: xprompt_once_def split: if_splits)
  have orig: "orig = tc_mode (tty_attr tty)"
    using raw r by (auto simp: xtcsetattr_def Let_def split: prod.splits if_splits dest!: tc_answer_mode)
  obtain tty2 tty3 r3 orig3 where restored: "xtcsetattr tty2 orig CONSOLE_MODE_ORIG = (r3, orig3, tty3)" "r3 = 0" "tty_attr tty' = tty_attr tty3"
    using assms raw r by (auto simp: xprompt_once_def Let_def elim!: c_bind_InrE split: prod.split_asm if_splits)
  then have "tc_mode (tty_attr tty3) = orig"
    by (auto simp: xtcsetattr_def tcsetattr_def split: prod.splits if_splits)
  then show ?thesis using restored(3) orig by simp
qed

theorem prompt_restores_terminal_witness:
  "\<exists>l tty'. xprompt_once (replicate 64 0) [0x3e, 0x20, 0] ((example_tty [0x68, 0x69, 13])\<lparr>tty_out := \<lparr>plan = [], sent = []\<rparr>\<rparr>) = Inr (Some l, tty') \<and>
     tc_mode (tty_attr tty') = \<lparr>c_iflag = 0x500, c_lflag = 0x8a3b, c_cflag = 0xbf, c_vmin = 1, c_vtime = 0\<rparr>"
proof -
  let ?tty = "(example_tty [0x68, 0x69, 13])\<lparr>tty_out := \<lparr>plan = [], sent = []\<rparr>\<rparr>"
  obtain l tty' where "xprompt_once (replicate 64 0) [0x3e, 0x20, 0] ?tty = Inr (Some l, tty')"
    using xprompt_once_ascii[of "[0x3e, 0x20, 0]" ?tty "[0x68, 0x69]" "replicate 64 0" "[]" "[RecvError]"]
    by (auto simp: example_prompt example_tty_def utf8_encode_def xwinsize_def)
  with prompt_restores_terminal[OF this] show ?thesis by (auto simp: example_tty_def)
qed

text \<open>
  C26: a prompt that is written only in part leaves the terminal raw. \<^verbatim>\<open>_xprompt\<close> returns without restoring the
  attributes, \<^verbatim>\<open>xprompt\<close> tries again and takes the raw attributes for the original ones: it
  returns the line and the terminal keeps the raw mode, without echo.
\<close>

theorem short_prompt_leaves_raw:
  assumes "prompt_fits prmpt (xwinsize tty) (length cs)" "length fresh = 64" "cs \<noteq> []" "plan (tty_out tty) = [Takes k]" "k < strlen prmpt"
    and "tc_plan (tty_attr tty) = []" "\<forall>c \<in> set cs. 0x20 \<le> c \<and> c < 0x7f" "tty_in tty = Segment (encoded cs @ 13 # bs) # rx"
  shows "\<exists>slack tty'. xprompt fresh prmpt 0 tty = Inr (map ucast cs @ 0 # slack, length cs, tty') \<and>
     tc_mode (tty_attr tty') = raw_mode (tc_mode (tty_attr tty))"
proof -
  define tty1 where "tty1 = tty\<lparr>tty_attr := (tty_attr tty)\<lparr>tc_mode := raw_mode (tc_mode (tty_attr tty))\<rparr>,
    tty_out := (tty_out tty)\<lparr>plan := [], sent := sent (tty_out tty) @ take k (take (strlen prmpt) prmpt)\<rparr>\<rparr>"
  have "xwrite (tty_out tty) (take (strlen prmpt) prmpt) = (int k, tty_out tty1)"
    using assms(4,5) strlen_c_str(3)[of prmpt] by (simp add: xwrite_def xsend.simps tty1_def)
  then have "xprompt_once fresh prmpt tty = Inr (None, tty1)"
    using assms(5) by (simp add: xprompt_once_def xtcsetattr_ok assms(6) tty1_def)
  then have retry: "xprompt fresh prmpt 0 tty = xprompt fresh prmpt 0 tty1" by (simp add: xprompt_def xprompt_loop.simps)
  have "prompt_fits prmpt (xwinsize tty1) (length cs)" "plan (tty_out tty1) = []" "tc_plan (tty_attr tty1) = []"
    "tty_in tty1 = Segment (encoded cs @ 13 # bs) # rx"
    using assms(1,6,8) by (simp_all add: tty1_def xwinsize_def)
  from xprompt_ascii[OF this(1) assms(2,3) this(2,3) assms(7) this(4)] retry show ?thesis by (auto simp: tty1_def)
qed

theorem short_prompt_leaves_raw_witness:
  "\<exists>buf tty'. xprompt (replicate 64 0) [0x3e, 0x20, 0] 0 ((example_tty [0x68, 0x69, 13])\<lparr>tty_out := \<lparr>plan = [Takes 1], sent = []\<rparr>\<rparr>) = Inr (buf, 2, tty') \<and>
     c_lflag (tc_mode (tty_attr tty')) AND 0x8 = 0"
  using short_prompt_leaves_raw[of "[0x3e, 0x20, 0]" "(example_tty [0x68, 0x69, 13])\<lparr>tty_out := \<lparr>plan = [Takes 1], sent = []\<rparr>\<rparr>" "[0x68, 0x69]"
      "replicate 64 0" 1 "[]" "[RecvError]"]
  by (auto simp: example_prompt example_tty_def utf8_encode_def xwinsize_def strlen_def raw_mode_def)

end
