(* ===== verification/Threads.thy ===== *)
theory Threads
  imports Chat Daemon_Table
begin

text \<open>
  The client as a process of two threads over one \<^verbatim>\<open>client_t\<close>: \<^verbatim>\<open>recv_thread\<close> and \<^verbatim>\<open>send_thread\<close> of
  \<^verbatim>\<open>parcel/client.c\<close>. A step of the process is one iteration of one of the loops, in any order: the
  loop that waits for the announcement, \<^theory_text>\<open>send_step\<close> on the next line, or \<^theory_text>\<open>recv_step\<close>. What the calls of an
  iteration answer is chosen in each step; the only condition is that random bytes come in the
  number asked for. A fault in either thread ends the process; a thread whose call never comes back takes
  no step any more.

  The invariants hold between iterations. That the threads also interleave within an iteration is what
  the last section is about: what one client sends while the daemon renews the keys is read by the
  daemon as part of the exchange.
\<close>

datatype sender_t = Announcing | Prompting | SenderDone

datatype receiver_t = Receiving | ReceiverDone

datatype process_t = Live client_t sender_t receiver_t | Aborted c_fault

definition client_env_ok :: "client_env \<Rightarrow> bool" where
  "client_env_ok env \<longleftrightarrow> (\<forall>r. wire_iv env = Some r \<longrightarrow> length r = 16)"

inductive client_step :: "process_t \<Rightarrow> process_t \<Rightarrow> bool" where
  announced: "conn_announced ctx \<Longrightarrow> client_step (Live ctx Announcing r) (Live ctx Prompting r)"
| send: "client_env_ok env \<Longrightarrow> send_step env ctx msg len = Inr (True, ctx') \<Longrightarrow>
    client_step (Live ctx Prompting r) (Live ctx' Prompting r)"
| send_ends: "client_env_ok env \<Longrightarrow> send_step env ctx msg len = Inr (False, ctx') \<Longrightarrow>
    client_step (Live ctx Prompting r) (Live ctx' SenderDone r)"
| send_faults: "client_env_ok env \<Longrightarrow> send_step env ctx msg len = Inl fault \<Longrightarrow> fault \<noteq> NonTermination \<Longrightarrow>
    client_step (Live ctx Prompting r) (Aborted fault)"
| recv: "client_env_ok env \<Longrightarrow> recv_step env ctx = Inr (True, ctx') \<Longrightarrow>
    client_step (Live ctx s Receiving) (Live ctx' s Receiving)"
| recv_ends: "client_env_ok env \<Longrightarrow> recv_step env ctx = Inr (False, ctx') \<Longrightarrow>
    client_step (Live ctx s Receiving) (Live ctx' s ReceiverDone)"
| recv_faults: "client_env_ok env \<Longrightarrow> recv_step env ctx = Inl fault \<Longrightarrow> fault \<noteq> NonTermination \<Longrightarrow>
    client_step (Live ctx s Receiving) (Aborted fault)"

abbreviation client_runs :: "process_t \<Rightarrow> process_t \<Rightarrow> bool" where
  "client_runs \<equiv> client_step\<^sup>*\<^sup>*"

lemma transmit_wire_only_conn: "transmit_wire ctx w = Inr (ok, ctx') \<Longrightarrow> \<exists>c. ctx' = ctx\<lparr>conn := c\<rparr>"
  unfolding transmit_wire_def Let_def by (auto elim!: c_bind_InrE split: option.split_asm prod.split_asm)

lemma announce_only_conn:
  "announce_connection env ctx = Inr (ok, ctx') \<Longrightarrow> \<exists>c. ctx' = ctx\<lparr>conn := c, conn_announced := ok\<rparr>"
  by (auto simp: announce_connection_def elim!: c_bind_InrE dest!: transmit_wire_only_conn)

text \<open>The handlers of files, statuses and texts neither send nor announce.\<close>

lemma quiet_handlers:
  "proc_file env ctx m = Inr (ok, ctx') \<Longrightarrow> conn ctx' = conn ctx \<and> conn_announced ctx' = conn_announced ctx \<and> username ctx' = username ctx"
  "proc_stat ctx m = Inr (ok, ctx') \<Longrightarrow> conn ctx' = conn ctx \<and> conn_announced ctx' = conn_announced ctx \<and> username ctx' = username ctx"
  "proc_text env ctx m = Inr (ok, ctx') \<Longrightarrow> conn ctx' = conn ctx \<and> conn_announced ctx' = conn_announced ctx \<and> username ctx' = username ctx"
  unfolding proc_file_def proc_stat_def proc_text_def Let_def
  by (auto simp: reset_last_sender_def update_last_sender_def Let_def elim!: c_bind_InrE split: if_splits)

lemma recv_step_cases:
  assumes "recv_step env ctx = Inr (go, ctx')"
  obtains rx where "ctx' = ctx\<lparr>conn := (conn ctx)\<lparr>conn_rx := rx\<rparr>\<rparr>"
  | rx w ok where "handle_wire env (ctx\<lparr>conn := (conn ctx)\<lparr>conn_rx := rx\<rparr>\<rparr>) w = Inr (ok, ctx')"
  using assms unfolding recv_step_def client_recv_cable_def
  by (auto elim!: c_bind_InrE split: option.split_asm if_splits prod.split_asm)


text \<open>Once announced, a client stays announced.\<close>

lemma recv_step_announced:
  assumes "recv_step env ctx = Inr (go, ctx')" "conn_announced ctx"
  shows "conn_announced ctx'"
  using assms(1)
proof (cases rule: recv_step_cases)
  case (1 rx)
  then show ?thesis using assms(2) by simp
next
  case (2 rx w ok)
  have "proc_ctrl env c m = Inr (ok, ctx') \<Longrightarrow> conn_announced c \<Longrightarrow> conn_announced ctx'" for c m
    unfolding proc_ctrl_def Let_def by (auto simp: client_set_keys_def elim!: c_bind_InrE split: if_splits)
  then show ?thesis using 2 assms(2) by (auto simp: handle_wire_def Let_def split: if_splits dest!: quiet_handlers)
qed

lemma send_step_announced:
  assumes "send_step env ctx msg len = Inr (go, ctx')"
  shows "conn_announced ctx' = conn_announced ctx"
  using assms
  unfolding send_step_def send_text_msg_def exec_cmd_def cmd_username_def cmd_send_file_def cmd_exit_def Let_def
  by (auto simp: reset_last_sender_def update_last_sender_def Let_def elim!: c_bind_InrE
      split: if_splits cmd_type_t.split_asm dest!: transmit_wire_only_conn)

lemma step_from_live: "client_step p (Live ctx s r) \<Longrightarrow> \<exists>ctx s r. p = Live ctx s r"
  by (erule client_step.cases) auto

inductive_cases live_stepE: "client_step (Live ctx s r) (Live ctx' s' r')"

text \<open>A property of the client's data that no iteration of the receiving loop breaks, nor a line sent by
  a client that is announced, holds in every state of a run from the start of the threads; and the
  sender leaves its waiting loop only when the client is announced.\<close>

locale client_invariant =
  fixes inv :: "client_t \<Rightarrow> bool"
  assumes recv_keeps: "client_env_ok env \<Longrightarrow> inv ctx \<Longrightarrow> recv_step env ctx = Inr (go, ctx') \<Longrightarrow> inv ctx'"
    and send_keeps: "client_env_ok env \<Longrightarrow> inv ctx \<Longrightarrow> conn_announced ctx \<Longrightarrow> send_step env ctx msg len = Inr (go, ctx') \<Longrightarrow> inv ctx'"
begin

lemma step_keeps:
  "client_step (Live ctx s r) (Live ctx' s' r') \<Longrightarrow> inv ctx \<and> (s \<noteq> Announcing \<longrightarrow> conn_announced ctx) \<Longrightarrow>
   inv ctx' \<and> (s' \<noteq> Announcing \<longrightarrow> conn_announced ctx')"
  by (erule live_stepE) (auto dest: recv_keeps send_keeps recv_step_announced send_step_announced)

lemma run_keeps:
  assumes "client_runs (Live ctx Announcing r) (Live ctx' s' r')" "inv ctx"
  shows "inv ctx' \<and> (s' \<noteq> Announcing \<longrightarrow> conn_announced ctx')"
proof -
  have "inv c \<and> (s' \<noteq> Announcing \<longrightarrow> conn_announced c)" if "client_runs (Live ctx Announcing r) p" "p = Live c s' r'" for p c s' r'
    using that
  proof (induction arbitrary: c s' r' rule: rtranclp_induct)
    case base
    then show ?case using assms(2) by simp
  next
    case (step y z)
    obtain c1 s1 r1 where y: "y = Live c1 s1 r1" using step_from_live step.hyps(2) step.prems by blast
    then show ?case using step_keeps step.hyps(2) step.prems step.IH[OF y] by blast
  qed
  then show ?thesis using assms(1) by blast
qed

end

subsection \<open>The sizes of the arrays\<close>

definition client_sized :: "client_t \<Rightarrow> bool" where
  "client_sized ctx \<longleftrightarrow>
     length (username ctx) = 64 \<and> length (session ctx) = 32 \<and> length (ctrl ctx) = 32 \<and> length (last_sender ctx) = 64"

lemma mem_store_length: "mem_store m k xs = Inr m' \<Longrightarrow> length m' = length m"
  by (auto simp: mem_store_def split: if_splits)

lemma sized_fields [simp]:
  "client_sized (ctx\<lparr>conn := c\<rparr>) = client_sized ctx" "client_sized (ctx\<lparr>conn_announced := b\<rparr>) = client_sized ctx"
  "client_sized (ctx\<lparr>shown := u\<rparr>) = client_sized ctx" "client_sized (ctx\<lparr>files := fs\<rparr>) = client_sized ctx"
  "client_sized (ctx\<lparr>keep_alive := b\<rparr>) = client_sized ctx"
  "client_sized ctx \<Longrightarrow> client_sized (reset_last_sender ctx)"
  "client_sized ctx \<Longrightarrow> client_sized (update_last_sender ctx name t)"
  using length_c_string(1)[of name 63]
  by (simp_all add: client_sized_def reset_last_sender_def update_last_sender_def Let_def)

lemma digest_length: "length (sha256_key_digest key) = 32"
  by (simp add: sha256_key_digest_def sha256_finish_def Let_def)

lemma n_party_client_key:
  "n_party_client rand c k = Inr (ok, Some key, c') \<Longrightarrow> length key = 32"
proof -
  have "length key = 32" if "n_party_client_rounds s c k = Inr (ok, Some key, c')" for s c
    using that
    by (induction k arbitrary: c) (auto simp: digest_length Let_def elim!: c_bind_InrE split: if_splits option.split_asm prod.split_asm)
  then show "n_party_client rand c k = Inr (ok, Some key, c') \<Longrightarrow> length key = 32"
    by (auto simp: n_party_client_def Let_def split: if_splits prod.split_asm)
qed

lemma mem_read_length: "mem_read m k n = Inr xs \<Longrightarrow> length xs = n"
  by (auto simp: mem_read_def split: if_splits)

lemma proc_ctrl_sized:
  assumes "client_sized ctx" "proc_ctrl env ctx msg = Inr (ok, ctx')"
  shows "client_sized ctx'"
  using assms unfolding proc_ctrl_def Let_def
  by (auto simp: client_sized_def client_set_keys_def elim!: c_bind_InrE split: if_splits option.split_asm
      dest!: announce_only_conn n_party_client_key mem_read_length)

lemma handle_wire_sized:
  assumes "client_sized ctx" "handle_wire env ctx w = Inr (ok, ctx')"
  shows "client_sized ctx'"
proof -
  have "proc_file env ctx m = Inr (ok, ctx') \<Longrightarrow> client_sized ctx'" for m
    using assms(1) unfolding proc_file_def Let_def by (auto elim!: c_bind_InrE split: if_splits)
  moreover have "proc_text env ctx m = Inr (ok, ctx') \<Longrightarrow> client_sized ctx'" for m
    using assms(1) unfolding proc_text_def by (auto elim!: c_bind_InrE split: if_splits)
  moreover have "proc_stat ctx m = Inr (ok, ctx') \<Longrightarrow> client_sized ctx'" for m
    using assms(1) unfolding proc_stat_def Let_def by (auto elim!: c_bind_InrE split: if_splits)
  ultimately show ?thesis
    using assms proc_ctrl_sized by (auto simp: handle_wire_def Let_def split: if_splits)
qed

lemma exec_cmd_sized:
  assumes "client_sized ctx" "exec_cmd env ctx msg = Inr (ok, ctx')"
  shows "client_sized ctx'"
proof -
  have "cmd_username env ctx = Inr (ok, ctx') \<Longrightarrow> client_sized ctx'" for ok ctx'
    using assms(1) unfolding cmd_username_def
    by (auto simp: client_sized_def elim!: c_bind_InrE dest!: transmit_wire_only_conn mem_store_length)
  moreover have "cmd_send_file env ctx = Inr (ok, ctx') \<Longrightarrow> client_sized ctx'" for ok ctx'
    using assms(1) unfolding cmd_send_file_def by (auto elim!: c_bind_InrE split: if_splits dest!: transmit_wire_only_conn)
  moreover have "cmd_exit env ctx = Inr (ok, ctx') \<Longrightarrow> client_sized ctx'" for ok ctx'
    using assms(1) unfolding cmd_exit_def by (auto elim!: c_bind_InrE dest!: transmit_wire_only_conn)
  ultimately show ?thesis
    using assms unfolding exec_cmd_def by (auto elim!: c_bind_InrE split: cmd_type_t.split_asm)
qed

lemma send_step_sized:
  assumes "client_sized ctx" "send_step env ctx msg len = Inr (go, ctx')"
  shows "client_sized ctx'"
  using assms exec_cmd_sized unfolding send_step_def send_text_msg_def Let_def
  by (auto elim!: c_bind_InrE split: if_splits dest!: transmit_wire_only_conn)

interpretation sized: client_invariant client_sized
proof
  show "client_sized ctx'" if "client_sized ctx" "recv_step env ctx = Inr (go, ctx')" for env ctx go ctx'
    using that(2)
  proof (cases rule: recv_step_cases)
    case (1 rx)
    then show ?thesis using that(1) by simp
  next
    case (2 rx w ok)
    then show ?thesis using handle_wire_sized[OF _ 2] that(1) by simp
  qed
qed (rule send_step_sized)

subsection \<open>The announcement\<close>

text \<open>What is sent by the key exchange alone, and a frame that tells the others who came.\<close>

definition ring_values :: "byte list \<Rightarrow> bool" where
  "ring_values bs \<longleftrightarrow> (\<exists>ks. bs = concat (map (ke_bytes KEY_EX_INTERMEDIATE) ks))"

definition announces :: "byte list \<Rightarrow> byte list \<Rightarrow> bool" where
  "announces name frame \<longleftrightarrow>
     (\<exists>key. \<forall>env b rest. session b = key \<and> inb (conn b) = frame @ rest \<and> c_string name 63 \<noteq> [] \<longrightarrow>
        (\<exists>b'. recv_step env b = Inr (True, b') \<and> inb (conn b') = rest \<and> shown b' = shown b @ [Online (c_string name 63)]))"

text \<open>After \<open>start\<close> the client has sent values of the ring; the announcement came next and before
  anything else.\<close>

definition announced_first :: "byte list \<Rightarrow> byte list \<Rightarrow> client_t \<Rightarrow> bool" where
  "announced_first name start ctx \<longleftrightarrow> sends_ok (conn ctx) \<and>
     (if conn_announced ctx
      then \<exists>ring frame rest. outb (conn ctx) = start @ ring @ frame @ rest \<and> ring_values ring \<and> announces name frame
      else username ctx = name \<and> (\<exists>ring. outb (conn ctx) = start @ ring \<and> ring_values ring))"

lemma ring_values_append: "ring_values [] " "ring_values xs \<Longrightarrow> ring_values ys \<Longrightarrow> ring_values (xs @ ys)" "ring_values (ke_bytes KEY_EX_INTERMEDIATE k)"
proof -
  show "ring_values []" by (auto simp: ring_values_def intro: exI[of _ "[]"])
  show "ring_values (ke_bytes KEY_EX_INTERMEDIATE k)" by (auto simp: ring_values_def intro: exI[of _ "[k]"])
  assume "ring_values xs" "ring_values ys"
  then obtain ks ls where "xs @ ys = concat (map (ke_bytes KEY_EX_INTERMEDIATE) (ks @ ls))" by (auto simp: ring_values_def)
  then show "ring_values (xs @ ys)" unfolding ring_values_def by blast
qed

lemma ke_rcv_tx: "ke_rcv c t = Inr (k, c') \<Longrightarrow> conn_tx c' = conn_tx c"
  by (auto simp: ke_rcv_def Let_def elim!: c_bind_InrE split: if_splits)

text \<open>The client's side of the ring sends values of the ring and nothing else.\<close>

lemma n_party_client_rounds_sends:
  assumes "n_party_client_rounds s c k = Inr (ok, key, c')" "sends_ok c"
  shows "sends_ok c' \<and> (\<exists>ring. outb c' = outb c @ ring \<and> ring_values ring)"
  using assms
proof (induction k arbitrary: c)
  case 0
  then show ?case using ring_values_append(1) by auto
next
  case (Suc k)
  obtain r c1 where r: "ke_rcv c KEY_EX_INTERMEDIATE = Inr (r, c1)" using Suc.prems(1) by (auto elim: c_bind_InrE)
  have c1: "sends_ok c1" "outb c1 = outb c" using ke_rcv_tx[OF r] Suc.prems(2) by (simp_all add: sends_ok_def)
  show ?case
  proof (cases r)
    case None
    then show ?thesis using Suc.prems(1) r c1 ring_values_append(1) by auto
  next
    case (Some inter)
    let ?v = "point_kx s inter"
    obtain c2 where c2: "ke_snd c1 KEY_EX_INTERMEDIATE ?v = (True, c2)" "sends_ok c2" "outb c2 = outb c @ ke_bytes KEY_EX_INTERMEDIATE ?v"
      using conn_send_good[OF c1(1)] c1(2) by (auto simp: ke_snd_def)
    show ?thesis
    proof (cases "k = 0")
      case True
      then show ?thesis using Suc.prems(1) r Some c1 ring_values_append(1) by auto
    next
      case False
      then have "n_party_client_rounds s c2 k = Inr (ok, key, c')" using Suc.prems(1) r Some c2(1) by (simp add: Let_def)
      from Suc.IH[OF this c2(2)] show ?thesis using c2(3) ring_values_append(2,3) by auto
    qed
  qed
qed

lemma n_party_client_sends:
  assumes "n_party_client rand c k = Inr (ok, key, c')" "sends_ok c"
  shows "sends_ok c' \<and> (\<exists>ring. outb c' = outb c @ ring \<and> ring_values ring)"
proof -
  let ?pub = "fst (point_q (point_d rand) False)"
  obtain c1 where c1: "ke_snd c KEY_EX_INTERMEDIATE ?pub = (True, c1)" "sends_ok c1" "outb c1 = outb c @ ke_bytes KEY_EX_INTERMEDIATE ?pub"
    using conn_send_good[OF assms(2)] by (auto simp: ke_snd_def)
  then have "n_party_client_rounds (point_d rand) c1 k = Inr (ok, key, c')"
    using assms(1) by (simp add: n_party_client_def Let_def case_prod_unfold)
  from n_party_client_rounds_sends[OF this c1(2)] show ?thesis using c1(3) ring_values_append(2,3) by auto
qed

lemma transmit_wire_appends:
  assumes "transmit_wire ctx w = Inr (ok, ctx')" "sends_ok (conn ctx)"
  shows "\<exists>c bytes. ctx' = ctx\<lparr>conn := c\<rparr> \<and> ok \<and> sends_ok c \<and> outb c = outb (conn ctx) @ bytes"
proof -
  obtain bytes where "conn_send (conn ctx) bytes = (ok, conn ctx')" "ctx' = ctx\<lparr>conn := conn ctx'\<rparr>"
    using assms(1) unfolding transmit_wire_def Let_def client_get_socket_def
    by (auto elim!: c_bind_InrE split: option.split_asm prod.split_asm)
  then show ?thesis using conn_send_good[OF assms(2), of bytes] by auto
qed

lemma no_wire_without_random:
  "init_wire_from_stat_msg None m = Inr w \<Longrightarrow> w = None"
  by (auto simp: init_wire_from_stat_msg_def init_wire_def wire_auth_init_iv_def Let_def elim!: c_bind_InrE split: if_splits)

lemma announce_connection_sends:
  assumes "announce_connection env ctx = Inr (ok, ctx')" "client_env_ok env" "sends_ok (conn ctx)"
  shows "\<exists>c frame. ctx' = ctx\<lparr>conn := c, conn_announced := True\<rparr> \<and> sends_ok c \<and> outb c = outb (conn ctx) @ frame \<and> announces (username ctx) frame"
proof -
  obtain w ctx1 where w: "client_init_stat_conn_wire env ctx STAT_USER_CONNECT = Inr w" "transmit_wire ctx w = Inr (ok, ctx1)"
    "ctx' = ctx1\<lparr>conn_announced := ok\<rparr>"
    using assms(1) by (auto simp: announce_connection_def elim!: c_bind_InrE)
  have "w \<noteq> None" using w(2) by (cases w) (auto simp: transmit_wire_def Let_def split: prod.split_asm)
  then have "wire_iv env \<noteq> None"
    using w(1) by (cases "wire_iv env") (auto simp: client_init_stat_conn_wire_def elim!: c_bind_InrE dest: no_wire_without_random)
  then obtain r where r: "wire_iv env = Some r" "length r = 16" using assms(2) by (auto simp: client_env_ok_def)
  from announcement[OF r assms(3)] obtain frame c where
    a: "announce_connection env ctx = Inr (True, ctx\<lparr>conn := c, conn_announced := True\<rparr>)" "outb c = outb (conn ctx) @ frame"
      "\<forall>env' b rest. session b = session ctx \<and> inb (conn b) = frame @ rest \<and> c_string (username ctx) 63 \<noteq> [] \<longrightarrow>
       (\<exists>b'. recv_step env' b = Inr (True, b') \<and> inb (conn b') = rest \<and> shown b' = shown b @ [Online (c_string (username ctx) 63)])"
    by blast
  have "ctx' = ctx\<lparr>conn := c, conn_announced := True\<rparr>" using a(1) assms(1) by simp
  then have "conn ctx1 = c" using arg_cong[of _ _ conn, OF w(3)] by simp
  then have "sends_ok c" using transmit_wire_appends[OF w(2) assms(3)] by auto
  then show ?thesis using a assms(1) unfolding announces_def by auto
qed

text \<open>What \<^verbatim>\<open>proc_ctrl\<close> sends: the ring and, once, the announcement.\<close>

lemma proc_ctrl_cases:
  assumes "proc_ctrl env ctx msg = Inr (ok, ctx')" "sends_ok (conn ctx)"
  obtains c ring where "sends_ok c" "outb c = outb (conn ctx) @ ring" "ring_values ring" "ctx' = ctx\<lparr>conn := c\<rparr>"
  | c ring key renewed where "sends_ok c" "outb c = outb (conn ctx) @ ring" "ring_values ring"
      "if conn_announced ctx then ctx' = client_set_keys (ctx\<lparr>conn := c\<rparr>) key renewed
       else announce_connection env (client_set_keys (ctx\<lparr>conn := c\<rparr>) key renewed) = Inr (ok, ctx')"
proof -
  from assms(1) obtain type res where t: "msg_get_type msg = Inr type"
    "(if type = ctrl_msg_type_value CTRL_DHKE
             then c_bind (ctrl_msg_get_cnt msg) (\<lambda>rounds.
                  c_bind (n_party_client (ring_secret env) (client_get_socket ctx) (unat rounds)) (\<lambda>(ok, key, sock).
                  Inr (ok, (case key of None \<Rightarrow> replicate 32 0 | Some k \<Rightarrow> k), ctx\<lparr>conn := sock\<rparr>)))
             else Inr (True, replicate 32 0, ctx)) = Inr res"
    "(case res of (ok1, session_key, ctx) \<Rightarrow>
      if \<not> ok1 then Inr (False, ctx)
      else c_bind (mem_read (msg_get_data sizeof_ctrl_msg_t msg) 0 KEY_LEN) (\<lambda>renewed_key.
       if \<not> conn_announced (client_set_keys ctx session_key renewed_key)
       then announce_connection env (client_set_keys ctx session_key renewed_key)
       else Inr (True, client_set_keys ctx session_key renewed_key))) = Inr (ok, ctx')"
    unfolding proc_ctrl_def Let_def by (elim c_bind_InrE) (rule that; assumption)
  obtain ok1 key ctx1 where res: "res = (ok1, key, ctx1)" by (cases res)
  obtain c ring where c: "ctx1 = ctx\<lparr>conn := c\<rparr>" "sends_ok c" "outb c = outb (conn ctx) @ ring" "ring_values ring"
  proof (cases "type = ctrl_msg_type_value CTRL_DHKE")
    case True
    then obtain n k c where "n_party_client (ring_secret env) (conn ctx) n = Inr (ok1, k, c)" "ctx1 = ctx\<lparr>conn := c\<rparr>"
      using t(2) res unfolding client_get_socket_def by (clarsimp elim!: c_bind_InrE)
    then show ?thesis using n_party_client_sends[OF _ assms(2)] that by blast
  next
    case False
    then show ?thesis using t(2) res assms(2) ring_values_append(1) that[of "conn ctx" "[]"] by simp
  qed
  show ?thesis
  proof (cases ok1)
    case True
    then obtain renewed where "if conn_announced ctx then ctx' = client_set_keys (ctx\<lparr>conn := c\<rparr>) key renewed
       else announce_connection env (client_set_keys (ctx\<lparr>conn := c\<rparr>) key renewed) = Inr (ok, ctx')"
      using t(3) res c(1) by (auto simp: client_set_keys_def elim!: c_bind_InrE split: if_splits)
    then show ?thesis using that(2)[OF c(2-4)] by blast
  next
    case False
    then show ?thesis using t(3) res c that(1) by auto
  qed
qed

lemma announced_first_more:
  assumes "announced_first name start ctx" "sends_ok (conn ctx1)" "outb (conn ctx1) = outb (conn ctx) @ bs"
    and "conn_announced ctx1 = conn_announced ctx" "conn_announced ctx \<or> ring_values bs \<and> username ctx1 = username ctx"
  shows "announced_first name start ctx1"
proof (cases "conn_announced ctx")
  case True
  then obtain ring frame rest where "outb (conn ctx1) = start @ ring @ frame @ rest @ bs" "ring_values ring" "announces name frame"
    using assms(1,3) by (auto simp: announced_first_def)
  then show ?thesis using True assms(2,4) by (auto simp: announced_first_def)
next
  case False
  then obtain ring where "outb (conn ctx1) = start @ ring @ bs" "ring_values ring" "username ctx1 = name"
    using assms(1,3,5) by (auto simp: announced_first_def)
  then show ?thesis using False assms(2,4,5) ring_values_append(2)[of ring bs] by (auto simp: announced_first_def)
qed

lemma proc_ctrl_announces:
  assumes "proc_ctrl env ctx msg = Inr (ok, ctx')" "client_env_ok env" "announced_first name start ctx"
  shows "announced_first name start ctx'"
proof -
  have s: "sends_ok (conn ctx)" using assms(3) by (simp add: announced_first_def)
  from assms(1) s show ?thesis
  proof (cases rule: proc_ctrl_cases)
    case (1 c ring)
    then show ?thesis using announced_first_more[OF assms(3), of ctx' ring] by simp
  next
    case (2 c ring key renewed)
    define ctx1 where "ctx1 = client_set_keys (ctx\<lparr>conn := c\<rparr>) key renewed"
    have ctx1: "conn ctx1 = c" "conn_announced ctx1 = conn_announced ctx" "username ctx1 = username ctx"
      by (simp_all add: ctx1_def client_set_keys_def)
    then have inv: "announced_first name start ctx1" using announced_first_more[OF assms(3), of ctx1 ring] 2 by simp
    show ?thesis
    proof (cases "conn_announced ctx")
      case True
      then show ?thesis using inv 2(4) by (simp add: ctx1_def)
    next
      case False
      then have "announce_connection env ctx1 = Inr (ok, ctx')" using 2(4) by (simp add: ctx1_def)
      from announce_connection_sends[OF this assms(2)] obtain c' frame where a:
        "ctx' = ctx1\<lparr>conn := c', conn_announced := True\<rparr>" "sends_ok c'" "outb c' = outb (conn ctx1) @ frame" "announces (username ctx1) frame"
        using 2(1) ctx1(1) by auto
      obtain ring0 where "outb (conn ctx1) = start @ ring0" "ring_values ring0" "username ctx1 = name"
        using inv False ctx1(2) by (auto simp: announced_first_def)
      then have "outb (conn ctx') = start @ ring0 @ frame @ [] \<and> ring_values ring0 \<and> announces name frame" using a by simp
      moreover have "conn_announced ctx'" "sends_ok (conn ctx')" using a by simp_all
      ultimately show ?thesis unfolding announced_first_def by metis
    qed
  qed
qed

lemma announced_first_same:
  assumes "announced_first name start ctx" "conn_tx (conn ctx1) = conn_tx (conn ctx)"
    and "conn_announced ctx1 = conn_announced ctx" "username ctx1 = username ctx"
  shows "announced_first name start ctx1"
proof (rule announced_first_more[OF assms(1), where bs = "[]"])
  show "sends_ok (conn ctx1)" using assms(1,2) by (simp add: announced_first_def sends_ok_def)
qed (simp_all add: assms(2-4) ring_values_append(1))

lemma recv_step_announces:
  assumes "client_env_ok env" "announced_first name start ctx" "recv_step env ctx = Inr (go, ctx')"
  shows "announced_first name start ctx'"
  using assms(3)
proof (cases rule: recv_step_cases)
  case (1 rx)
  then show ?thesis using announced_first_same[OF assms(2)] by simp
next
  case (2 rx w ok)
  let ?c = "ctx\<lparr>conn := (conn ctx)\<lparr>conn_rx := rx\<rparr>\<rparr>"
  have inv: "announced_first name start ?c" using announced_first_same[OF assms(2)] by simp
  have "announced_first name start ctx'"
    if "conn ctx' = conn ?c \<and> conn_announced ctx' = conn_announced ?c \<and> username ctx' = username ?c"
    using announced_first_same[OF inv] that by simp
  then show ?thesis
    using 2 inv proc_ctrl_announces[OF _ assms(1) inv]
    by (auto simp: handle_wire_def Let_def split: if_splits dest!: quiet_handlers)
qed

lemma exec_cmd_appends:
  assumes "exec_cmd env ctx msg = Inr (ok, ctx')" "sends_ok (conn ctx)"
  shows "sends_ok (conn ctx') \<and> (\<exists>bs. outb (conn ctx') = outb (conn ctx) @ bs)"
proof -
  let ?more = "\<lambda>c. sends_ok (conn c) \<and> (\<exists>bs. outb (conn c) = outb (conn ctx) @ bs)"
  have wire: "?more c" if "transmit_wire ctx w = Inr (ok, c)" for w ok c
    using transmit_wire_appends[OF that assms(2)] by auto
  have "?more c" if "cmd_username env ctx = Inr (ok, c)" for ok c
    using that wire unfolding cmd_username_def by (fastforce elim!: c_bind_InrE)
  moreover have "?more c" if "cmd_send_file env ctx = Inr (ok, c)" for ok c
    using that wire assms(2) unfolding cmd_send_file_def by (auto elim!: c_bind_InrE split: if_splits)
  moreover have "?more c" if "cmd_exit env ctx = Inr (ok, c)" for ok c
    using that wire unfolding cmd_exit_def by (fastforce elim!: c_bind_InrE)
  ultimately show ?thesis
    using assms unfolding exec_cmd_def
    by (auto simp: reset_last_sender_def elim!: c_bind_InrE split: cmd_type_t.split_asm)
qed

lemma send_step_appends:
  assumes "send_step env ctx msg len = Inr (go, ctx')" "sends_ok (conn ctx)"
  shows "sends_ok (conn ctx') \<and> (\<exists>bs. outb (conn ctx') = outb (conn ctx) @ bs)"
proof -
  have "sends_ok (conn c) \<and> (\<exists>bs. outb (conn c) = outb (conn ctx) @ bs)" if "send_text_msg env ctx msg len = Inr (ok, c)" for ok c
    using that transmit_wire_appends[OF _ assms(2)] unfolding send_text_msg_def by (fastforce elim!: c_bind_InrE)
  then show ?thesis
    using assms exec_cmd_appends[OF _ assms(2)] unfolding send_step_def Let_def
    by (auto simp: update_last_sender_def Let_def elim!: c_bind_InrE split: if_splits)
qed

interpretation first: client_invariant "announced_first name start" for name start
proof
  show "announced_first name start ctx'"
    if "announced_first name start ctx" "conn_announced ctx" "send_step env ctx msg len = Inr (go, ctx')" for env ctx msg len go ctx'
    using send_step_appends[OF that(3)] that(1,2) announced_first_more[OF that(1), of ctx'] send_step_announced[OF that(3)]
    by (auto simp: announced_first_def)
qed (rule recv_step_announces)

subsection \<open>The end of the connection\<close>

lemma recv_step_closed:
  assumes "length (inb (conn ctx)) < 14" "\<not> rx_fails (conn_rx (conn ctx))"
  shows "recv_step env ctx = Inl NonTermination"
  using xrecvall_closed[of "conn_rx (conn ctx)" 14 14] assms
  by (simp add: recv_step_def client_recv_cable_def client_get_socket_def recv_cable_def cable_recv_header_def alloc_cable_def)

lemma transmit_wire_rx: "transmit_wire ctx w = Inr (ok, ctx') \<Longrightarrow> conn_rx (conn ctx') = conn_rx (conn ctx)"
  unfolding transmit_wire_def Let_def client_get_socket_def
  by (auto simp: conn_send_def elim!: c_bind_InrE split: option.split_asm prod.split_asm)

lemma exec_cmd_rx:
  assumes "exec_cmd env ctx msg = Inr (ok, ctx')"
  shows "conn_rx (conn ctx') = conn_rx (conn ctx)"
  using assms unfolding exec_cmd_def cmd_username_def cmd_send_file_def cmd_exit_def
  by (auto simp: reset_last_sender_def elim!: c_bind_InrE split: cmd_type_t.split_asm if_splits dest!: transmit_wire_rx)

lemma send_step_rx:
  assumes "send_step env ctx msg len = Inr (go, ctx')"
  shows "conn_rx (conn ctx') = conn_rx (conn ctx)"
  using assms exec_cmd_rx unfolding send_step_def send_text_msg_def Let_def
  by (auto simp: update_last_sender_def Let_def elim!: c_bind_InrE split: if_splits dest!: transmit_wire_rx)

lemma closed_step:
  assumes "client_step (Live ctx s Receiving) p" "length (inb (conn ctx)) < 14" "\<not> rx_fails (conn_rx (conn ctx))"
  shows "(\<exists>fault. p = Aborted fault) \<or> (\<exists>ctx' s'. p = Live ctx' s' Receiving \<and> conn_rx (conn ctx') = conn_rx (conn ctx))"
  using assms(1) recv_step_closed[OF assms(2,3)] by (cases rule: client_step.cases) (auto dest: send_step_rx)

lemma aborted_stays: "client_runs (Aborted fault) p \<Longrightarrow> p = Aborted fault"
  by (induction rule: rtranclp_induct) (auto elim: client_step.cases)

lemma closed_run:
  assumes "client_runs (Live ctx s Receiving) p" "length (inb (conn ctx)) < 14" "\<not> rx_fails (conn_rx (conn ctx))"
  shows "(\<exists>fault. p = Aborted fault) \<or> (\<exists>ctx' s'. p = Live ctx' s' Receiving \<and> conn_rx (conn ctx') = conn_rx (conn ctx))"
  using assms(1)
proof (induction rule: rtranclp_induct)
  case (step y z)
  from step.IH show ?case
  proof
    assume "\<exists>fault. y = Aborted fault"
    then show ?thesis using aborted_stays step.hyps(2) by blast
  next
    assume "\<exists>ctx' s'. y = Live ctx' s' Receiving \<and> conn_rx (conn ctx') = conn_rx (conn ctx)"
    then obtain c s1 where "y = Live c s1 Receiving" "conn_rx (conn c) = conn_rx (conn ctx)" by blast
    then show ?thesis using closed_step[of c s1 z] step.hyps(2) assms(2,3) by auto
  qed
qed auto

subsection \<open>What arrives during the ring\<close>

text \<open>The next byte on a connection is there and is not the type of a ring value: the client sent
  something else, such as a cable, before it saw the control cable.\<close>

definition other_traffic :: "conn_t \<Rightarrow> bool" where
  "other_traffic c \<longleftrightarrow> inb c \<noteq> [] \<and> hd (inb c) \<noteq> key_type_value KEY_EX_INTERMEDIATE"

lemma ke_rcv_other_traffic:
  assumes "other_traffic c" "ke_rcv c KEY_EX_INTERMEDIATE = Inr (k, c')"
  shows "k = None"
proof (cases "33 \<le> length (inb c)")
  case True
  then obtain rx' where "xrecvall (conn_rx c) 33 33 = Inr (True, take 33 (inb c), rx')"
    using xrecvall_available[of 33 "conn_rx c" 33] by auto
  moreover have "take 33 (inb c) ! 0 = hd (inb c)" using assms(1) by (simp add: other_traffic_def hd_conv_nth)
  ultimately show ?thesis using assms by (auto simp: ke_rcv_def other_traffic_def)
next
  case False
  then show ?thesis
    using xrecvall_closed[of "conn_rx c" 33 33] xrecvall_error[of "conn_rx c" 33 33] assms(2)
    by (cases "rx_fails (conn_rx c)") (auto simp: ke_rcv_def)
qed

lemma ke_snd_rx: "conn_rx (snd (ke_snd c t k)) = conn_rx c"
  by (simp add: ke_snd_def conn_send_def case_prod_unfold Let_def)

lemma send_to_slots_rx:
  "send_to_slots ns sockets bytes slots = Inr (ok, ns') \<Longrightarrow> conn_rx (ns' fd) = conn_rx (ns fd)"
proof (induction slots arbitrary: ns)
  case (Cons i slots)
  then show ?case
    by (fastforce simp: Let_def case_prod_unfold conn_send_def elim!: c_bind_InrE split: if_splits)
qed simp

lemma rotate_slots_other_traffic:
  assumes "other_traffic (ns (sockets ! i))" "i \<in> set slots" "i < length sockets"
  shows "rotate_slots ns sockets n slots \<noteq> Inr (True, ns')"
  using assms
proof (induction slots arbitrary: ns)
  case (Cons j slots)
  show ?case
  proof
    assume run: "rotate_slots ns sockets n (j # slots) = Inr (True, ns')"
    then obtain k c where k: "j < length sockets" "ke_rcv (ns (sockets ! j)) KEY_EX_INTERMEDIATE = Inr (Some k, c)"
      by (auto simp: sock_at_def Let_def elim!: c_bind_InrE split: if_splits option.split_asm)
    have other: "sockets ! j \<noteq> sockets ! i" using ke_rcv_other_traffic[of "ns (sockets ! j)"] k(2) Cons.prems(1) by auto
    then have "i \<in> set slots" using Cons.prems(2) by auto
    obtain nxt ns1 where step: "sock_at sockets nxt = Inr (sockets ! nxt)"
      "ns1 = (ns(sockets ! j := c))(sockets ! nxt := snd (ke_snd ((ns(sockets ! j := c)) (sockets ! nxt)) KEY_EX_INTERMEDIATE k))"
      "rotate_slots ns1 sockets n slots = Inr (True, ns')"
      using run k by (auto simp: sock_at_def Let_def case_prod_unfold elim!: c_bind_InrE split: if_splits)
    have "other_traffic (ns1 (sockets ! i))"
      using Cons.prems(1) other ke_snd_rx unfolding step(2) by (auto simp: other_traffic_def)
    then show False using Cons.IH \<open>i \<in> set slots\<close> Cons.prems(3) step(3) by blast
  qed
qed simp

lemma n_party_server_other_traffic:
  assumes "other_traffic (ns (sockets ! i))" "1 \<le> i" "i \<le> n" "i < length sockets" "2 \<le> n"
  shows "n_party_server rand rand_iv ns sockets n key \<noteq> Inr (True, key', ns')"
proof
  assume "n_party_server rand rand_iv ns sockets n key = Inr (True, key', ns')"
  then obtain k ns1 where n: "server_send_ctrl_key rand rand_iv ns sockets n key = Inr (True, k, ns1)"
    "n_party_rounds ns1 sockets n (n - 1) = Inr (True, ns')"
    using assms(5) by (auto simp: n_party_server_def Let_def elim!: c_bind_InrE split: if_splits)
  obtain bytes where "send_to_slots ns sockets bytes [1..<n + 1] = Inr (True, ns1)"
    using n(1) by (auto simp: server_send_ctrl_key_def Let_def elim!: c_bind_InrE split: option.split_asm)
  then have "other_traffic (ns1 (sockets ! i))" using assms(1) send_to_slots_rx by (simp add: other_traffic_def)
  moreover have "i \<in> set [1..<n + 1]" using assms(2,3) by auto
  moreover obtain r where "n - 1 = Suc r" using assms(5) by (cases "n - 1") auto
  ultimately show False
    using rotate_slots_other_traffic[OF _ _ assms(4)] n(2) by (auto simp: rotate_intermediates_def elim!: c_bind_InrE split: if_splits)
qed

lemma add_client_other_traffic:
  assumes "table listener clients srv" "env_ok env srv" "length clients + 1 < FD_SETSIZE"
    and "fd \<in> set clients" "other_traffic (net srv fd)"
  shows "serve_fd env srv listener \<noteq> Inr (True, srv')"
proof
  let ?new = "accepted env"
  assume "serve_fd env srv listener = Inr (True, srv')"
  then obtain ret where a: "add_client env srv = Inr (ret, srv')" "ret \<noteq> - 1"
    using assms(1) by (auto simp: serve_fd_def sock_at_def table_def elim!: c_bind_InrE)
  have t: "ret = 0" "table listener (clients @ [?new]) srv'" "?new \<notin> set clients"
    using add_client_table[OF assms(1,2) a] assms(3) by auto
  obtain i where i: "i < length clients" "clients ! i = fd" using assms(4) by (auto simp: in_set_conv_nth)
  then have slot: "sfds srv' ! Suc i = fd" "Suc i < length (sfds srv')"
    using t(2) by (auto simp: table_def nth_append)
  have cnt: "cnt srv' = length clients + 1" "1 < length clients + 1" using t(2) i(1) by (auto simp: table_def)
  obtain c ok key ns where "n_party_server (ring_rand env) (ring_iv env) ((net srv)(?new := c)) (sfds srv') (cnt srv') (server_key srv) = Inr (True, key, ns)"
    using a t(1) cnt assms(1,3) add_client_fields[OF a(1,2)]
    by (auto simp: add_client_def Let_def table_def simp del: upt_Suc elim!: c_bind_InrE split: if_splits option.split_asm prod.split_asm)
  moreover have "other_traffic (((net srv)(?new := c)) (sfds srv' ! Suc i))" using assms(4,5) t(3) slot(1) by auto
  ultimately show False
    using n_party_server_other_traffic[of "(net srv)(?new := c)" "sfds srv'" "Suc i" "cnt srv'"] slot(2) cnt i(1) by auto
qed

subsection \<open>Properties\<close>

text \<open>A client as \<^verbatim>\<open>main\<close> starts its threads: connected, with the control key, not announced.\<close>

definition started_client :: "recv_event list \<Rightarrow> client_t" where
  "started_client rx = example_client\<lparr>conn := \<lparr>conn_rx = rx, conn_tx = \<lparr>plan = [], sent = []\<rparr>\<rparr>,
     username := ascii ''ada'' @ replicate 61 0, conn_announced := False\<rparr>"

lemma started_client_fields:
  "conn_rx (conn (started_client rx)) = rx" "sends_ok (conn (started_client rx))" "\<not> conn_announced (started_client rx)"
  "session (started_client rx) = ctrl (started_client rx)" "outb (conn (started_client rx)) = []"
  "ctrl (started_client rx) = replicate 32 4" "client_sized (started_client rx)"
  "username (started_client rx) = ascii ''ada'' @ replicate 61 0"
  by (simp_all add: started_client_def example_client_def sends_ok_def client_sized_def ascii_def)

lemma example_env_ok: "client_env_ok example_client_env"
  by (simp add: client_env_ok_def example_client_env_def)

text \<open>The first control cable of a group of two and the value of the other client behind it: the
  receiving loop takes both and the sender starts.\<close>

lemma one_round:
  assumes "sends_ok c" "inb c = ke_bytes KEY_EX_INTERMEDIATE v" "length v = 32"
  shows "\<exists>c' key ring. n_party_client rand c 1 = Inr (True, Some key, c') \<and> inb c' = [] \<and> outb c' = outb c @ ring \<and>
    key = sha256_key_digest (point_kx (point_d rand) v) \<and> ring = ke_bytes KEY_EX_INTERMEDIATE (fst (point_q (point_d rand) False))"
proof -
  let ?pub = "fst (point_q (point_d rand) False)"
  obtain c1 where c1: "ke_snd c KEY_EX_INTERMEDIATE ?pub = (True, c1)" "outb c1 = outb c @ ke_bytes KEY_EX_INTERMEDIATE ?pub"
      "conn_rx c1 = conn_rx c"
    using conn_send_good[OF assms(1)] by (auto simp: ke_snd_def)
  have len: "length (ke_bytes KEY_EX_INTERMEDIATE v) = 33" "ke_bytes KEY_EX_INTERMEDIATE v = 4 # v"
    using assms(3) by (simp_all add: ke_bytes_def)
  then obtain rx where "xrecvall (conn_rx c1) 33 33 = Inr (True, 4 # v, rx)" "rx_bytes rx = []"
    using xrecvall_available[of 33 "conn_rx c1" 33] assms(2) c1(3) by auto
  then have "ke_rcv c1 KEY_EX_INTERMEDIATE = Inr (Some v, c1\<lparr>conn_rx := rx\<rparr>)" "rx_bytes rx = []"
    by (simp_all add: ke_rcv_def)
  then show ?thesis using c1 by (auto simp: n_party_client_def case_prod_unfold Let_def)
qed

lemma started_run:
  "\<exists>rx ctx'. client_runs (Live (started_client rx) Announcing Receiving) (Live ctx' Prompting Receiving)"
proof -
  let ?v = "replicate 32 (9 :: byte)" and ?r = "replicate 16 (7 :: byte)" and ?k = "replicate 32 (5 :: byte)"
  obtain cable where cable: "init_ctrl_key_cable (Some ?r) 1 ?k (replicate 32 4) = Inr cable"
    using ctrl_key_cable_bytes[of ?r ?k 1 "replicate 32 4" None] by auto
  define ctx where "ctx = started_client [Segment (cable @ ke_bytes KEY_EX_INTERMEDIATE ?v)]"
  have "rekey_ready example_client_env ctx (replicate 32 4) cable (ke_bytes KEY_EX_INTERMEDIATE ?v)"
    by (simp add: rekey_ready_def ctx_def started_client_fields example_client_ready(2))
  from recv_step_rekeys[OF cable _ _ _ this] one_round[of _ ?v "ring_secret example_client_env"]
  obtain ctx' where "recv_step example_client_env ctx = Inr (True, ctx')" "conn_announced ctx'"
    by (force simp: rekeyed_def)
  then have "client_step (Live ctx Announcing Receiving) (Live ctx' Announcing Receiving)"
    "client_step (Live ctx' Announcing Receiving) (Live ctx' Prompting Receiving)"
    using client_step.recv[OF example_env_ok] client_step.announced by blast+
  then have "client_runs (Live ctx Announcing Receiving) (Live ctx' Prompting Receiving)" by auto
  then show ?thesis unfolding ctx_def by blast
qed

text \<open>C9: the announcement comes first. As long as a client whose sends succeed is not announced, its sender waits
  and it has sent nothing but values of the ring; the first other thing it sends is the frame that
  shows the name it started with to every client with its session key.\<close>

theorem client_announces_first:
  assumes "client_runs (Live ctx Announcing Receiving) (Live ctx' s r)" "sends_ok (conn ctx)" "\<not> conn_announced ctx"
  shows "if conn_announced ctx'
    then \<exists>ring frame rest. outb (conn ctx') = outb (conn ctx) @ ring @ frame @ rest \<and> ring_values ring \<and> announces (username ctx) frame
    else s = Announcing \<and> (\<exists>ring. outb (conn ctx') = outb (conn ctx) @ ring \<and> ring_values ring)"
proof -
  have "announced_first (username ctx) (outb (conn ctx)) ctx"
    using assms(2,3) ring_values_append(1) by (auto simp: announced_first_def)
  from first.run_keeps[OF assms(1) this] show ?thesis unfolding announced_first_def by presburger
qed

theorem client_announces_first_witness:
  "\<exists>rx ctx' ring frame rest. client_runs (Live (started_client rx) Announcing Receiving) (Live ctx' Prompting Receiving) \<and>
     outb (conn ctx') = ring @ frame @ rest \<and> ring_values ring \<and> announces (ascii ''ada'' @ replicate 61 0) frame"
proof -
  obtain rx ctx' where r: "client_runs (Live (started_client rx) Announcing Receiving) (Live ctx' Prompting Receiving)"
    using started_run by blast
  from client_announces_first[OF r started_client_fields(2,3)] obtain ring frame rest where
    "outb (conn ctx') = ring @ frame @ rest" "ring_values ring" "announces (ascii ''ada'' @ replicate 61 0) frame"
    by (auto simp: started_client_fields split: if_splits)
  then show ?thesis using r by metis
qed

text \<open>C13: the receiver never ends after a close. When the daemon has closed the connection in front of
  a whole header, no run of the client reaches the end of \<^verbatim>\<open>recv_thread\<close>, so \<^verbatim>\<open>main\<close> waits in
  \<^verbatim>\<open>pthread_join\<close> for ever, also after \<^verbatim>\<open>/q\<close>.\<close>

theorem closed_connection_never_joins:
  assumes "length (inb (conn ctx)) < 14" "\<not> rx_fails (conn_rx (conn ctx))"
  shows "\<not> client_runs (Live ctx s Receiving) (Live ctx' s' ReceiverDone)"
  using closed_run[of ctx s "Live ctx' s' ReceiverDone"] assms by auto

theorem closed_connection_never_joins_witness:
  "\<nexists>ctx' s'. client_runs (Live (started_client [Segment [112, 97]]) Announcing Receiving) (Live ctx' s' ReceiverDone)"
  using closed_connection_never_joins[of "started_client [Segment [112, 97]]"] by (simp add: started_client_fields)

text \<open>C12: a message in flight stops the daemon. When a client connects while the first bytes of a cable from
  another client wait on its socket, the daemon takes them for the client's first value of the ring: \<^verbatim>\<open>add_client\<close>
  fails and the loop does not go on.\<close>

theorem pending_message_stops_daemon:
  assumes "table listener clients srv" "env_ok env srv" "length clients + 1 < FD_SETSIZE"
    and "fd \<in> set clients" "inb (net srv fd) = ascii ''parcel'' @ rest"
  shows "serve_fd env srv listener \<noteq> Inr (True, srv')"
proof -
  have "other_traffic (net srv fd)" using assms(5) by (simp add: other_traffic_def ascii_def)
  then show ?thesis using add_client_other_traffic assms(1-4) by blast
qed

theorem pending_message_stops_daemon_witness:
  "let ring = ring_msg (replicate 32 9); cable = ascii ''parcel'' @ wire_unpack64 15 @ [1];
       srv = (\<lambda>rx. example_srv (\<lambda>_. \<lparr>conn_rx = [Segment rx], conn_tx = \<lparr>plan = [Takes 5], sent = []\<rparr>\<rparr>) [4])
   in (\<exists>srv'. serve_fd (joining_env ring) (srv ring) 3 = Inr (True, srv') \<and> table 3 [4, 7] srv') \<and>
      (\<nexists>srv'. serve_fd (joining_env ring) (srv (cable @ ring)) 3 = Inr (True, srv'))"
proof -
  let ?ring = "ring_msg (replicate 32 9)" and ?cable = "ascii ''parcel'' @ wire_unpack64 15 @ [1]"
  let ?ns = "\<lambda>rx _. \<lparr>conn_rx = [Segment rx], conn_tx = \<lparr>plan = [Takes 5], sent = []\<rparr>\<rparr>"
  have "\<exists>srv'. serve_fd (joining_env ?ring) (example_srv (?ns ?ring) [4]) 3 = Inr (True, srv') \<and> table 3 [4, 7] srv'"
    using serve_fd_joins[OF example_table(2), of "?ns ?ring" "joining_env ?ring" "replicate 16 7" "replicate 32 9"
        "replicate 16 7" "replicate 32 9" "\<lambda>_ _. replicate 32 9"]
    by (simp add: joining_env_def sends_ok_def example_table example_srv_def)
  moreover have "serve_fd (joining_env ?ring) (example_srv (?ns (?cable @ ?ring)) [4]) 3 \<noteq> Inr (True, srv')" for srv'
    using pending_message_stops_daemon[OF example_table(2), of "joining_env ?ring" "?ns (?cable @ ?ring)" 4
        "wire_unpack64 15 @ [1] @ ?ring" srv']
    by (simp add: joining_env_def env_ok_def example_table)
  ultimately show ?thesis unfolding Let_def by blast
qed

text \<open>C27: a control message that is not an exchange replaces the session key of a client by zeros and its
  control key by what the message carries; every client that holds the session key can seal one.\<close>

theorem ctrl_message_zeroes_session:
  assumes "wire_get_type wire = wire_type_value TYPE_CTRL" "msg_get_type (wire_data wire) = Inr t" "t \<noteq> ctrl_msg_type_value CTRL_DHKE"
    and "conn_announced ctx" "43 \<le> length (wire_data wire)"
  shows "handle_wire env ctx wire = Inr (True, ctx\<lparr>session := replicate 32 0, ctrl := take 32 (drop 11 (wire_data wire))\<rparr>)"
  using assms by (simp add: handle_wire_def proc_ctrl_def msg_get_data_def mem_read_def client_set_keys_def Let_def)

theorem ctrl_message_zeroes_session_witness:
  "handle_wire example_client_env example_client
     \<lparr>auth = \<lparr>mac_outer = replicate 16 0, mac_inner = replicate 16 0, iv = replicate 16 0\<rparr>,
      header = \<lparr>signature = [], wire_len = [], alignment = 0, hdr_type = 3\<rparr>, wire_data = replicate 11 0 @ replicate 32 6\<rparr> =
   Inr (True, example_client\<lparr>session := replicate 32 0, ctrl := replicate 32 6\<rparr>)"
  using ctrl_message_zeroes_session[of "\<lparr>auth = \<lparr>mac_outer = replicate 16 0, mac_inner = replicate 16 0, iv = replicate 16 0\<rparr>,
      header = \<lparr>signature = [], wire_len = [], alignment = 0, hdr_type = 3\<rparr>, wire_data = replicate 11 0 @ replicate 32 6\<rparr>" 0]
  by (simp add: msg_get_type_def mem_read_def example_client_def wire_get_type_def)

end
