(* ===== verification/Entry.thy ===== *)
theory Entry
  imports Threads
begin

text \<open>
  The two programs from their command lines: \<^verbatim>\<open>main\<close> of \<^verbatim>\<open>parcel/parcel.c\<close> and of \<^verbatim>\<open>parceld/parceld.c\<close>,
  with the loops over \<^verbatim>\<open>xgetopt\<close>, and what the daemon displays before it serves.

  \<^item> \<open>Exit\<close> is a \<^verbatim>\<open>return\<close> from \<^verbatim>\<open>main\<close> before there is a connection to serve; \<open>Run\<close> is the state in which
    the client starts its threads, or the daemon its loop.
  \<^item> What the system answers is a parameter: the login name, the resolved addresses, the prompts.
\<close>

datatype 'a main_t = Exit int | Run 'a

type_synonym argv_t = "byte list option list"

definition arg_string :: "xgetopt_t \<Rightarrow> byte list c_result" where
  "arg_string xgo = (case opt_arg xgo of None \<Rightarrow> Inl NullDeref | Some arg \<Rightarrow> c_string_arg arg)"

definition xgetopt_init :: xgetopt_t where
  "xgetopt_init = \<lparr>opt_index = 0, opt_position = 0, opt_option = 0, opt_arg = None\<rparr>"

subsection \<open>The loop over the options ends\<close>

text \<open>The bytes of the arguments that are left.\<close>

definition arg_size :: "byte list option \<Rightarrow> nat" where
  "arg_size arg = (case arg of None \<Rightarrow> 1 | Some arg \<Rightarrow> Suc (length arg))"

definition opts_left :: "argv_t \<Rightarrow> xgetopt_t \<Rightarrow> nat" where
  "opts_left argv xgo = sum_list (map arg_size (drop (opt_index xgo) argv)) - opt_position xgo"

lemma sum_drop_arg:
  "i < length argv \<Longrightarrow> sum_list (map arg_size (drop i argv)) = arg_size (argv ! i) + sum_list (map arg_size (drop (Suc i) argv))"
  by (simp flip: Cons_nth_drop_Suc)

lemma sum_drop_le: "i \<le> j \<Longrightarrow> sum_list (map arg_size (drop j argv)) \<le> sum_list (map arg_size (drop i argv))"
proof -
  have "sum_list (map arg_size (drop k xs)) \<le> sum_list (map arg_size xs)" for k xs
    by (metis append_take_drop_id le_add2 map_append sum_list.append)
  moreover assume "i \<le> j"
  ultimately show ?thesis by (metis drop_drop le_add_diff_inverse2)
qed

lemma mem_at_Inr: "mem_at m i = Inr x \<longleftrightarrow> i < length m \<and> x = m ! i"
  by (auto simp: mem_at_def)

lemma opts_left_less:
  assumes "argv ! i = Some arg" "i < length argv" "p + 2 < length arg" "j \<le> i"
    and "opt_index xgo = j" "opt_position xgo = p"
    and "opt_index xgo' > i \<and> opt_position xgo' = 0 \<or> opt_index xgo' = i \<and> opt_position xgo' = Suc p"
  shows "opts_left argv xgo' < opts_left argv xgo"
proof -
  let ?S = "\<lambda>k. sum_list (map arg_size (drop k argv))"
  have "?S i = Suc (length arg) + ?S (Suc i)" using sum_drop_arg[OF assms(2)] assms(1) by (simp add: arg_size_def)
  moreover have "?S i \<le> ?S j" using assms(4) by (rule sum_drop_le)
  moreover have "opt_index xgo' > i \<Longrightarrow> ?S (opt_index xgo') \<le> ?S (Suc i)" by (intro sum_drop_le) simp
  ultimately show ?thesis using assms(3,5-7) by (auto simp: opts_left_def)
qed

lemma xgetopt_progress:
  assumes "xgetopt xgo argc argv optstr = Inr (GetoptChar c, xgo')" "c \<noteq> 0x3f" "c \<noteq> 0x3a"
  shows "opts_left argv xgo' < opts_left argv xgo"
proof -
  define x where "x = (if opt_index xgo = 0 then xgo\<lparr>opt_index := (if argc = 0 then 0 else 1)\<rparr> else xgo)"
  have x: "opt_index xgo \<le> opt_index x" "opt_position x = opt_position xgo" by (simp_all add: x_def)
  obtain arg where arg: "opt_index x < length argv" "argv ! opt_index x = Some arg" "opt_position x + 2 < length arg"
    "opt_index xgo' > opt_index x \<and> opt_position xgo' = 0 \<or> opt_index xgo' = opt_index x \<and> opt_position xgo' = Suc (opt_position x)"
    using assms unfolding xgetopt_def x_def[symmetric]
    by (auto simp: mem_at_Inr Let_def elim!: c_bind_InrE split: option.split_asm if_splits)
  show ?thesis by (rule opts_left_less[OF arg(2,1) _ x(1) refl refl]) (use arg(3,4) x(2) in auto)
qed

subsection \<open>The client\<close>

record parcel_t =
  address :: "byte list"
  port :: "byte list"
  client :: client_t

text \<open>\<^verbatim>\<open>getlogin_r\<close>: the name of the user when there is one and it fits with its terminator.\<close>

definition xgetlogin :: "byte list option \<Rightarrow> byte list \<Rightarrow> nat \<Rightarrow> (int \<times> byte list) c_result" where
  "xgetlogin login user len =
     (case login of
        None \<Rightarrow> Inr (- 1, user)
      | Some name \<Rightarrow>
          if len \<le> length name then Inr (- 1, user)
          else c_bind (mem_store user 0 (name @ [0])) (\<lambda>user. Inr (0, user)))"

text \<open>The \<^verbatim>\<open>switch\<close>: the first component is the status when \<^verbatim>\<open>main\<close> returns.\<close>

definition parcel_option :: "byte list option \<Rightarrow> byte \<Rightarrow> xgetopt_t \<Rightarrow> parcel_t \<Rightarrow> (int option \<times> parcel_t) c_result" where
  "parcel_option login opt xgo p =
     (if opt = 0x61 then
        c_bind (arg_string xgo) (\<lambda>arg.
        if length arg < 32
        then c_bind (mem_store (address p) 0 arg) (\<lambda>m. Inr (None, p\<lparr>address := m\<rparr>))
        else Inr (None, p))
      else if opt = 0x70 then
        c_bind (arg_string xgo) (\<lambda>arg.
        if fst (xstrrange arg 0 65535)
        then c_bind (mem_store (port p) 0 arg) (\<lambda>m. Inr (None, p\<lparr>port := m\<rparr>))
        else Inr (None, p))
      else if opt = 0x75 then
        c_bind (arg_string xgo) (\<lambda>arg.
        if length arg < 64
        then c_bind (mem_store (username (client p)) 0 arg) (\<lambda>m. Inr (None, p\<lparr>client := (client p)\<lparr>username := m\<rparr>\<rparr>))
        else Inr (None, p))
      else if opt = 0x6c then
        c_bind (xgetlogin login (username (client p)) 64) (\<lambda>(ret, m). Inr (None, p\<lparr>client := (client p)\<lparr>username := m\<rparr>\<rparr>))
      else if opt = 0x68 then Inr (Some 0, p)
      else Inr (Some (- 1), p))"

function parcel_options :: "byte list option \<Rightarrow> nat \<Rightarrow> argv_t \<Rightarrow> xgetopt_t \<Rightarrow> parcel_t \<Rightarrow> (int option \<times> parcel_t) c_result" where
  "parcel_options login argc argv xgo p =
     (case xgetopt xgo argc argv (ascii ''lha:p:u:'' @ [0]) of
        Inl fault \<Rightarrow> Inl fault
      | Inr (GetoptDone, xgo) \<Rightarrow> Inr (None, p)
      | Inr (GetoptChar opt, xgo) \<Rightarrow>
          (case parcel_option login opt xgo p of
             Inl fault \<Rightarrow> Inl fault
           | Inr (Some status, p) \<Rightarrow> Inr (Some status, p)
           | Inr (None, p) \<Rightarrow> parcel_options login argc argv xgo p))"
  by pat_completeness auto

termination
proof (relation "measure (\<lambda>(login, argc, argv, xgo, p). opts_left argv xgo)", goal_cases)
  case (2 login argc argv xgo p y gr xgo' opt z st p')
  then have "opt \<noteq> 0x3f" "opt \<noteq> 0x3a" by (auto simp: parcel_option_def)
  then show ?case using 2 xgetopt_progress[of xgo argc argv _ opt xgo'] by auto
qed simp

declare parcel_options.simps [simp del]

record parcel_env =
  login :: "byte list option"
  address_in :: "byte list \<times> nat"
  username_in :: "byte list \<times> nat"
  resolve :: "byte list \<Rightarrow> byte list \<Rightarrow> int \<times> connect_env list"
  kx_secret :: "byte list option"
  server :: conn_t
  home_files :: fs_t

definition parcel_init :: "parcel_env \<Rightarrow> parcel_t" where
  "parcel_init env =
     \<lparr>address = replicate 32 0, port = ascii ''2315'' @ [0, 0],
      client = \<lparr>conn = server env, username = replicate 64 0, session = replicate 32 0, ctrl = replicate 32 0,
        conn_announced = False, keep_alive = True, last_sender = replicate 64 0, last_message_time = 0,
        files = home_files env, shown = []\<rparr>\<rparr>"

text \<open>The host and the port reach \<^verbatim>\<open>getaddrinfo\<close> as strings; reading one that has no terminator is a
  fault. The threads start in the state \<open>Run\<close>.\<close>

definition parcel_main :: "parcel_env \<Rightarrow> nat \<Rightarrow> argv_t \<Rightarrow> client_t main_t c_result" where
  "parcel_main env argc argv =
     c_bind (parcel_options (login env) argc argv xgetopt_init (parcel_init env)) (\<lambda>(status, p).
     case status of
       Some status \<Rightarrow> Inr (Exit status)
     | None \<Rightarrow>
         c_bind (if argc < 5
                 then c_bind (prompt_args (address_in env) (username_in env) (address p) (username (client p))) (\<lambda>(a, u).
                      Inr (p\<lparr>address := a, client := (client p)\<lparr>username := u\<rparr>\<rparr>))
                 else Inr p) (\<lambda>p.
         c_bind (c_string_arg (address p)) (\<lambda>ip.
         c_bind (c_string_arg (port p)) (\<lambda>service.
         let (ret, nodes) = resolve env ip service
         in c_bind (connect_server ret nodes (kx_secret env) (client p)) (\<lambda>(ok, ctx).
            Inr (if ok then Run ctx else Exit (- 1)))))))"

subsection \<open>The daemon\<close>

definition parceld_option :: "byte \<Rightarrow> xgetopt_t \<Rightarrow> server_t \<Rightarrow> (int option \<times> server_t) c_result" where
  "parceld_option opt xgo srv =
     (if opt = 0x70 then
        c_bind (arg_string xgo) (\<lambda>arg.
        if fst (xstrrange arg 0 65535)
        then c_bind (mem_store (server_port srv) 0 arg) (\<lambda>m. Inr (None, srv\<lparr>server_port := m\<rparr>))
        else Inr (None, srv))
      else if opt = 0x71 then
        c_bind (arg_string xgo) (\<lambda>arg.
        case xstrrange arg 0 32 of
          (True, Some n) \<Rightarrow> Inr (None, srv\<lparr>max_queue := of_int n\<rparr>)
        | _ \<Rightarrow> Inr (None, srv))
      else if opt = 0x68 then Inr (Some 0, srv)
      else if opt = 0x76 then Inr (Some 0, srv)
      else if opt = 0x3a then Inr (Some 1, srv)
      else Inr (Some (- 1), srv))"

function parceld_options :: "nat \<Rightarrow> argv_t \<Rightarrow> xgetopt_t \<Rightarrow> server_t \<Rightarrow> (int option \<times> server_t) c_result" where
  "parceld_options argc argv xgo srv =
     (case xgetopt xgo argc argv (ascii ''hvp:q:'' @ [0]) of
        Inl fault \<Rightarrow> Inl fault
      | Inr (GetoptDone, xgo) \<Rightarrow> Inr (None, srv)
      | Inr (GetoptChar opt, xgo) \<Rightarrow>
          (case parceld_option opt xgo srv of
             Inl fault \<Rightarrow> Inl fault
           | Inr (Some status, srv) \<Rightarrow> Inr (Some status, srv)
           | Inr (None, srv) \<Rightarrow> parceld_options argc argv xgo srv))"
  by pat_completeness auto

termination
proof (relation "measure (\<lambda>(argc, argv, xgo, srv). opts_left argv xgo)", goal_cases)
  case (2 argc argv xgo srv y gr xgo' opt z st srv')
  then have "opt \<noteq> 0x3f" "opt \<noteq> 0x3a" by (auto simp: parceld_option_def)
  then show ?case using 2 xgetopt_progress[of xgo argc argv _ opt xgo'] by auto
qed simp

declare parceld_options.simps [simp del]

text \<open>An interface: its address family, unless it has no address, and what \<^verbatim>\<open>getnameinfo\<close> makes of the
  address. What is printed is collected in \<open>out\<close>.\<close>

record ifaddr_t =
  ifa_family :: "int option"
  ifa_name :: "byte list option"

abbreviation (input) AF_INET :: int where "AF_INET \<equiv> 2"

definition locality :: "byte list \<Rightarrow> byte list \<Rightarrow> byte list \<Rightarrow> byte list" where
  "locality pre name suf = pre @ name @ ascii '':'' @ suf @ [10]"

fun print_interfaces :: "byte list \<Rightarrow> byte list \<Rightarrow> ifaddr_t list \<Rightarrow> byte list \<Rightarrow> bool \<times> byte list" where
  "print_interfaces pre suf [] out = (True, out)"
| "print_interfaces pre suf (node # nodes) out =
     (if ifa_family node \<noteq> Some AF_INET then print_interfaces pre suf nodes out
      else case ifa_name node of
             None \<Rightarrow> (False, out)
           | Some name \<Rightarrow> print_interfaces pre suf nodes (out @ locality pre name suf))"

definition xgetifaddrs :: "ifaddr_t list option \<Rightarrow> byte list option \<Rightarrow> byte list \<Rightarrow> byte list \<Rightarrow> byte list \<Rightarrow> int \<times> byte list" where
  "xgetifaddrs interfaces hostname pre suf out =
     (case interfaces of
        None \<Rightarrow>
          (case hostname of
             Some name \<Rightarrow> (0, out @ locality pre (name @ ascii ''.local'') suf)
           | None \<Rightarrow> (- 1, out))
      | Some nodes \<Rightarrow>
          (case print_interfaces pre suf nodes out of (ok, out) \<Rightarrow> (if ok then 0 else - 1, out)))"

definition bold :: "string \<Rightarrow> byte list" where
  "bold s = [27] @ ascii ''[1m'' @ ascii s @ [27] @ ascii ''[0m'' @ [10]"

definition daemon_header :: "byte list" where
  "daemon_header = [27] @ ascii ''[32;1m===  parceld 0.9.2  ==='' @ [27] @ ascii ''[0m'' @ [10] @
     bold ''Maximum active connections:'' @ ascii ''=> 1024'' @ [10]"

record parceld_env =
  gai_ret :: int
  bind_nodes :: "bind_env list"
  listen_ret :: int
  first_key :: "byte list option"
  interfaces :: "ifaddr_t list option"
  hostname :: "byte list option"
  http :: http_env

definition display_daemon_info :: "parceld_env \<Rightarrow> server_t \<Rightarrow> byte list \<Rightarrow> (bool \<times> byte list) c_result" where
  "display_daemon_info env ctx out =
     c_bind (c_string_arg (server_port ctx)) (\<lambda>service.
     let out = out @ daemon_header @ bold ''Locally accessible at:'';
         (ret, out) = xgetifaddrs (interfaces env) (hostname env) (ascii ''=> '') service out
     in if ret \<noteq> 0 then Inr (False, out)
        else
          let out = out @ bold ''Publicly accessible at:''
          in c_bind (xgetpublicip (http env) (replicate 16 0)) (\<lambda>(ok, ip).
             c_bind (if ok then c_string_arg ip else Inr (ascii ''error'')) (\<lambda>ip.
             Inr (True, out @ locality (ascii ''=> '') ip service @ bold ''Daemon started...''))))"

text \<open>The fields of \<^verbatim>\<open>server\<close> that the initialiser does not name are zero.\<close>

definition parceld_init :: "net_t \<Rightarrow> server_t" where
  "parceld_init ns =
     \<lparr>server_port = ascii ''2315'' @ [0, 0], max_queue = 32, server_key = replicate 32 0, fds = {}, nfds = 0,
      sfds = replicate FD_SETSIZE 0, cnt = 0, net = ns\<rparr>"

definition parceld_main :: "parceld_env \<Rightarrow> net_t \<Rightarrow> nat \<Rightarrow> argv_t \<Rightarrow> (server_t main_t \<times> byte list) c_result" where
  "parceld_main env ns argc argv =
     c_bind (parceld_options argc argv xgetopt_init (parceld_init ns)) (\<lambda>(status, srv).
     case status of
       Some status \<Rightarrow> Inr (Exit status, [])
     | None \<Rightarrow>
         c_bind (init_daemon (gai_ret env) (bind_nodes env) (listen_ret env) (first_key env) srv) (\<lambda>(ok, srv).
         if \<not> ok then Inr (Exit 1, [])
         else c_bind (display_daemon_info env srv []) (\<lambda>(ok, out).
              Inr (if ok then Run srv else Exit 1, out))))"

subsection \<open>Options with a separate value\<close>

lemma take_2: "take 2 (x # y # zs) = [x, y]" by simp

lemma xgetopt_separate:
  assumes "argv ! k = Some [0x2d, c, 0]" "argv ! Suc k = Some v" "Suc k < length argv" "argc \<noteq> 0"
    and "opt_index xgo = k \<or> opt_index xgo = 0 \<and> k = 1" "0 < k" "opt_position xgo = 0"
    and "alphanumeric c" "opt_rest optstr c = c # 0x3a # rest"
  shows "xgetopt xgo argc argv optstr =
    Inr (GetoptChar c, xgo\<lparr>opt_index := k + 2, opt_position := 0, opt_option := c, opt_arg := Some v\<rparr>)"
proof -
  have "c \<noteq> 0x2d" "c \<noteq> 0" using assms(8) by (auto simp: alphanumeric_def)
  moreover have "(if opt_index xgo = 0 then xgo\<lparr>opt_index := (if argc = 0 then 0 else 1)\<rparr> else xgo) = xgo\<lparr>opt_index := k\<rparr>"
    using assms(4-6) by auto
  ultimately show ?thesis
    using assms by (simp add: xgetopt_def mem_at_def Let_def)
qed

lemma opt_rest_values:
  "opt_rest (ascii ''lha:p:u:'' @ [0]) 0x61 = 0x61 # 0x3a # ascii ''p:u:'' @ [0]"
  "opt_rest (ascii ''lha:p:u:'' @ [0]) 0x70 = 0x70 # 0x3a # ascii ''u:'' @ [0]"
  "opt_rest (ascii ''lha:p:u:'' @ [0]) 0x75 = 0x75 # 0x3a # [0]"
  "opt_rest (ascii ''hvp:q:'' @ [0]) 0x70 = 0x70 # 0x3a # ascii ''q:'' @ [0]"
  "opt_rest (ascii ''hvp:q:'' @ [0]) 0x71 = 0x71 # 0x3a # [0]"
  "alphanumeric 0x61" "alphanumeric 0x70" "alphanumeric 0x75" "alphanumeric 0x71"
  by code_simp+

lemma parcel_options_step:
  "xgetopt xgo argc argv (ascii ''lha:p:u:'' @ [0]) = Inr (GetoptChar opt, xgo') \<Longrightarrow> parcel_option lg opt xgo' p = Inr (None, p') \<Longrightarrow>
   parcel_options lg argc argv xgo p = parcel_options lg argc argv xgo' p'"
  by (subst parcel_options.simps) simp

lemma arg_string_separate: "0 \<notin> set arg \<Longrightarrow> arg_string (xgo\<lparr>opt_arg := Some (arg @ [0])\<rparr>) = Inr arg"
  by (simp add: arg_string_def c_string_arg_def c_str_terminated)

definition parcel_argv :: "byte list \<Rightarrow> byte list \<Rightarrow> byte list \<Rightarrow> argv_t" where
  "parcel_argv a p u =
     [Some (ascii ''parcel'' @ [0]), Some [0x2d, 0x61, 0], Some (a @ [0]), Some [0x2d, 0x70, 0], Some (p @ [0]),
      Some [0x2d, 0x75, 0], Some (u @ [0]), None]"

lemma parcel_argv_nth:
  "parcel_argv a p u ! 1 = Some [0x2d, 0x61, 0]" "parcel_argv a p u ! Suc 1 = Some (a @ [0])"
  "parcel_argv a p u ! 3 = Some [0x2d, 0x70, 0]" "parcel_argv a p u ! Suc 3 = Some (p @ [0])"
  "parcel_argv a p u ! 5 = Some [0x2d, 0x75, 0]" "parcel_argv a p u ! Suc 5 = Some (u @ [0])"
  "parcel_argv a p u ! 7 = None" "length (parcel_argv a p u) = 8"
  by (simp_all add: parcel_argv_def eval_nat_numeral)

lemma parcel_options_argv:
  assumes "0 \<notin> set a \<union> set p \<union> set u" "length a < 32" "length u < 64" "length p \<le> 5" "0 \<le> strtol p" "strtol p \<le> 65535"
  shows "parcel_options lg 7 (parcel_argv a p u) xgetopt_init (parcel_init env) =
    Inr (None, \<lparr>address = a @ replicate (32 - length a) 0, port = p @ drop (length p) (ascii ''2315'' @ [0, 0]),
      client = (client (parcel_init env))\<lparr>username := u @ replicate (64 - length u) 0\<rparr>\<rparr>)"
proof -
  let ?argv = "parcel_argv a p u" and ?opts = "ascii ''lha:p:u:'' @ [0]"
  let ?x1 = "xgetopt_init\<lparr>opt_index := 1 + 2, opt_position := 0, opt_option := 0x61, opt_arg := Some (a @ [0])\<rparr>"
  let ?x2 = "?x1\<lparr>opt_index := 3 + 2, opt_position := 0, opt_option := 0x70, opt_arg := Some (p @ [0])\<rparr>"
  let ?x3 = "?x2\<lparr>opt_index := 5 + 2, opt_position := 0, opt_option := 0x75, opt_arg := Some (u @ [0])\<rparr>"
  let ?p1 = "(parcel_init env)\<lparr>address := a @ replicate (32 - length a) 0\<rparr>"
  let ?p2 = "?p1\<lparr>port := p @ drop (length p) (ascii ''2315'' @ [0, 0])\<rparr>"
  let ?p3 = "?p2\<lparr>client := (client ?p2)\<lparr>username := u @ replicate (64 - length u) 0\<rparr>\<rparr>"
  have x: "xgetopt xgetopt_init 7 ?argv ?opts = Inr (GetoptChar 0x61, ?x1)"
    "xgetopt ?x1 7 ?argv ?opts = Inr (GetoptChar 0x70, ?x2)" "xgetopt ?x2 7 ?argv ?opts = Inr (GetoptChar 0x75, ?x3)"
    by (rule xgetopt_separate; simp add: parcel_argv_nth[simplified] opt_rest_values xgetopt_init_def)+
  have d: "xgetopt ?x3 7 ?argv ?opts = Inr (GetoptDone, ?x3)"
    by (simp add: xgetopt_def mem_at_def parcel_argv_nth)
  then have last: "parcel_options lg 7 ?argv ?x3 p = Inr (None, p)" for p
    by (subst parcel_options.simps) simp
  have o: "parcel_option lg 0x61 ?x1 (parcel_init env) = Inr (None, ?p1)" "parcel_option lg 0x70 ?x2 ?p1 = Inr (None, ?p2)"
    "parcel_option lg 0x75 ?x3 ?p2 = Inr (None, ?p3)"
    using assms by (simp_all add: parcel_option_def arg_string_separate mem_write_def parcel_init_def ascii_def xstrrange_def Let_def)
  show ?thesis
    using parcel_options_step[OF x(1) o(1)] parcel_options_step[OF x(2) o(2)] parcel_options_step[OF x(3) o(3)] last[of ?p3]
    by (simp only: parcel_init_def parcel_t.simps client_t.simps)
qed

text \<open>The client as the declarations and the options of \<^verbatim>\<open>main\<close> leave it.\<close>

definition fresh_client :: "client_t \<Rightarrow> bool" where
  "fresh_client c \<longleftrightarrow> client_sized c \<and> \<not> conn_announced c \<and> keep_alive c"

lemma fresh_username:
  "fresh_client c \<Longrightarrow> length u = length (username c) \<Longrightarrow> fresh_client (c\<lparr>username := u\<rparr>)"
  by (simp add: fresh_client_def client_sized_def)

lemma parcel_option_fresh:
  assumes "parcel_option lg opt xgo p = Inr (st, p')" "fresh_client (client p)"
  shows "fresh_client (client p')"
  using assms unfolding parcel_option_def xgetlogin_def
  by (auto simp: fresh_username elim!: c_bind_InrE dest!: mem_store_length split: if_splits option.split_asm)

lemma parcel_options_fresh:
  assumes "parcel_options lg argc argv xgo p = Inr (st, p')" "fresh_client (client p)"
  shows "fresh_client (client p')"
  using assms
proof (induction lg argc argv xgo p rule: parcel_options.induct)
  case (1 lg argc argv xgo p)
  note unfold = parcel_options.simps[of lg argc argv xgo p]
  show ?case
  proof (cases "xgetopt xgo argc argv (ascii ''lha:p:u:'' @ [0])")
    case (Inr r)
    then obtain gr xgo' where x: "xgetopt xgo argc argv (ascii ''lha:p:u:'' @ [0]) = Inr (gr, xgo')" "r = (gr, xgo')" by (cases r) simp
    show ?thesis
    proof (cases gr)
      case (GetoptChar opt)
      then obtain st1 p1 where o: "parcel_option lg opt xgo' p = Inr (st1, p1)"
        using "1.prems"(1) x unfold by (cases "parcel_option lg opt xgo' p") auto
      have f: "fresh_client (client p1)" using parcel_option_fresh[OF o "1.prems"(2)] .
      show ?thesis
      proof (cases st1)
        case None
        then have "parcel_options lg argc argv xgo' p1 = Inr (st, p')" using "1.prems"(1) x GetoptChar o unfold by simp
        then show ?thesis using "1.IH"[OF x(1) refl GetoptChar o refl None] f by simp
      next
        case (Some n)
        then show ?thesis using "1.prems"(1) x GetoptChar o unfold f by simp
      qed
    qed (use "1.prems" x unfold in simp)
  qed (use "1.prems" unfold in simp)
qed

lemma two_party_client_key: "two_party_client r c = Inr (Some key, c') \<Longrightarrow> length key = 32"
  unfolding two_party_client_def Let_def
  by (auto elim!: c_bind_InrE dest!: mem_read_length split: if_splits option.split_asm prod.split_asm)

lemma connect_server_fresh:
  assumes "connect_server ret nodes r c = Inr (True, c')" "fresh_client c"
  shows "fresh_client c'"
  using assms unfolding connect_server_def Let_def
  by (auto simp: fresh_client_def client_sized_def elim!: c_bind_InrE dest!: two_party_client_key split: if_splits option.split_asm)

lemma prompt_args_length:
  "prompt_args x y a u = Inr (a', u') \<Longrightarrow> length u' = length u"
  unfolding prompt_args_def by (auto elim!: c_bind_InrE dest!: mem_store_length split: if_splits)

lemma parcel_main_fresh:
  assumes "parcel_main env argc argv = Inr (Run ctx)"
  shows "fresh_client ctx"
proof -
  obtain p where p: "parcel_options (login env) argc argv xgetopt_init (parcel_init env) = Inr (None, p)"
    and c: "\<exists>p' ret nodes. (p' = p \<or> (\<exists>a u. prompt_args (address_in env) (username_in env) (address p) (username (client p)) = Inr (a, u) \<and>
        p' = p\<lparr>address := a, client := (client p)\<lparr>username := u\<rparr>\<rparr>)) \<and> connect_server ret nodes (kx_secret env) (client p') = Inr (True, ctx)"
    using assms unfolding parcel_main_def Let_def
    by (fastforce elim!: c_bind_InrE split: option.split_asm if_splits prod.split_asm)
  have "fresh_client (client (parcel_init env))" by (simp add: fresh_client_def parcel_init_def client_sized_def)
  then have f: "fresh_client (client p)" by (rule parcel_options_fresh[OF p])
  then have "fresh_client ((client p)\<lparr>username := u\<rparr>)" if "prompt_args x y a (username (client p)) = Inr (a', u)" for x y a a' u
    using prompt_args_length[OF that] by (rule fresh_username)
  then have "fresh_client (client p')" if "p' = p \<or> (\<exists>a u. prompt_args (address_in env) (username_in env) (address p) (username (client p)) = Inr (a, u) \<and>
        p' = p\<lparr>address := a, client := (client p)\<lparr>username := u\<rparr>\<rparr>)" for p'
    using that f by (elim disjE exE conjE) simp_all
  then show ?thesis using c connect_server_fresh by blast
qed

subsection \<open>Properties\<close>

definition example_parcel_env :: "recv_event list \<Rightarrow> parcel_env" where
  "example_parcel_env rx = \<lparr>login = None, address_in = ([], 0), username_in = ([], 0),
     resolve = \<lambda>ip service. (0, [\<lparr>node_socket = 3, node_connect = 0, node_close = 0\<rparr>]), kx_secret = Some (replicate 32 1),
     server = \<lparr>conn_rx = rx, conn_tx = \<lparr>plan = [], sent = []\<rparr>\<rparr>, home_files = Map.empty\<rparr>"

text \<open>C11: the options of the client. Started with \<^verbatim>\<open>-a\<close>, \<^verbatim>\<open>-p\<close> and \<^verbatim>\<open>-u\<close>, the client connects to that address under that
  name; the port it asks for is the value of \<^verbatim>\<open>-p\<close> written over the default \<^verbatim>\<open>2315\<close>, so that a value of less than four digits
  keeps the end of the default.\<close>

theorem parcel_main_options:
  assumes "0 \<notin> set a \<union> set p \<union> set u" "length a < 32" "length u < 64" "length p \<le> 5" "0 \<le> strtol p" "strtol p \<le> 65535"
  shows "parcel_main env 7 (parcel_argv a p u) =
    (case resolve env a (p @ drop (length p) (ascii ''2315'')) of (ret, nodes) \<Rightarrow>
       c_bind (connect_server ret nodes (kx_secret env) ((client (parcel_init env))\<lparr>username := u @ replicate (64 - length u) 0\<rparr>))
         (\<lambda>(ok, ctx). Inr (if ok then Run ctx else Exit (- 1))))"
proof -
  have "c_string_arg (a @ replicate (32 - length a) 0) = Inr a"
    using assms(1,2) by (auto simp: c_string_arg_def c_str_def takeWhile_append)
  moreover have "c_string_arg (p @ drop (length p) (ascii ''2315'' @ [0, 0])) = Inr (p @ drop (length p) (ascii ''2315''))"
  proof -
    have "drop (length p) (ascii ''2315'' @ [0, 0]) = drop (length p) (ascii ''2315'') @ 0 # replicate (5 - max 4 (length p)) 0"
      using assms(4) by (auto simp: ascii_def le_Suc_eq eval_nat_numeral)
    moreover have "0 \<notin> set (p @ drop (length p) (ascii ''2315''))"
      using assms(1) by (auto simp: ascii_def dest: in_set_dropD)
    ultimately show ?thesis by (simp add: c_string_arg_def c_str_terminated flip: append_assoc del: append_assoc)
  qed
  ultimately show ?thesis
    using parcel_options_argv[OF assms] by (simp add: parcel_main_def Let_def case_prod_unfold)
qed

theorem parcel_main_options_witness:
  "parcel_main ((example_parcel_env [])\<lparr>resolve := \<lambda>ip service. if service = ascii ''8015'' then (2, []) else (0, [])\<rparr>) 7
     (parcel_argv (ascii ''localhost'') (ascii ''80'') (ascii ''ada'')) = Inr (Exit (- 1))"
  using parcel_main_options[of "ascii ''localhost''" "ascii ''80''" "ascii ''ada''"
      "(example_parcel_env [])\<lparr>resolve := \<lambda>ip service. if service = ascii ''8015'' then (2, []) else (0, [])\<rparr>"]
  by (simp add: ascii_def strtol_def c_str_def is_digit_def connect_server_def)

text \<open>A connection to a daemon that chose the same secret.\<close>

lemma example_connects:
  "\<exists>rx ctx. parcel_main (example_parcel_env rx) 7 (parcel_argv (ascii ''localhost'') (ascii ''2315'') (ascii ''ada'')) = Inr (Run ctx)"
proof -
  let ?r = "Some (replicate 32 (1 :: byte))" and ?tx = "\<lparr>plan = [], sent = []\<rparr>" and ?key = "replicate 32 (9 :: byte)"
  let ?pub = "x25519 (point_d ?r) basepoint"
  let ?sc = "\<lparr>conn_rx = [Segment (ke_bytes KEY_CLIENT_PUBLIC ?pub)], conn_tx = ?tx\<rparr>"
  obtain w sealed pad where s: "unat (14 + wire_get_length w) = 14 + length (wire_bytes sealed)" "wf_wire sealed"
    "decrypt_wire (Some sealed) (wire_get_length w) (x25519 (point_d ?r) ?pub) None = Inr (True, w\<lparr>auth := auth sealed\<rparr>)"
    "wire_get_type w = wire_type_value TYPE_SESSION_KEY" "wire_data w = ?key @ pad"
    using two_party_server_sends[of ?sc ?pub "[]" "replicate 16 7" ?key _ ?r] by (auto simp: sends_ok_def length_x25519)
  define rx where "rx = [Segment (ke_bytes KEY_SERVER_PUBLIC ?pub @ ascii ''parcel'' @ wire_unpack64 (14 + wire_get_length w) @ wire_bytes sealed)]"
  obtain cc' where cc': "two_party_client ?r \<lparr>conn_rx = rx, conn_tx = ?tx\<rparr> = Inr (Some ?key, cc')"
    using two_party_client_receives[of "\<lparr>conn_rx = rx, conn_tx = ?tx\<rparr>" ?pub ?key "14 + wire_get_length w" sealed "[]" ?r "w\<lparr>auth := auth sealed\<rparr>" pad]
      s by (auto simp: sends_ok_def length_x25519 rx_def wire_get_type_def)
  have p: "0 \<notin> set (ascii ''localhost'') \<union> set (ascii ''2315'') \<union> set (ascii ''ada'')" "length (ascii ''localhost'') < 32"
    "length (ascii ''ada'') < 64" "length (ascii ''2315'') \<le> 5" "0 \<le> strtol (ascii ''2315'')" "strtol (ascii ''2315'') \<le> 65535"
    by code_simp+
  define e where "e = example_parcel_env rx"
  have e: "conn (client (parcel_init e)) = \<lparr>conn_rx = rx, conn_tx = ?tx\<rparr>" "kx_secret e = ?r"
    "resolve e ip service = (0, [\<lparr>node_socket = 3, node_connect = 0, node_close = 0\<rparr>])" for ip service
    by (auto simp: e_def parcel_init_def example_parcel_env_def)
  have s: "c_string_arg (ascii ''localhost'' @ replicate 23 0) = Inr (ascii ''localhost'')"
    "c_string_arg (ascii ''2315'' @ [0, 0]) = Inr (ascii ''2315'')" by code_simp+
  have "parcel_options (login e) 7 (parcel_argv (ascii ''localhost'') (ascii ''2315'') (ascii ''ada'')) xgetopt_init (parcel_init e) =
     Inr (None, \<lparr>address = ascii ''localhost'' @ replicate 23 0, port = ascii ''2315'' @ [0, 0],
       client = (client (parcel_init e))\<lparr>username := ascii ''ada'' @ replicate 61 0\<rparr>\<rparr>)"
    using parcel_options_argv[OF p] by (simp add: ascii_def)
  then have "\<exists>ctx. parcel_main e 7 (parcel_argv (ascii ''localhost'') (ascii ''2315'') (ascii ''ada'')) = Inr (Run ctx)"
    using cc' e s by (simp add: parcel_main_def connect_server_def xstartup_def)
  then show ?thesis unfolding e_def by blast
qed

text \<open>The lists that stand for the arrays of \<^verbatim>\<open>client_t\<close> (the name, the two keys, the last sender) have the
  declared lengths in every state that is reached.\<close>

lemma client_types_kept:
  assumes "parcel_main env argc argv = Inr (Run ctx)" "client_runs (Live ctx Announcing Receiving) (Live ctx' s r)"
  shows "client_sized ctx'"
  using sized.run_keeps[OF assms(2)] parcel_main_fresh[OF assms(1)] by (simp add: fresh_client_def)

text \<open>C28: a port written with leading zeros or blanks, within range but longer than six characters, is copied over
  the end of \<^verbatim>\<open>port\<close>, whatever follows on the command line.\<close>

theorem port_option_overflows:
  assumes "0 \<notin> set p" "0 \<le> strtol p" "strtol p \<le> 65535" "6 < length p" "argc \<noteq> 0"
  shows "parcel_main env argc (Some prog # Some [0x2d, 0x70, 0] # Some (p @ [0]) # args) = Inl OutOfBounds"
proof -
  let ?argv = "Some prog # Some [0x2d, 0x70, 0] # Some (p @ [0]) # args" and ?opts = "ascii ''lha:p:u:'' @ [0]"
  have "xgetopt xgetopt_init argc ?argv ?opts =
      Inr (GetoptChar 0x70, xgetopt_init\<lparr>opt_index := 1 + 2, opt_position := 0, opt_option := 0x70, opt_arg := Some (p @ [0])\<rparr>)"
    by (rule xgetopt_separate) (use assms(5) in \<open>simp_all add: opt_rest_values xgetopt_init_def\<close>)
  moreover have "length (port (parcel_init env)) = 6" by (simp add: parcel_init_def ascii_def)
  ultimately have "parcel_options lg argc ?argv xgetopt_init (parcel_init env) = Inl OutOfBounds" for lg
    using assms(1-4) by (subst parcel_options.simps) (simp add: parcel_option_def arg_string_separate xstrrange_def mem_store_def Let_def)
  then show ?thesis by (simp add: parcel_main_def)
qed

theorem port_option_overflows_witness:
  "parcel_main (example_parcel_env []) 3 [Some (ascii ''parcel'' @ [0]), Some [0x2d, 0x70, 0], Some (ascii ''0002315'' @ [0]), None] = Inl OutOfBounds"
proof -
  have "0 \<notin> set (ascii ''0002315'')" "0 \<le> strtol (ascii ''0002315'')" "strtol (ascii ''0002315'') \<le> 65535" "6 < length (ascii ''0002315'')"
    by code_simp+
  from port_option_overflows[OF this, of 3] show ?thesis by simp
qed

text \<open>The daemon starts its loop with the listening socket and no client.\<close>

lemma parceld_main_table:
  assumes "parceld_main env ns argc argv = Inr (Run srv, out)" "\<forall>node \<in> set (bind_nodes env). socket_ret node \<noteq> 0"
  shows "table (sfds srv ! 0) [] srv"
  using assms init_daemon_table unfolding parceld_main_def
  by (fastforce elim!: c_bind_InrE split: option.split_asm if_splits)

end
