(* ===== verification/Printing.thy ===== *)
theory Printing
  imports Client Slice
begin

text \<open>
  What is printed and logged: \<^verbatim>\<open>xwarn\<close>, \<^verbatim>\<open>xalert\<close>, \<^verbatim>\<open>xprintf\<close>, \<^verbatim>\<open>xmemprint\<close> and \<^verbatim>\<open>xhexdump\<close> of \<^verbatim>\<open>common/xutils.c\<close>, the
  logger of \<^verbatim>\<open>common/log.c\<close>, and the commands that only print. Output is the list of bytes written; a
  format with its arguments is the bytes it makes.

  The last section has the directories of \<^verbatim>\<open>xget_dir\<close>.
\<close>

subsection \<open>Colours\<close>

definition esc :: "string \<Rightarrow> byte list" where
  "esc s = 27 # ascii s"

definition xwarn :: "byte list \<Rightarrow> byte list" where
  "xwarn msg = esc ''[0;33m'' @ msg @ esc ''[0m''"

definition xalert :: "byte list \<Rightarrow> byte list" where
  "xalert msg = esc ''[0;31m'' @ msg @ esc ''[0m''"

text \<open>\<^verbatim>\<open>%c\<close> writes a NUL for a colour or style that is not given.\<close>

definition xprintf :: "byte \<Rightarrow> byte \<Rightarrow> byte list \<Rightarrow> byte list" where
  "xprintf color style msg =
     esc ''['' @ [if color \<noteq> 0 then 0x33 else 0, if color \<noteq> 0 then color else 0,
       if style \<noteq> 0 then 0x3b else 0, if style \<noteq> 0 then style else 0] @ ascii ''m'' @ msg @ esc ''[0m''"

subsection \<open>Memory as text\<close>

definition hex_digits :: "byte list" where
  "hex_digits = ascii ''0123456789abcdef''"

definition hex_byte :: "byte \<Rightarrow> byte list" where
  "hex_byte b = [hex_digits ! unat (drop_bit 4 b), hex_digits ! unat (b AND 15)]"

text \<open>Four bytes into the nine characters of \<^verbatim>\<open>hex\<close>; the last of them is the separator.\<close>

definition memprint_word :: "byte list \<Rightarrow> nat \<Rightarrow> nat \<Rightarrow> byte list c_result" where
  "memprint_word data len i =
     c_bind (mem_read data i 4) (\<lambda>bytes.
       let hex = concat (map hex_byte bytes) @ [0x2d]
       in Inr (if len \<le> i + 4 then hex[8 := 10] else hex))"

function memprint_loop :: "byte list \<Rightarrow> nat \<Rightarrow> nat \<Rightarrow> byte list \<Rightarrow> byte list c_result" where
  "memprint_loop data len i out =
     (if i < len then c_bind (memprint_word data len i) (\<lambda>hex. memprint_loop data len (i + 4) (out @ hex)) else Inr out)"
  by auto
termination by (relation "measure (\<lambda>(data, len, i, out). len - i)") auto

declare memprint_loop.simps [simp del]

definition xmemprint :: "byte list \<Rightarrow> nat \<Rightarrow> byte list \<Rightarrow> byte list c_result" where
  "xmemprint src len out = memprint_loop src len 0 out"

text \<open>The template of a row, the places of its bytes in hexadecimal and as characters, and the characters.\<close>

definition hexdump_row :: "byte list" where
  "hexdump_row = ascii ''--------  -- -- -- -- -- -- -- --  -- -- -- -- -- -- -- --  |----------------|''"

definition hexdump_map :: "nat list" where
  "hexdump_map = [10, 61, 13, 62, 16, 63, 19, 64, 22, 65, 25, 66, 28, 67, 31, 68,
     35, 69, 38, 70, 41, 71, 44, 72, 47, 73, 50, 74, 53, 75, 56, 76]"

definition ascii_table :: "byte list" where
  "ascii_table = replicate 32 0x2e @ map of_nat [0x20..<0x7f] @ replicate 129 0x2e"

definition hexdump_offset :: "nat \<Rightarrow> byte list \<Rightarrow> byte list" where
  "hexdump_offset offset row =
     fold (\<lambda>i row. row[i := hex_digits ! (drop_bit (28 - 4 * i) offset mod 16)]) [0..<8] row"

definition hexdump_bytes :: "byte list \<Rightarrow> byte list \<Rightarrow> byte list" where
  "hexdump_bytes line row =
     fold (\<lambda>i row. row[hexdump_map ! (2 * i) := hex_digits ! unat (drop_bit 4 (line ! i)),
       hexdump_map ! (2 * i) + 1 := hex_digits ! unat (line ! i AND 15),
       hexdump_map ! (2 * i + 1) := ascii_table ! unat (line ! i)]) [0..<16] row"

definition hexdump_clear :: "nat \<Rightarrow> byte list \<Rightarrow> byte list" where
  "hexdump_clear line_len row =
     fold (\<lambda>i row. row[hexdump_map ! (2 * i) := 0x20, hexdump_map ! (2 * i) + 1 := 0x20,
       hexdump_map ! (2 * i + 1) := 0x20]) [line_len..<16] row"

text \<open>\<open>offset\<close> never passes \<open>len\<close>: the loop ends at the first line of less than 16 bytes.\<close>

function hexdump_loop :: "byte list \<Rightarrow> nat \<Rightarrow> nat \<Rightarrow> byte list \<Rightarrow> byte list \<Rightarrow> byte list c_result" where
  "hexdump_loop mem len offset row out =
     (let line_len = (if 16 < len - offset then 16 else len - offset)
      in if line_len = 0 then Inr out
         else c_bind (mem_read mem offset line_len) (\<lambda>bytes.
           let line = bytes @ replicate (16 - line_len) 0;
               row = hexdump_clear line_len (hexdump_bytes line (hexdump_offset offset row));
               out = out @ esc ''[33m'' @ row @ esc ''[0m'' @ [10]
           in if line_len \<noteq> 16 then Inr out else hexdump_loop mem len (offset + 16) row out))"
  by auto
termination by (relation "measure (\<lambda>(mem, len, offset, row, out). len - offset)") (auto split: if_splits)

declare hexdump_loop.simps [simp del]

definition xhexdump :: "byte list \<Rightarrow> nat \<Rightarrow> byte list \<Rightarrow> byte list c_result" where
  "xhexdump src len out = hexdump_loop src len 0 hexdump_row out"

subsection \<open>Commands that print\<close>

definition cmd_print_enc_info :: "client_t \<Rightarrow> byte list \<Rightarrow> byte list c_result" where
  "cmd_print_enc_info ctx out =
     (let (session_key, ctrl_key) = client_get_keys ctx
      in c_bind (xmemprint session_key KEY_LEN (out @ ascii ''Session Key: '')) (\<lambda>out.
         xmemprint ctrl_key KEY_LEN (out @ ascii ''Control Key: '')))"

definition cmd_version :: "byte list \<Rightarrow> byte list" where
  "cmd_version out = out @ xprintf 0 0x31 (ascii ''parcel 0.9.2'' @ [10])"

definition cmd_not_found :: "byte list \<Rightarrow> byte list \<Rightarrow> byte list" where
  "cmd_not_found message out = out @ xwarn (ascii ''Unrecognized command, '' @ [0x22] @ message @ [0x22, 10])"

definition cmd_list :: "byte list \<Rightarrow> byte list" where
  "cmd_list out = out @ concat (map (\<lambda>s. ascii s @ [10])
     [''parcel commands:'',
      ''  /list         list available commands'',
      ''  /q            exit the server and close parcel'',
      ''  /username     change username'',
      ''  /encinfo      display current encryption parameters'',
      ''  /file         send a file'',
      ''  /clear        clear the screen'',
      ''  /version      print build version''])"

definition cmd_ambiguous :: "byte list \<Rightarrow> byte list" where
  "cmd_ambiguous out = cmd_list (out @ xwarn (ascii ''Ambiguous command entered'' @ [10]))"

subsection \<open>The log\<close>

datatype loglvl_t = LOG_TRACE | LOG_DEBUG | LOG_INFO | LOG_WARN | LOG_ERROR | LOG_FATAL

primrec loglvl_value :: "loglvl_t \<Rightarrow> nat" where
  "loglvl_value LOG_TRACE = 0"
| "loglvl_value LOG_DEBUG = 1"
| "loglvl_value LOG_INFO = 2"
| "loglvl_value LOG_WARN = 3"
| "loglvl_value LOG_ERROR = 4"
| "loglvl_value LOG_FATAL = 5"

record log_t =
  log_level :: loglvl_t
  quiet :: bool

definition lvls :: "string list" where
  "lvls = [''TRACE'', ''DEBUG'', ''INFO'', ''WARN'', ''ERROR'', ''FATAL'']"

definition level_colors :: "string list" where
  "level_colors = [''[94m'', ''[36m'', ''[32m'', ''[33m'', ''[31m'', ''[35m'']"

record logctx_t =
  log_msg :: "byte list"
  log_file :: "byte list"
  log_time :: "byte list"
  log_line :: nat
  log_lvl :: loglvl_t

text \<open>\<^verbatim>\<open>%-5s\<close> fills the name of the level up to five characters; \<open>log_time\<close> is what \<^verbatim>\<open>strftime\<close> makes.\<close>

definition stdout_callback :: "logctx_t \<Rightarrow> byte list \<Rightarrow> byte list" where
  "stdout_callback ev out =
     (let name = ascii (lvls ! loglvl_value (log_lvl ev))
      in out @ log_time ev @ [0x20] @ esc (level_colors ! loglvl_value (log_lvl ev)) @ name @ replicate (5 - length name) 0x20 @
         esc ''[0m'' @ [0x20] @ esc ''[90m'' @ log_file ev @ ascii '':'' @ ascii (decimal (log_line ev)) @ ascii '':'' @ esc ''[0m'' @ [0x20] @
         log_msg ev @ [10])"

definition log_set_loglvl :: "loglvl_t \<Rightarrow> log_t \<Rightarrow> log_t" where
  "log_set_loglvl lvl lg = lg\<lparr>log_level := lvl\<rparr>"

definition log_init :: "loglvl_t \<Rightarrow> log_t \<Rightarrow> log_t" where
  "log_init lvl lg = lg\<lparr>log_level := lvl\<rparr>"

text \<open>\<^verbatim>\<open>xbasename\<close> of this file is \<^verbatim>\<open>xconstbasename\<close> of \<^verbatim>\<open>xutils.c\<close>.\<close>

definition log_write :: "log_t \<Rightarrow> loglvl_t \<Rightarrow> byte list \<Rightarrow> nat \<Rightarrow> byte list \<Rightarrow> byte list \<Rightarrow> byte list \<Rightarrow> byte list" where
  "log_write lg level file line time msg out =
     (let ev = \<lparr>log_msg = msg, log_file = c_str (xconstbasename file), log_time = time, log_line = line, log_lvl = level\<rparr>
      in if \<not> quiet lg \<and> loglvl_value (log_level lg) \<le> loglvl_value level then stdout_callback ev out else out)"

subsection \<open>Directories\<close>

text \<open>\<open>dirs\<close> says which paths are directories, \<open>can_make\<close> which ones \<^verbatim>\<open>mkdir\<close> creates.\<close>

definition xgethome :: "byte list option \<Rightarrow> byte list option c_result" where
  "xgethome home_dir =
     (case home_dir of
        None \<Rightarrow> Inr None
      | Some home_dir \<Rightarrow> c_bind (mem_at home_dir 0) (\<lambda>c. Inr (if c \<noteq> 0x2f then None else Some home_dir)))"

fun mkdirs_loop ::
  "(byte list \<Rightarrow> bool) \<Rightarrow> slice_t \<Rightarrow> (byte list \<Rightarrow> bool) \<Rightarrow> byte list list \<Rightarrow> (bool \<times> (byte list \<Rightarrow> bool)) c_result" where
  "mkdirs_loop can_make s dirs [] = Inr (True, dirs)"
| "mkdirs_loop can_make s dirs (str # strs) =
     c_bind (slice_append s str (strlen str)) (\<lambda>(_, s).
     c_bind (c_string_arg (slice_data s)) (\<lambda>path.
     if dirs path then mkdirs_loop can_make s dirs strs
     else if \<not> can_make path then Inr (False, dirs)
     else mkdirs_loop can_make s (dirs(path := True)) strs))"

definition xmkdirs ::
  "(byte list \<Rightarrow> bool) \<Rightarrow> (byte list \<Rightarrow> bool) \<Rightarrow> byte list list \<Rightarrow> (bool \<times> (byte list \<Rightarrow> bool)) c_result" where
  "xmkdirs can_make dirs strs = mkdirs_loop can_make (STATIC_SLICE (replicate 4096 0)) dirs strs"

definition xget_dir ::
  "(byte list \<Rightarrow> bool) \<Rightarrow> byte list option \<Rightarrow> byte list \<Rightarrow> (byte list \<Rightarrow> bool) \<Rightarrow> (byte list option \<times> (byte list \<Rightarrow> bool)) c_result" where
  "xget_dir can_make home_dir file dirs =
     c_bind (xgethome home_dir) (\<lambda>home_dir.
     case home_dir of
       None \<Rightarrow> Inr (None, dirs)
     | Some home_dir \<Rightarrow>
         let parcel_dir = ascii ''/parcel/'' @ [0]; files_dir = ascii ''files/'' @ [0]
         in c_bind (xmkdirs can_make dirs [home_dir, parcel_dir, files_dir]) (\<lambda>(made, dirs).
            if made then Inr (None, dirs)
            else c_bind (xstrcat [home_dir, parcel_dir, files_dir, file]) (\<lambda>path. Inr (Some path, dirs))))"

text \<open>\<^verbatim>\<open>xget_dir\<close> returns no path when the directories are there, only when one could not be made.\<close>

lemma xget_dir_inverted:
  assumes "\<forall>path. can_make path \<or> dirs path" "xget_dir can_make home_dir file dirs = Inr (r, dirs')"
  shows "r = None"
proof -
  have "made" if "mkdirs_loop can_make s ds strs = Inr (made, ds')" "\<forall>path. can_make path \<or> ds path" for s ds strs made ds'
    using that
  proof (induction strs arbitrary: s ds)
    case (Cons str strs)
    then obtain s' path where "mkdirs_loop can_make s' (if ds path then ds else ds(path := True)) strs = Inr (made, ds')"
      by (fastforce elim!: c_bind_InrE split: if_splits)
    moreover have "\<forall>q. can_make q \<or> (if ds path then ds else ds(path := True)) q" using Cons.prems(2) by auto
    ultimately show ?case by (rule Cons.IH)
  qed simp
  then have "made" if "xmkdirs can_make dirs strs = Inr (made, ds')" for strs made ds'
    using that assms(1) unfolding xmkdirs_def by blast
  then show ?thesis
    using assms(2) by (auto simp: xget_dir_def Let_def elim!: c_bind_InrE split: option.split_asm if_splits)
qed

subsection \<open>Reading what is printed\<close>

definition hex_value :: "byte \<Rightarrow> byte" where
  "hex_value c = (if c \<le> 0x39 then c - 0x30 else c - 0x57)"

fun unhex :: "byte list \<Rightarrow> byte list" where
  "unhex (a # b # cs) = (if a = 0x2d \<or> a = 10 then unhex (b # cs) else (16 * hex_value a + hex_value b) # unhex cs)"
| "unhex cs = []"

lemma unhex_byte: "unhex (hex_byte b @ cs) = b # unhex cs"
proof -
  have "\<forall>n \<in> set [0..<256]. let b = of_nat n :: byte; h = hex_byte b in
      h ! 0 \<noteq> 0x2d \<and> h ! 0 \<noteq> 10 \<and> 16 * hex_value (h ! 0) + hex_value (h ! 1) = b"
    by code_simp
  moreover have "unat b \<in> set [0..<256]" using unsigned_less[of b] by simp
  ultimately have "let h = hex_byte b in h ! 0 \<noteq> 0x2d \<and> h ! 0 \<noteq> 10 \<and> 16 * hex_value (h ! 0) + hex_value (h ! 1) = b"
    by (metis of_nat_unat ucast_id)
  then show ?thesis by (simp add: hex_byte_def Let_def)
qed

lemma unhex_bytes: "unhex (concat (map hex_byte bs) @ cs) = bs @ unhex cs"
  by (induction bs) (simp_all add: unhex_byte)

lemma unhex_separator: "c = 0x2d \<or> c = 10 \<Longrightarrow> unhex (c # cs) = unhex cs"
  by (cases cs) auto

lemma length_hex: "length (concat (map hex_byte bs)) = 2 * length bs"
  by (induction bs) (simp_all add: hex_byte_def)

lemma memprint_word_ok:
  assumes "i + 4 \<le> length data"
  shows "\<exists>w. memprint_word data len i = Inr w \<and> (\<forall>cs. unhex (w @ cs) = take 4 (drop i data) @ unhex cs)"
  using assms length_hex[of "take 4 (drop i data)"]
  by (simp add: memprint_word_def mem_read_def Let_def list_update_append unhex_bytes unhex_separator)

lemma memprint_loop_ok:
  assumes "len = i + 4 * k" "len \<le> length data"
  shows "\<exists>t. memprint_loop data len i out = Inr (out @ t) \<and> unhex t = take (4 * k) (drop i data)"
  using assms
proof (induction k arbitrary: i out)
  case 0
  then show ?case by (simp add: memprint_loop.simps)
next
  case (Suc k)
  obtain w where w: "memprint_word data len i = Inr w" "\<And>cs. unhex (w @ cs) = take 4 (drop i data) @ unhex cs"
    using memprint_word_ok[of i data len] Suc.prems by auto
  obtain t where t: "memprint_loop data len (i + 4) (out @ w) = Inr ((out @ w) @ t)" "unhex t = take (4 * k) (drop (i + 4) data)"
    using Suc.IH[of "i + 4" "out @ w"] Suc.prems by auto
  have "memprint_loop data len i out = Inr (out @ w @ t)"
    using w(1) t(1) Suc.prems(1) by (subst memprint_loop.simps) simp
  moreover have "unhex (w @ t) = take (4 * Suc k) (drop i data)"
    unfolding w(2) t(2) using take_add[of 4 "4 * k" "drop i data"] by (simp add: add.commute)
  ultimately show ?case by blast
qed

text \<open>A length that is no multiple of four reads beyond the memory.\<close>

lemma xmemprint_overread:
  assumes "\<not> 4 dvd length data"
  shows "xmemprint data (length data) out = Inl OutOfBounds"
proof -
  have "memprint_loop data (length data) i out = Inl OutOfBounds" if "4 dvd i" "i < length data" for i out
    using that
  proof (induction "length data - i" arbitrary: i out rule: less_induct)
    case less
    show ?case
    proof (cases "i + 4 \<le> length data")
      case True
      then obtain w where "memprint_word data (length data) i = Inr w" using memprint_word_ok by blast
      moreover have "i + 4 \<noteq> length data" using assms less.prems(1) by (metis dvd_add_triv_right_iff)
      ultimately show ?thesis using less True by (subst memprint_loop.simps) simp
    next
      case False
      then show ?thesis using less.prems by (subst memprint_loop.simps) (simp add: memprint_word_def mem_read_def)
    qed
  qed
  then show ?thesis using assms by (cases data) (simp_all add: xmemprint_def)
qed

text \<open>The rows of a dump: one for every started line, all of the template's length.\<close>

lemma length_hexdump: "length (hexdump_clear n (hexdump_bytes line (hexdump_offset k row))) = length row"
proof -
  have f: "length (fold f xs row) = length row" if "\<And>i r. length (f i r) = length r" for f :: "nat \<Rightarrow> byte list \<Rightarrow> byte list" and xs row
    by (induction xs arbitrary: row) (simp_all add: that)
  show ?thesis unfolding hexdump_clear_def hexdump_bytes_def hexdump_offset_def by (subst f, simp)+ simp
qed

lemma xhexdump_rows:
  assumes "len \<le> length mem"
  shows "\<exists>out'. xhexdump mem len out = Inr (out @ out') \<and> length out' = 88 * ((len + 15) div 16)"
proof -
  have "\<exists>out'. hexdump_loop mem len offset row out = Inr (out @ out') \<and> length out' = 88 * ((len - offset + 15) div 16)"
    if "offset \<le> len" "length row = 78" for offset row out
    using that
  proof (induction "len - offset" arbitrary: offset row out rule: less_induct)
    case less
    show ?case
    proof (cases "16 < len - offset")
      case True
      let ?row = "hexdump_clear 16 (hexdump_bytes (take 16 (drop offset mem)) (hexdump_offset offset row))"
      let ?out = "esc ''[33m'' @ ?row @ esc ''[0m'' @ [10]"
      have "hexdump_loop mem len offset row out = hexdump_loop mem len (offset + 16) ?row (out @ ?out)"
        using True assms by (subst hexdump_loop.simps) (auto simp: mem_read_def Let_def)
      moreover obtain out' where "hexdump_loop mem len (offset + 16) ?row (out @ ?out) = Inr ((out @ ?out) @ out')"
        "length out' = 88 * ((len - (offset + 16) + 15) div 16)"
      proof -
        have "len - (offset + 16) < len - offset" "offset + 16 \<le> len" "length ?row = 78"
          using True less.prems(2) by (auto simp: length_hexdump)
        from less.hyps[OF this] show ?thesis using that by blast
      qed
      moreover have "(len - offset + 15) div 16 = Suc ((len - (offset + 16) + 15) div 16)"
        using True div_add_self2[of 16 "len - (offset + 16) + 15"] by (simp add: algebra_simps)
      moreover have "length ?out = 88" using less.prems(2) by (simp add: length_hexdump esc_def ascii_def)
      ultimately show ?thesis by (intro exI[of _ "?out @ out'"] conjI) (simp_all only: append_assoc length_append mult_Suc_right)
    next
      case False
      let ?n = "len - offset"
      let ?row = "hexdump_clear ?n (hexdump_bytes (take ?n (drop offset mem) @ replicate (16 - ?n) 0) (hexdump_offset offset row))"
      have "hexdump_loop mem len (offset + 16) r o' = Inr o'" for r o' using False by (subst hexdump_loop.simps) simp
      then have "hexdump_loop mem len offset row out = Inr (if ?n = 0 then out else out @ esc ''[33m'' @ ?row @ esc ''[0m'' @ [10])"
        using False assms less.prems(1) by (subst hexdump_loop.simps) (auto simp: mem_read_def Let_def)
      moreover have "(?n + 15) div 16 = (if ?n = 0 then 0 else 1)" using False by auto
      ultimately show ?thesis using less.prems(2) by (auto simp: length_hexdump esc_def ascii_def)
    qed
  qed
  then show ?thesis by (force simp: xhexdump_def hexdump_row_def ascii_def)
qed

text \<open>A line is written exactly for the levels from the threshold up; \<^verbatim>\<open>main_thread\<close> sets it to the lowest.\<close>

lemma log_write_threshold:
  "log_write lg level file line time msg out \<noteq> out \<longleftrightarrow> \<not> quiet lg \<and> loglvl_value (log_level lg) \<le> loglvl_value level"
  by (simp add: log_write_def stdout_callback_def Let_def)

lemma log_trace_all:
  "\<not> quiet lg \<Longrightarrow> log_write (log_set_loglvl LOG_TRACE lg) level file line time msg out \<noteq> out"
  by (simp add: log_write_threshold log_set_loglvl_def)

subsection \<open>Properties\<close>

text \<open>C38: \<^verbatim>\<open>/encinfo\<close>. What the command prints, read back as hexadecimal digits, is the session key and the control key
  of the client, each on a line of its own.\<close>

theorem encinfo_shows_keys:
  assumes "length (session ctx) = 32" "length (ctrl ctx) = 32"
  shows "\<exists>s c. cmd_print_enc_info ctx out = Inr (out @ ascii ''Session Key: '' @ s @ ascii ''Control Key: '' @ c) \<and>
    unhex s = session ctx \<and> unhex c = ctrl ctx"
proof -
  have "\<exists>t. xmemprint key 32 o' = Inr (o' @ t) \<and> unhex t = key" if "length key = 32" for key o'
    using memprint_loop_ok[of 32 0 8 key o'] that by (simp add: xmemprint_def)
  then obtain s c where "xmemprint (session ctx) 32 (out @ ascii ''Session Key: '') = Inr ((out @ ascii ''Session Key: '') @ s)" "unhex s = session ctx"
    "xmemprint (ctrl ctx) 32 (((out @ ascii ''Session Key: '') @ s) @ ascii ''Control Key: '') =
      Inr ((((out @ ascii ''Session Key: '') @ s) @ ascii ''Control Key: '') @ c)" "unhex c = ctrl ctx"
    using assms by metis
  then show ?thesis by (intro exI[of _ s] exI[of _ c]) (simp add: cmd_print_enc_info_def client_get_keys_def)
qed

theorem encinfo_shows_keys_witness:
  "\<exists>s c. cmd_print_enc_info \<lparr>conn = \<lparr>conn_rx = [], conn_tx = \<lparr>plan = [], sent = []\<rparr>\<rparr>, username = ascii ''ada'' @ [0],
       session = replicate 32 0xa5, ctrl = replicate 32 7, conn_announced = True, keep_alive = True,
       last_sender = replicate 64 0, last_message_time = 0, files = Map.empty, shown = []\<rparr> [] =
     Inr (ascii ''Session Key: '' @ s @ ascii ''Control Key: '' @ c) \<and> unhex s = replicate 32 0xa5 \<and> unhex c = replicate 32 7"
  using encinfo_shows_keys[of "\<lparr>conn = \<lparr>conn_rx = [], conn_tx = \<lparr>plan = [], sent = []\<rparr>\<rparr>, username = ascii ''ada'' @ [0],
       session = replicate 32 0xa5, ctrl = replicate 32 7, conn_announced = True, keep_alive = True,
       last_sender = replicate 64 0, last_message_time = 0, files = Map.empty, shown = []\<rparr>" "[]"] by simp

end
