(* ===== verification/Spec2Isabelle.thy ===== *)
theory Spec2Isabelle
  imports Prelude Wire_Util Aes128 Aes_Modes Sha256 Wire Net Cable Messages X25519_Correct Key_Agreement Daemon_Table
    Utf8 Slice Utils Files Client Chat Console Line_Editor Line_Keys Threads Entry Printing
begin

text \<open>
  A verification development for parcel, an end-to-end encrypted group chat for the terminal
  (sources under \<^verbatim>\<open>src/src\<close>).

  \<^bold>\<open>The program.\<close> A client (\<^verbatim>\<open>parcel\<close>) reads lines with its own line editor, puts each
  message into a \<^emph>\<open>wire\<close>, an AES-128-CBC ciphertext with an inner and an outer AES-CMAC, and the wire into a
  \<^emph>\<open>cable\<close>, a frame with a signature and a length. The daemon (\<^verbatim>\<open>parceld\<close>) accepts connections,
  sends every cable it gets to all other clients and never holds the session key. When a client
  arrives, daemon and client agree on a control key by X25519 (\<open>two-party\<close>); after every arrival and departure
  the daemon sends a control wire and relays a ring of X25519 values, from which all clients compute the
  same session key (\<open>n-party\<close>).

  \<^bold>\<open>The theories\<close>, in the order in which they build on each other. Each opens with how its types
  and parameters correspond to the code.

  \<^item> \<^verbatim>\<open>Prelude\<close>: bytes, little-endian packing, C memory as lists, and the result type: every operation that
    can fault returns \<open>c_fault + 'a\<close>, where the faults are reads and writes outside an object, failed
    assertions, null pointers, division by zero, \<^verbatim>\<open>exit\<close> and loops that never end.
  \<^item> \<^verbatim>\<open>Wire_Util\<close> (\<^verbatim>\<open>common/wire-util.c\<close>): the integers on the wire, packed and unpacked.
  \<^item> \<^verbatim>\<open>Aes128\<close>, \<^verbatim>\<open>Aes_Modes\<close> (\<^verbatim>\<open>crypto/aes128.c\<close>): the block cipher with its tables,
    shown to be a permutation for every round-key buffer, CBC and its bounds, and CMAC, shown to be the one
    of RFC 4493.
  \<^item> \<^verbatim>\<open>Sha256\<close> (\<^verbatim>\<open>crypto/sha256.c\<close>): the incremental hash, shown to be FIPS 180-4 for any division of the message.
    The standard is written out on its own there, with the constants computed from the roots of the primes.
  \<^item> \<^verbatim>\<open>X25519\<close>, \<^verbatim>\<open>X25519_Field\<close>, \<^verbatim>\<open>X25519_Correct\<close> (\<^verbatim>\<open>crypto/x25519.c\<close>): sixteen signed 64-bit limbs with
    wrap-around; bounds on all limbs show that nothing wraps, and the ladder computes the function of RFC 7748.
  \<^item> \<^verbatim>\<open>Wire\<close> (\<^verbatim>\<open>common/wire.c\<close>): sealing and opening wires; round trip, authenticity of what is accepted, the two keys.
  \<^item> \<^verbatim>\<open>Net\<close> (\<^verbatim>\<open>xsendall\<close>, \<^verbatim>\<open>xrecvall\<close>), \<^verbatim>\<open>Cable\<close> (\<^verbatim>\<open>common/cable.c\<close>): transfers over a socket and frames; the
    locale \<open>byte_stream\<close> is the contract of a socket, interpreted on the transfers.
  \<^item> \<^verbatim>\<open>Messages\<close> (\<^verbatim>\<open>wire-ctrl.c\<close>, \<^verbatim>\<open>wire-stat.c\<close>, \<^verbatim>\<open>wire-text.c\<close>, \<^verbatim>\<open>wire-raw.c\<close>, \<^verbatim>\<open>wire-gen.h\<close>) and \<^verbatim>\<open>Files\<close> (\<^verbatim>\<open>wire-file.c\<close>):
    the message families over the accessors the macros generate; the locale \<open>message_layout\<close> states the accessors once for
    every size of the header.
  \<^item> \<^verbatim>\<open>Key_Exchange\<close>, \<^verbatim>\<open>Key_Agreement\<close> (\<^verbatim>\<open>common/key-exchange.c\<close>): both sides of both exchanges, and that they agree.
  \<^item> \<^verbatim>\<open>Platform\<close>, \<^verbatim>\<open>Daemon\<close>, \<^verbatim>\<open>Daemon_Table\<close> (\<^verbatim>\<open>xplatform.c\<close>, \<^verbatim>\<open>parceld/daemon.c\<close>): the socket table and the
    \<^verbatim>\<open>select\<close> loop as an inductive step relation; the invariant of the table by rule induction, the fan-out of cables, and a refinement: the
    locale \<open>simulation\<close>, interpreted on the loop, shows that each step of it is a step of the group of clients
    for the event (nobody, one joins, one leaves) that is read off that step.
  \<^item> \<^verbatim>\<open>Utf8\<close>, \<^verbatim>\<open>Slice\<close>, \<^verbatim>\<open>Utils\<close> (\<^verbatim>\<open>common/utf8.c\<close>, \<^verbatim>\<open>slice.c\<close>, \<^verbatim>\<open>xutils.c\<close>): code points and their width on the
    screen, growing byte buffers, strings, options and the request for the public address.
  \<^item> \<^verbatim>\<open>Console\<close>, \<^verbatim>\<open>Line_Editor\<close>, \<^verbatim>\<open>Line_Keys\<close> (\<^verbatim>\<open>common/console.c\<close>): the line editor; \<open>line_shows\<close> relates its struct
    to a text with a cursor, and every key is shown to edit that text; the mode of the terminal around a prompt.
  \<^item> \<^verbatim>\<open>Client\<close>, \<^verbatim>\<open>Chat\<close> (\<^verbatim>\<open>parcel/client.c\<close>, \<^verbatim>\<open>wire-interface.c\<close>, \<^verbatim>\<open>proc-type.c\<close>, \<^verbatim>\<open>commands.c\<close>): the client's state, the
    iterations of its two threads, what it shows; delivery of text and renewal of keys.
  \<^item> \<^verbatim>\<open>Threads\<close> (\<^verbatim>\<open>recv_thread\<close>, \<^verbatim>\<open>send_thread\<close>): the client as a process whose two threads take their iterations in any
    order, an inductive step relation. The locale \<open>client_invariant\<close> is what a property of the client's data needs
    to hold in every run; it is interpreted on the sizes of the arrays and on the announcement that comes
    before all other messages. Here is also what a closed connection does to the receiver, and a message in flight
    to the daemon's exchange.
  \<^item> \<^verbatim>\<open>Entry\<close> (\<^verbatim>\<open>parcel/parcel.c\<close>, \<^verbatim>\<open>parceld/parceld.c\<close>): both \<^verbatim>\<open>main\<close> functions with their option loops, whose end is proved
    with the bytes of the arguments left as the measure, and what the daemon displays.
  \<^item> \<^verbatim>\<open>Printing\<close> (\<^verbatim>\<open>log.c\<close>, parts of \<^verbatim>\<open>xutils.c\<close> and \<^verbatim>\<open>commands.c\<close>): what is printed and logged, as bytes, and the
    directories of \<^verbatim>\<open>xget_dir\<close>.

  This theory composes them: a typed line passes the editor, the sending client, the daemon and the
  receiving client.

  \<^bold>\<open>Parameters and hypotheses.\<close> What the operating system answers is a parameter: random bytes, the
  results of socket, file and terminal calls, the clock, the segments in which \<^verbatim>\<open>recv\<close> delivers bytes
  and the numbers of bytes \<^verbatim>\<open>send\<close> accepts. The agreement of the ring uses that the scalar multiplications
  of the parties commute (\<open>exchange_commutes\<close>), the law of Diffie and Hellman for the secrets at hand; it is a
  hypothesis about the function of RFC 7748, which the code is shown to compute, and the witnesses satisfy
  it. Nothing is assumed of the cipher and the codes but what is proved here.

  \<^bold>\<open>Bounds.\<close> Lengths are \<^verbatim>\<open>size_t\<close> words or natural numbers with the modulus written out. Loops whose
  end is not evident are partial functions into \<open>option\<close>, and it is proved when they return; there is no
  fuel. The theorems about the line editor hold for a terminal of fewer than \<open>2 ^ 16\<close> columns that the
  prompt does not fill exactly, and for fewer than \<open>2 ^ 15\<close> columns of prompt and text, so that the numbers
  in the escape sequences fit their buffer. Allocation of a positive size always succeeds, memory that
  \<^verbatim>\<open>realloc\<close> adds is zero, and \<^verbatim>\<open>realloc\<close> to size 0 returns the null pointer, as in the GNU C library. The plan
  of answers of \<^verbatim>\<open>send\<close> is a finite list, after which it takes everything: a \<^verbatim>\<open>send\<close> that answers 0 forever is
  not represented.

  \<^bold>\<open>Not modelled.\<close> The threads of the client alternate between whole iterations of their loops; a finer
  interleaving of their writes to the socket is not explored. The signal handlers,
  the usage texts, an error of \<^verbatim>\<open>fread\<close> in the middle of a file that is being sent, the time stamp \<^verbatim>\<open>show_timestamp\<close> prints, and the release of memory. The Windows branches of
  \<^verbatim>\<open>xplatform.c\<close> and its one-line wrappers of system calls, whose answers are parameters.
\<close>

subsection \<open>From one terminal to the others\<close>

lemma typed_byte:
  fixes c :: u32
  assumes "0x20 \<le> c" "c < 0x7f"
  shows "(ucast c :: byte) \<noteq> 0" "(ucast c :: byte) = 0x2f \<longleftrightarrow> c = 0x2f"
proof -
  have "c < 0x80" using assms(2) by (rule order.strict_trans) simp
  then have c: "c = ucast (ucast c :: byte)" by (simp add: ascii_byte(2))
  then show "(ucast c :: byte) \<noteq> 0" using assms(1) by auto
  show "(ucast c :: byte) = 0x2f \<longleftrightarrow> c = 0x2f" using c by auto
qed

text \<open>C1: a typed line reaches everyone. On a terminal where the prompt fits, \<^verbatim>\<open>xprompt\<close> returns
  the printable line typed before ENTER; the iteration of \<^verbatim>\<open>send_thread\<close> that gets it shows it and sends one
  frame; the daemon that finds the frame in a client's socket sends it to every other client; and the
  next iteration of \<^verbatim>\<open>recv_thread\<close> in a client with the same session key, on the bytes the daemon wrote to
  it, takes exactly those and shows the sender and the line. The line is no command, its length
  is not 7 modulo 16, and the first \<^verbatim>\<open>recv\<close> of the daemon delivers at least the whole header of the frame
  (\<^verbatim>\<open>Daemon_Table\<close> shows what happens when it does not).\<close>

theorem typed_line_reaches_everyone:
  assumes "prompt_fits prmpt (xwinsize tty) (length cs)" "length fresh = 64" "plan (tty_out tty) = []" "tc_plan (tty_attr tty) = []"
    and "cs \<noteq> []" "\<forall>c \<in> set cs. 0x20 \<le> c \<and> c < 0x7f" "hd cs \<noteq> 0x2f" "length cs mod 16 \<noteq> 7"
    and "tty_in tty = Segment (encoded cs @ 13 # bs) # rx"
    and "keep_alive a" "c_string (username a) 63 \<noteq> []" "wire_iv env = Some r" "length r = 16" "sends_ok (conn a)"
  shows "\<exists>buf tty' a' frame. xprompt fresh prmpt 0 tty = Inr (buf, length cs, tty') \<and>
     send_step env a buf (of_nat (length cs)) = Inr (True, a') \<and> last (shown a') = Text (map ucast cs) \<and>
     outb (conn a') = outb (conn a) @ frame \<and> framed frame \<and>
     (\<forall>listener clients srv i seg segs denv.
        table listener clients srv \<and> 1 \<le> i \<and> i \<le> length clients \<and> (\<forall>fd \<in> set clients. sends_ok (net srv fd)) \<and>
        conn_rx (net srv (clients ! (i - 1))) = Segment seg # segs \<and> 14 \<le> length seg \<and> inb (net srv (clients ! (i - 1))) = frame \<longrightarrow>
        (\<exists>srv'. recv_client denv srv i = Inr (True, srv') \<and>
           (\<forall>fd \<in> set clients - {clients ! (i - 1)}. \<forall>env' b.
              session b = session a \<and> outb (net srv' fd) = outb (net srv fd) @ inb (conn b) \<longrightarrow>
              (\<exists>b'. recv_step env' b = Inr (True, b') \<and> inb (conn b') = [] \<and>
                 shown b' = shown b @ text_events env' b (username a) (map ucast cs)))))"
proof -
  let ?text = "map ucast cs :: byte list"
  obtain slack tty' where p: "xprompt fresh prmpt 0 tty = Inr (?text @ 0 # slack, length cs, tty')"
    using xprompt_ascii[OF assms(1,2,5,3,4,6,9)] by blast
  have t: "0 \<notin> set ?text" "?text \<noteq> []" "hd ?text \<noteq> 0x2f" using assms(5-7) typed_byte by (auto simp: hd_map)
  have "length ?text < 2 ^ 32" using assms(1) by (auto simp: prompt_fits_def split: sum.splits)
  from send_step_text[OF assms(10) t this assms(11-14), of slack] assms(8) obtain a' frame where
    s: "send_step env a (?text @ 0 # slack) (of_nat (length cs)) = Inr (True, a')" "last (shown a') = Text ?text"
      "outb (conn a') = outb (conn a) @ frame" "framed frame"
      "\<And>env' b rest. session b = session a \<Longrightarrow> inb (conn b) = frame @ rest \<Longrightarrow>
        \<exists>b'. recv_step env' b = Inr (True, b') \<and> inb (conn b') = rest \<and> shown b' = shown b @ text_events env' b (username a) ?text"
    by auto
  obtain n body where f: "frame = ascii ''parcel'' @ wire_unpack64 n @ body" "unat n = 14 + length body"
    using s(4) by (auto simp: framed_def)
  have "\<exists>srv'. recv_client denv srv i = Inr (True, srv') \<and>
           (\<forall>fd \<in> set clients - {clients ! (i - 1)}. \<forall>env' b.
              session b = session a \<and> outb (net srv' fd) = outb (net srv fd) @ inb (conn b) \<longrightarrow>
              (\<exists>b'. recv_step env' b = Inr (True, b') \<and> inb (conn b') = [] \<and>
                 shown b' = shown b @ text_events env' b (username a) ?text))"
    if prem: "table listener clients srv" "1 \<le> i" "i \<le> length clients" "\<forall>fd \<in> set clients. sends_ok (net srv fd)"
      "conn_rx (net srv (clients ! (i - 1))) = Segment seg # segs" "14 \<le> length seg" "inb (net srv (clients ! (i - 1))) = frame"
    for listener clients srv i seg segs denv
  proof -
    obtain srv' where r: "recv_client denv srv i = Inr (True, srv')"
      "\<forall>fd \<in> set clients - {clients ! (i - 1)}. outb (net srv' fd) = outb (net srv fd) @ frame"
      using recv_client_relays[OF prem(1-4) refl prem(5,6) f, of "[]" denv] prem(7) by auto
    then show ?thesis using s(5)[of _ "[]"] by (intro exI[of _ srv']) auto
  qed
  with p s(1-4) show ?thesis by blast
qed

theorem typed_line_reaches_everyone_witness:
  "\<exists>buf tty' a' ns srv' b b'.
     xprompt (replicate 64 0) [0x3e, 0x20, 0] 0 ((example_tty [0x68, 0x69, 13])\<lparr>tty_out := \<lparr>plan = [], sent = []\<rparr>\<rparr>) = Inr (buf, 2, tty') \<and>
     send_step example_client_env example_client buf 2 = Inr (True, a') \<and> inb (ns 5) = outb (conn a') \<and>
     recv_client example_env (example_srv ns [4, 5, 6]) 2 = Inr (True, srv') \<and> inb (conn b) = outb (net srv' 6) \<and> shown b = [] \<and>
     recv_step example_client_env b = Inr (True, b') \<and> shown b' = text_events example_client_env b (username example_client) [0x68, 0x69]"
proof -
  let ?tty = "(example_tty [0x68, 0x69, 13])\<lparr>tty_out := \<lparr>plan = [], sent = []\<rparr>\<rparr>" and ?cs = "[0x68, 0x69 :: u32]"
  have "tty_in ?tty = Segment (encoded ?cs @ 13 # []) # [RecvError]" "keep_alive example_client"
    "prompt_fits [0x3e, 0x20, 0] (xwinsize ?tty) (length ?cs)" "plan (tty_out ?tty) = []" "tc_plan (tty_attr ?tty) = []"
    by (simp_all add: example_tty_def xwinsize_def utf8_encode_def example_client_def example_prompt)
  note h = this
  have g: "length (replicate 64 (0 :: byte)) = 64" "?cs \<noteq> []" "\<forall>c \<in> set ?cs. 0x20 \<le> c \<and> c < 0x7f" "hd ?cs \<noteq> 0x2f" "length ?cs mod 16 \<noteq> 7"
    "length (replicate 16 (7 :: byte)) = 16" by simp_all
  from typed_line_reaches_everyone[OF h(3) g(1) h(4,5) g(2-5) h(1,2) example_client_ready(1,2) g(6) example_client_ready(3)]
  obtain buf tty' a' frame where s: "xprompt (replicate 64 0) [0x3e, 0x20, 0] 0 ?tty = Inr (buf, length ?cs, tty')"
    "send_step example_client_env example_client buf (of_nat (length ?cs)) = Inr (True, a')"
    "outb (conn a') = outb (conn example_client) @ frame" "framed frame"
    and relay: "\<forall>listener clients srv i seg segs denv.
        table listener clients srv \<and> 1 \<le> i \<and> i \<le> length clients \<and> (\<forall>fd \<in> set clients. sends_ok (net srv fd)) \<and>
        conn_rx (net srv (clients ! (i - 1))) = Segment seg # segs \<and> 14 \<le> length seg \<and> inb (net srv (clients ! (i - 1))) = frame \<longrightarrow>
        (\<exists>srv'. recv_client denv srv i = Inr (True, srv') \<and>
           (\<forall>fd \<in> set clients - {clients ! (i - 1)}. \<forall>env' b.
              session b = session example_client \<and> outb (net srv' fd) = outb (net srv fd) @ inb (conn b) \<longrightarrow>
              (\<exists>b'. recv_step env' b = Inr (True, b') \<and> inb (conn b') = [] \<and>
                 shown b' = shown b @ text_events env' b (username example_client) (map ucast ?cs))))"
    by (elim exE conjE) (rule that; assumption)
  define ns :: net_t where "ns fd = \<lparr>conn_rx = [Segment frame], conn_tx = \<lparr>plan = [], sent = []\<rparr>\<rparr>" for fd
  have "14 \<le> length frame" using s(4) by (auto simp: framed_def)
  then obtain srv' where r: "recv_client example_env (example_srv ns [4, 5, 6]) 2 = Inr (True, srv')"
    "\<forall>fd \<in> {4, 5, 6} - {5}. \<forall>env' b. session b = session example_client \<and> outb (net srv' fd) = inb (conn b) \<longrightarrow>
       (\<exists>b'. recv_step env' b = Inr (True, b') \<and> inb (conn b') = [] \<and>
          shown b' = shown b @ text_events env' b (username example_client) [0x68, 0x69])"
    using relay[rule_format, of 3 "[4, 5, 6]" "example_srv ns [4, 5, 6]" 2 frame "[]" example_env] example_table(1,3)
    by (auto simp: ns_def sends_ok_def)
  let ?b = "example_client\<lparr>conn := \<lparr>conn_rx = [Segment (outb (net srv' 6))], conn_tx = \<lparr>plan = [], sent = []\<rparr>\<rparr>\<rparr>"
  obtain b' where "recv_step example_client_env ?b = Inr (True, b')"
    "shown b' = shown ?b @ text_events example_client_env ?b (username example_client) [0x68, 0x69]"
    using bspec[OF r(2), of 6, THEN spec[of _ example_client_env], THEN spec[of _ ?b]] by auto
  then show ?thesis using s r(1)
    by (intro exI[of _ buf] exI[of _ tty'] exI[of _ a'] exI[of _ ns] exI[of _ srv'] exI[of _ ?b] exI[of _ b'])
      (simp add: ns_def example_client_def)
qed

end
